(* ===== verification/Prelude.thy ===== *)
theory Prelude
  imports Main "HOL-Library.Word" "HOL-Library.Monad_Syntax"
begin

text \<open>
  Shared vocabulary of the development.

  \<^item> The machine integers of the source: \<open>u8\<close>, \<open>u16\<close>, \<open>u32\<close>, \<open>u64\<close> are words of that
    width; \<open>usize\<close> is 64 bits wide, because every crate modelled here is built for an
    x86-64 target.
  \<^item> The Rust integer operations the code uses: \<open>checked_add\<close>, \<open>checked_mul\<close>,
    \<open>saturating_sub\<close>, \<open>next_multiple_of\<close> and \<open>div_ceil\<close>.
  \<^item> The type \<open>'a run\<close>: what a function that may panic or diverge returns. The crates are
    built with the dev profile (xtask runs a plain \<open>cargo build\<close>), so a plain
    \<open>+\<close> or \<open>*\<close> that overflows is a panic, not a wrap-around. \<open>None\<close> means that the
    call does not return normally: it panics, or it loops for ever. A theorem that a
    call equals \<open>Some\<close> therefore includes absence of overflow and termination.
    In the \<open>run\<close> reading \<open>checked_add\<close> is the source's plain \<open>+\<close>.
  \<^item> The facts that move a goal about words to one about natural numbers, in the collection
    \<open>to_nat\<close>.
\<close>

unbundle bit_operations_syntax

type_synonym u8 = "8 word"
type_synonym u16 = "16 word"
type_synonym u32 = "32 word"
type_synonym u64 = "64 word"
type_synonym usize = "64 word"

type_synonym 'a run = "'a option"

named_theorems to_nat "words to natural numbers"

section \<open>Integer operations of the Rust core library\<close>

definition checked_add :: "'a::len word \<Rightarrow> 'a word \<Rightarrow> 'a word option" where
  "checked_add a b = (if unat a + unat b < 2 ^ LENGTH('a) then Some (a + b) else None)"

definition checked_mul :: "'a::len word \<Rightarrow> 'a word \<Rightarrow> 'a word option" where
  "checked_mul a b = (if unat a * unat b < 2 ^ LENGTH('a) then Some (a * b) else None)"

definition checked_sub :: "'a::len word \<Rightarrow> 'a word \<Rightarrow> 'a word option" where
  "checked_sub a b = (if b \<le> a then Some (a - b) else None)"

definition saturating_sub :: "'a::len word \<Rightarrow> 'a word \<Rightarrow> 'a word" where
  "saturating_sub a b = (if b \<le> a then a - b else 0)"

definition checked_next_multiple_of :: "'a::len word \<Rightarrow> 'a word \<Rightarrow> 'a word option" where
  "checked_next_multiple_of a m =
     (if m = 0 then None
      else if a mod m = 0 then Some a
      else checked_add a (m - a mod m))"

definition div_ceil :: "'a::len word \<Rightarrow> 'a word \<Rightarrow> 'a word" where
  "div_ceil a b = (if a mod b = 0 then a div b else a div b + 1)"

text \<open>The overflow tests on binary integers, for evaluation.\<close>

lemma checked_add_code [code]:
  "checked_add a b =
     (if uint a + uint b < 2 ^ LENGTH('a) then Some (a + b :: 'a::len word) else None)"
  by (simp add: checked_add_def flip: of_nat_less_iff [where 'a = int])

lemma checked_mul_code [code]:
  "checked_mul a b =
     (if uint a * uint b < 2 ^ LENGTH('a) then Some (a * b :: 'a::len word) else None)"
  by (simp add: checked_mul_def flip: of_nat_less_iff [where 'a = int])

text \<open>
  Arithmetic on a \<open>usize\<close> that is kept as the natural number it holds: overflow is a panic.
\<close>

definition usize_val :: "nat \<Rightarrow> nat run" where
  "usize_val n = (if n < 2 ^ 64 then Some n else None)"

section \<open>The same operations on natural numbers\<close>

definition round_up :: "nat \<Rightarrow> nat \<Rightarrow> nat" where
  "round_up a m = (if a mod m = 0 then a else a + (m - a mod m))"

definition round_down :: "nat \<Rightarrow> nat \<Rightarrow> nat" where
  "round_down a m = a - a mod m"

lemma round_up_ge [simp, intro]: "a \<le> round_up a m"
  by (simp add: round_up_def)

lemma round_up_dvd [simp, intro]: "0 < m \<Longrightarrow> m dvd round_up a m"
proof -
  assume m: "0 < m"
  show ?thesis
  proof (cases "a mod m = 0")
    case True
    then show ?thesis by (simp add: round_up_def dvd_eq_mod_eq_0)
  next
    case False
    have "a + (m - a mod m) = m * (a div m) + m"
      using m mult_div_mod_eq [of m a] mod_less_divisor [OF m, of a] by linarith
    then show ?thesis using False by (simp add: round_up_def)
  qed
qed

lemma round_up_less: "0 < m \<Longrightarrow> round_up a m < a + m"
  by (simp add: round_up_def)

lemma round_up_least: "0 < m \<Longrightarrow> m dvd b \<Longrightarrow> a \<le> b \<Longrightarrow> round_up a m \<le> b"
proof -
  assume m: "0 < m" "m dvd b" "a \<le> b"
  have "round_up a m < b + m" using round_up_less [OF m(1), of a] m(3) by simp
  moreover obtain k where k: "b = m * k" using m(2) by (rule dvdE)
  moreover obtain j where j: "round_up a m = m * j" using round_up_dvd [OF m(1)] by (rule dvdE)
  ultimately have "m * j < m * (k + 1)" by simp
  then have "j < k + 1" by (rule mult_less_cancel1 [THEN iffD1, THEN conjunct2])
  then have "j \<le> k" by simp
  then show ?thesis using j k by simp
qed

lemma dvd_step: "m dvd c \<Longrightarrow> m dvd e \<Longrightarrow> c < e \<Longrightarrow> c + m \<le> (e :: nat)"
  using dvd_imp_le [of m "e - c"] by auto

lemma round_up_id [simp]: "m dvd a \<Longrightarrow> round_up a m = a"
  by (simp add: round_up_def dvd_eq_mod_eq_0)

lemma round_down_le [simp, intro]: "round_down a m \<le> a"
  by (simp add: round_down_def)

lemma round_down_dvd [simp, intro]: "m dvd round_down a m"
  by (simp add: round_down_def minus_mod_eq_mult_div)

lemma round_down_greater: "0 < m \<Longrightarrow> a < round_down a m + m"
  using mod_less_divisor [of m a] mod_less_eq_dividend [of a m]
  unfolding round_down_def by linarith

lemma round_down_greatest: "0 < m \<Longrightarrow> m dvd b \<Longrightarrow> b \<le> a \<Longrightarrow> b \<le> round_down a m"
proof -
  assume m: "0 < m" "m dvd b" "b \<le> a"
  have "b < round_down a m + m" using round_down_greater [OF m(1), of a] m(3) by simp
  moreover obtain k where k: "b = m * k" using m(2) by (rule dvdE)
  moreover obtain j where j: "round_down a m = m * j" using round_down_dvd by (rule dvdE)
  ultimately have "m * k < m * (j + 1)" by simp
  then have "k < j + 1" by (rule mult_less_cancel1 [THEN iffD1, THEN conjunct2])
  then have "k \<le> j" by simp
  then show ?thesis using j k by simp
qed

section \<open>From words to natural numbers\<close>

lemmas [to_nat] = word_le_nat_alt word_less_nat_alt

lemma unat_bound: "unat (a :: 'a::len word) < 2 ^ LENGTH('a)"
  by (rule unsigned_less)

lemma word_of_unat: "n < 2 ^ LENGTH('a) \<Longrightarrow> \<exists>c :: 'a::len word. unat c = n"
  by (rule exI [of _ "of_nat n"]) (simp add: unat_of_nat)

lemma unat_u64_bound [simp, intro]: "unat (a :: u64) < 18446744073709551616"
  using unsigned_less [of a] by simp

lemma unat_sub_le [to_nat]: "unat b \<le> unat a \<Longrightarrow> unat (a - b) = unat a - unat b"
  by (simp add: unat_sub word_le_nat_alt)

lemma unat_add_small [to_nat]:
  "unat a + unat b < 2 ^ LENGTH('a) \<Longrightarrow> unat (a + b :: 'a::len word) = unat a + unat b"
  by (simp add: unat_word_ariths)

lemma unat_mult_small [to_nat]:
  "unat a * unat b < 2 ^ LENGTH('a) \<Longrightarrow> unat (a * b :: 'a::len word) = unat a * unat b"
  by (simp add: unat_word_ariths)

text \<open>Clearing the low bits rounds down.\<close>

lemma unat_and_not_mask:
  "unat (and v (not (mask n)) :: 'a::len word) = unat v div 2 ^ n * 2 ^ n"
proof -
  have "and v (not (mask n)) = push_bit n (drop_bit n v)"
    by (rule bit_word_eqI) (auto simp: bit_simps)
  also have "unat \<dots> = unat v div 2 ^ n * 2 ^ n"
  proof -
    have "unat v div 2 ^ n * 2 ^ n < 2 ^ LENGTH('a)"
      using unat_bound [of v] by (intro le_less_trans [OF div_times_less_eq_dividend])
    then show ?thesis
      unfolding unsigned_push_bit_eq unsigned_drop_bit_eq
      by (simp add: push_bit_eq_mult drop_bit_eq_div take_bit_eq_mod)
  qed
  finally show ?thesis .
qed

lemmas unat_divmod [to_nat] = unat_div_distrib unat_mod_distrib

lemma checked_add_Some_iff [simp]:
  "checked_add a b = Some c \<longleftrightarrow> unat c = unat a + unat b"
proof
  assume "checked_add a b = Some c"
  then show "unat c = unat a + unat b"
    by (auto simp: checked_add_def unat_add_small split: if_splits)
next
  assume c: "unat c = unat a + unat b"
  then have "unat a + unat b < 2 ^ LENGTH('a)" using unat_bound [of c] by simp
  moreover from this have "unat (a + b) = unat c" using c by (simp add: unat_add_small)
  ultimately show "checked_add a b = Some c" by (simp add: checked_add_def word_unat_eq_iff)
qed

lemma checked_add_None_iff [simp]:
  "checked_add (a :: 'a::len word) b = None \<longleftrightarrow> 2 ^ LENGTH('a) \<le> unat a + unat b"
  by (auto simp: checked_add_def)

lemma checked_mul_Some_iff [simp]:
  "checked_mul a b = Some c \<longleftrightarrow> unat c = unat a * unat b"
proof
  assume "checked_mul a b = Some c"
  then show "unat c = unat a * unat b"
    by (auto simp: checked_mul_def unat_mult_small split: if_splits)
next
  assume c: "unat c = unat a * unat b"
  then have "unat a * unat b < 2 ^ LENGTH('a)" using unat_bound [of c] by simp
  moreover from this have "unat (a * b) = unat c" using c by (simp add: unat_mult_small)
  ultimately show "checked_mul a b = Some c" by (simp add: checked_mul_def word_unat_eq_iff)
qed

lemma checked_mul_None_iff [simp]:
  "checked_mul (a :: 'a::len word) b = None \<longleftrightarrow> 2 ^ LENGTH('a) \<le> unat a * unat b"
  by (auto simp: checked_mul_def)

lemma checked_sub_Some_iff [simp]:
  "checked_sub a b = Some c \<longleftrightarrow> unat b \<le> unat a \<and> unat c = unat a - unat b"
  by (auto simp: checked_sub_def word_le_nat_alt unat_sub_le word_unat_eq_iff)

lemma unat_saturating_sub [simp]: "unat (saturating_sub a b) = unat a - unat b"
  by (simp add: saturating_sub_def word_le_nat_alt unat_sub_le)

lemma mod_eq_0_unat [to_nat]: "(a :: 'a::len word) mod b = 0 \<longleftrightarrow> unat a mod unat b = 0"
  by (metis unat_mod_distrib unat_eq_zero)

lemma checked_next_multiple_of_Some_iff [simp]:
  "checked_next_multiple_of a m = Some c \<longleftrightarrow> m \<noteq> 0 \<and> unat c = round_up (unat a) (unat m)"
proof -
  have "unat (m - a mod m) = unat m - unat a mod unat m" if "m \<noteq> 0"
    using that mod_less_divisor [of "unat m" "unat a"]
    by (simp add: unat_sub_le unat_mod_distrib unat_gt_0 less_imp_le)
  then show ?thesis
    by (auto simp: checked_next_multiple_of_def round_up_def word_unat_eq_iff unat_mod_distrib)
qed

lemma checked_next_multiple_of_None_iff [simp]:
  "checked_next_multiple_of (a :: 'a::len word) m = None \<longleftrightarrow>
     m = 0 \<or> 2 ^ LENGTH('a) \<le> round_up (unat a) (unat m)"
proof -
  have "(\<forall>c. checked_next_multiple_of a m \<noteq> Some c) \<longleftrightarrow>
      m = 0 \<or> 2 ^ LENGTH('a) \<le> round_up (unat a) (unat m)"
    using word_of_unat [where 'a = 'a] unat_bound
    by (metis checked_next_multiple_of_Some_iff linorder_not_le)
  then show ?thesis by (cases "checked_next_multiple_of a m") auto
qed

section \<open>Running computations that may not return\<close>

text \<open>A \<open>run\<close> that returns, whatever the rest of the computation does with it.\<close>

lemma run_bindI: "m = Some x \<Longrightarrow> f x = r \<Longrightarrow> Option.bind m f = r"
  by simp

lemma run_bindE:
  assumes "Option.bind m f = Some y"
  obtains x where "m = Some x" and "f x = Some y"
  using assms by (cases m) auto

text \<open>A run whose result was evaluated, with the state it leaves.\<close>

lemma run_result: "map_option fst m = Some r \<Longrightarrow> m = Some (r, snd (the m))"
  by (cases m) auto

end
