(* ===== verification/Elf_Loader.thy ===== *)
theory Elf_Loader
  imports Prelude
begin

unbundle bit_operations_syntax

text \<open>
  The ELF64 loader of the bootloader (bootloader/src/elf.rs).

  An image is a list of bytes, physical memory a function from addresses to bytes. Parsing is
  pure and its failures are \<open>elf_error\<close> values; loading runs on \<open>load_state\<close> (memory and the
  history of page ranges granted so far) and can also panic (\<open>None\<close>). The firmware's
  \<open>boot::allocate_pages(AllocateType::Address(..))\<close> is not in this repository: it is the parameter
  \<open>grants\<close>, which decides each request from the history of earlier grants.
\<close>

section \<open>Constants and data\<close>

definition ELF_PAGE_SIZE :: u64 where "ELF_PAGE_SIZE = 4096"
definition EI_CLASS :: nat where "EI_CLASS = 4"
definition EI_DATA :: nat where "EI_DATA = 5"
definition ELF_MAGIC :: "u8 list" where "ELF_MAGIC = [0x7f, 0x45, 0x4c, 0x46]"
definition ELFCLASS64 :: u8 where "ELFCLASS64 = 2"
definition ELFDATA2LSB :: u8 where "ELFDATA2LSB = 1"
definition ET_EXEC :: u16 where "ET_EXEC = 2"
definition EM_X86_64 :: u16 where "EM_X86_64 = 0x3e"
definition PT_LOAD :: u32 where "PT_LOAD = 1"
definition EHDR_SIZE :: nat where "EHDR_SIZE = 64"
definition PHDR_SIZE :: nat where "PHDR_SIZE = 56"

datatype elf_error = TooSmall | BadMagic | Not64Bit | NotLittleEndian | NotExecutable
  | WrongArchitecture | BadProgramHeaders | SegmentOutOfBounds | SegmentTooLarge
  | NoLoadableSegments | AllocationFailed | EntryOutOfRange

record loaded_kernel =
  lk_entry :: u64
  lk_base :: u64
  lk_size :: u64

record load_segment =
  ls_offset :: u64
  ls_vaddr :: u64
  ls_filesz :: u64
  ls_memsz :: u64

text \<open>\<open>Option::ok_or\<close> and the \<open>?\<close> operator.\<close>

definition ok_or :: "'a option \<Rightarrow> 'e \<Rightarrow> 'e + 'a" where
  "ok_or x e = (case x of None \<Rightarrow> Inl e | Some v \<Rightarrow> Inr v)"

definition try_with :: "'e + 'a \<Rightarrow> ('a \<Rightarrow> 'e + 'b) \<Rightarrow> 'e + 'b" where
  "try_with r f = (case r of Inl e \<Rightarrow> Inl e | Inr v \<Rightarrow> f v)"

section \<open>Reading the image\<close>

fun from_le_bytes :: "u8 list \<Rightarrow> 'a::len word" where
  "from_le_bytes [] = 0"
| "from_le_bytes (b # bs) = ucast b OR push_bit 8 (from_le_bytes bs)"

text \<open>\<open>bytes.get(offset..end)\<close>.\<close>

definition get_slice :: "u8 list \<Rightarrow> usize \<Rightarrow> usize \<Rightarrow> u8 list option" where
  "get_slice bytes start stop =
     (if start \<le> stop \<and> unat stop \<le> length bytes
      then Some (take (unat stop - unat start) (drop (unat start) bytes)) else None)"

definition read_u16 :: "u8 list \<Rightarrow> usize \<Rightarrow> u16 option" where
  "read_u16 bytes offset = do {
     stop \<leftarrow> checked_add offset 2;
     slice \<leftarrow> get_slice bytes offset stop;
     Some (from_le_bytes slice)
   }"

definition read_u32 :: "u8 list \<Rightarrow> usize \<Rightarrow> u32 option" where
  "read_u32 bytes offset = do {
     stop \<leftarrow> checked_add offset 4;
     slice \<leftarrow> get_slice bytes offset stop;
     Some (from_le_bytes slice)
   }"

definition read_u64 :: "u8 list \<Rightarrow> usize \<Rightarrow> u64 option" where
  "read_u64 bytes offset = do {
     stop \<leftarrow> checked_add offset 8;
     slice \<leftarrow> get_slice bytes offset stop;
     Some (from_le_bytes slice)
   }"

definition parse_header :: "u8 list \<Rightarrow> elf_error + (u64 \<times> u64 \<times> u16 \<times> u16)" where
  "parse_header img =
     (if length img < EHDR_SIZE then Inl TooSmall
      else if take 4 img \<noteq> ELF_MAGIC then Inl BadMagic
      else if img ! EI_CLASS \<noteq> ELFCLASS64 then Inl Not64Bit
      else if img ! EI_DATA \<noteq> ELFDATA2LSB then Inl NotLittleEndian
      else
        try_with (ok_or (read_u16 img 16) TooSmall) (\<lambda>e_type.
        if e_type \<noteq> ET_EXEC then Inl NotExecutable
        else
          try_with (ok_or (read_u16 img 18) TooSmall) (\<lambda>e_machine.
          if e_machine \<noteq> EM_X86_64 then Inl WrongArchitecture
          else
            try_with (ok_or (read_u64 img 24) TooSmall) (\<lambda>e_entry.
            try_with (ok_or (read_u64 img 32) TooSmall) (\<lambda>e_phoff.
            try_with (ok_or (read_u16 img 54) TooSmall) (\<lambda>e_phentsize.
            try_with (ok_or (read_u16 img 56) TooSmall) (\<lambda>e_phnum.
            if unat e_phentsize \<noteq> PHDR_SIZE then Inl BadProgramHeaders
            else Inr (e_entry, e_phoff, e_phentsize, e_phnum))))))))"

section \<open>Loading one segment\<close>

definition align_down :: "u64 \<Rightarrow> u64" where
  "align_down v = v AND NOT (ELF_PAGE_SIZE - 1)"

definition align_up :: "u64 \<Rightarrow> u64 run" where
  "align_up v = do {
     w \<leftarrow> checked_add v (ELF_PAGE_SIZE - 1);
     Some (w AND NOT (ELF_PAGE_SIZE - 1))
   }"

type_synonym byte_memory = "u64 \<Rightarrow> u8"
type_synonym page_range = "u64 \<times> usize"
type_synonym firmware = "page_range list \<Rightarrow> u64 \<Rightarrow> usize \<Rightarrow> bool"

record load_state =
  ld_mem :: byte_memory
  ld_granted :: "page_range list"

text \<open>\<open>ptr::write_bytes\<close> and \<open>ptr::copy_nonoverlapping\<close> from the image.\<close>

definition write_bytes :: "u64 \<Rightarrow> u8 \<Rightarrow> usize \<Rightarrow> byte_memory \<Rightarrow> byte_memory" where
  "write_bytes p v n m = (\<lambda>a. if a - p < n then v else m a)"

definition copy_from :: "u8 list \<Rightarrow> usize \<Rightarrow> u64 \<Rightarrow> usize \<Rightarrow> byte_memory \<Rightarrow> byte_memory" where
  "copy_from img offset dst n m =
     (\<lambda>a. if a - dst < n then img ! (unat offset + unat (a - dst)) else m a)"

definition load_segment_into ::
    "firmware \<Rightarrow> u8 list \<Rightarrow> load_segment \<Rightarrow> load_state \<Rightarrow> ((elf_error + unit) \<times> load_state) run"
where
  "load_segment_into grants img seg st = do {
     let page_start = align_down (ls_vaddr seg);
     padding \<leftarrow> checked_sub (ls_vaddr seg) page_start;
     (case checked_add padding (ls_memsz seg) of
        None \<Rightarrow> Some (Inl SegmentOutOfBounds, st)
      | Some span \<Rightarrow>
          if span = 0 then Some (Inr (), st)
          else
            let pages = div_ceil span ELF_PAGE_SIZE in
            if \<not> grants (ld_granted st) page_start pages then Some (Inl AllocationFailed, st)
            else do {
              n \<leftarrow> checked_mul pages ELF_PAGE_SIZE;
              let m1 = write_bytes page_start 0 n (ld_mem st);
              let m2 = copy_from img (ls_offset seg) (ls_vaddr seg) (ls_filesz seg) m1;
              Some (Inr (), \<lparr>ld_mem = m2, ld_granted = ld_granted st @ [(page_start, pages)]\<rparr>)
            })
   }"

section \<open>The program headers\<close>

text \<open>
  One turn of the loop up to the call of \<open>load_segment\<close>: \<open>Inr None\<close> is \<open>continue\<close>, otherwise the
  segment with its page-aligned start and its end.
\<close>

definition read_segment ::
    "u8 list \<Rightarrow> u64 \<Rightarrow> u16 \<Rightarrow> u64 \<Rightarrow> elf_error + (load_segment \<times> u64 \<times> u64) option" where
  "read_segment img phoff phentsize index =
     try_with (ok_or (checked_mul index (ucast phentsize)) BadProgramHeaders) (\<lambda>skip.
     try_with (ok_or (checked_add phoff skip) BadProgramHeaders) (\<lambda>base.
     try_with (ok_or (checked_add base (of_nat PHDR_SIZE)) BadProgramHeaders) (\<lambda>header_end.
     if length img < unat header_end then Inl BadProgramHeaders
     else
       try_with (ok_or (read_u32 img base) BadProgramHeaders) (\<lambda>p_type.
       if p_type \<noteq> PT_LOAD then Inr None
       else
         try_with (ok_or (read_u64 img (base + 8)) BadProgramHeaders) (\<lambda>offset.
         try_with (ok_or (read_u64 img (base + 16)) BadProgramHeaders) (\<lambda>vaddr.
         try_with (ok_or (read_u64 img (base + 32)) BadProgramHeaders) (\<lambda>filesz.
         try_with (ok_or (read_u64 img (base + 40)) BadProgramHeaders) (\<lambda>memsz.
         if memsz < filesz then Inl SegmentTooLarge
         else
           try_with (ok_or (checked_add offset filesz) SegmentOutOfBounds) (\<lambda>file_end.
           if length img < unat file_end then Inl SegmentOutOfBounds
           else
             try_with (ok_or (checked_add vaddr memsz) SegmentOutOfBounds) (\<lambda>seg_end.
             Inr (Some (\<lparr>ls_offset = offset, ls_vaddr = vaddr, ls_filesz = filesz,
               ls_memsz = memsz\<rparr>, align_down vaddr, seg_end))))))))))))"

text \<open>The loop from \<open>index\<close>, with \<open>n\<close> headers to go; it carries \<open>(lowest, highest, loaded_any)\<close>.\<close>

fun load_headers ::
    "firmware \<Rightarrow> u8 list \<Rightarrow> u64 \<Rightarrow> u16 \<Rightarrow> nat \<Rightarrow> u64 \<Rightarrow> u64 \<times> u64 \<times> bool \<Rightarrow> load_state \<Rightarrow>
     ((elf_error + (u64 \<times> u64 \<times> bool)) \<times> load_state) run" where
  "load_headers grants img phoff phentsize 0 index hull st = Some (Inr hull, st)"
| "load_headers grants img phoff phentsize (Suc n) index (lowest, highest, loaded_any) st =
     (case read_segment img phoff phentsize index of
        Inl e \<Rightarrow> Some (Inl e, st)
      | Inr None \<Rightarrow>
          load_headers grants img phoff phentsize n (index + 1) (lowest, highest, loaded_any) st
      | Inr (Some (seg, seg_start, seg_end)) \<Rightarrow> do {
          (r, st') \<leftarrow> load_segment_into grants img seg st;
          (case r of
             Inl e \<Rightarrow> Some (Inl e, st')
           | Inr _ \<Rightarrow>
               load_headers grants img phoff phentsize n (index + 1)
                 (min lowest seg_start, max highest seg_end, True) st')
        })"

definition load_kernel ::
    "firmware \<Rightarrow> u8 list \<Rightarrow> load_state \<Rightarrow> ((elf_error + loaded_kernel) \<times> load_state) run" where
  "load_kernel grants img st =
     (case parse_header img of
        Inl e \<Rightarrow> Some (Inl e, st)
      | Inr (entry, phoff, phentsize, phnum) \<Rightarrow> do {
          (r, st') \<leftarrow> load_headers grants img phoff phentsize (unat phnum) 0 (-1, 0, False) st;
          (case r of
             Inl e \<Rightarrow> Some (Inl e, st')
           | Inr (lowest, highest, loaded_any) \<Rightarrow>
               if \<not> loaded_any then Some (Inl NoLoadableSegments, st')
               else if entry < lowest \<or> highest \<le> entry then Some (Inl EntryOutOfRange, st')
               else do {
                 top \<leftarrow> align_up highest;
                 len \<leftarrow> checked_sub top lowest;
                 Some (Inr \<lparr>lk_entry = entry, lk_base = lowest, lk_size = len\<rparr>, st')
               })
        })"

end
