(* ===== verification/Boot_Info.thy ===== *)
theory Boot_Info
  imports Prelude
begin

text \<open>
  The crate \<open>boot_info\<close> (boot_info/src/lib.rs): the handoff structure the bootloader fills in
  and the kernel validates, and the iterator \<open>UsableRegions\<close> that turns the UEFI memory map
  into page-aligned runs of free frames.

  The iterator's loop body is \<open>region_run\<close> (\<open>None\<close> is the source's \<open>continue\<close>), the loop is
  \<open>usable_next\<close>. The lemmas show that \<open>region_run\<close> finds exactly the whole frames of a
  region other than frame 0, and that calling \<open>next\<close> until it is exhausted yields
  exactly the runs of the map, in its order.
\<close>

section \<open>Data\<close>

definition BOOT_INFO_MAGIC :: u64 where "BOOT_INFO_MAGIC = 0x52555354425f4c30"
definition BOOT_INFO_VERSION :: u32 where "BOOT_INFO_VERSION = 1"
definition PAGE_SIZE :: u64 where "PAGE_SIZE = 4096"

datatype pixel_format_kind = Rgb | Bgr

definition pixel_format_as_u32 :: "pixel_format_kind \<Rightarrow> u32" where
  "pixel_format_as_u32 k = (case k of Rgb \<Rightarrow> 0 | Bgr \<Rightarrow> 1)"

definition pixel_format_from_u32 :: "u32 \<Rightarrow> pixel_format_kind option" where
  "pixel_format_from_u32 v = (if v = 0 then Some Rgb else if v = 1 then Some Bgr else None)"

record frame_buffer_info =
  fb_addr :: u64
  fb_size :: u64
  fb_width :: u32
  fb_height :: u32
  fb_stride :: u32
  fb_bytes_per_pixel :: u32
  fb_pixel_format_raw :: u32
  fb_pad :: u32

definition frame_buffer_info_new ::
    "u64 \<Rightarrow> u64 \<Rightarrow> u32 \<Rightarrow> u32 \<Rightarrow> u32 \<Rightarrow> u32 \<Rightarrow> pixel_format_kind \<Rightarrow> frame_buffer_info" where
  "frame_buffer_info_new addr len width height stride bpp format =
     \<lparr>fb_addr = addr, fb_size = len, fb_width = width, fb_height = height, fb_stride = stride,
      fb_bytes_per_pixel = bpp, fb_pixel_format_raw = pixel_format_as_u32 format, fb_pad = 0\<rparr>"

definition fb_pixel_format :: "frame_buffer_info \<Rightarrow> pixel_format_kind option" where
  "fb_pixel_format fb = pixel_format_from_u32 (fb_pixel_format_raw fb)"

record memory_region =
  mr_start :: u64
  mr_pages :: u64
  mr_kind :: u32
  mr_pad :: u32

definition CONVENTIONAL :: u32 where "CONVENTIONAL = 7"

definition memory_region_new :: "u64 \<Rightarrow> u64 \<Rightarrow> u32 \<Rightarrow> memory_region" where
  "memory_region_new start pages kind =
     \<lparr>mr_start = start, mr_pages = pages, mr_kind = kind, mr_pad = 0\<rparr>"

definition is_usable :: "memory_region \<Rightarrow> bool" where
  "is_usable r \<longleftrightarrow> mr_kind r = CONVENTIONAL"

record frame_run =
  fr_start :: u64
  fr_frames :: u64

record boot_info =
  bi_magic :: u64
  bi_version :: u32
  bi_pad :: u32
  bi_framebuffer :: frame_buffer_info
  bi_memory_regions_ptr :: u64
  bi_memory_regions_len :: u64
  bi_kernel_base :: u64
  bi_kernel_size :: u64

definition boot_info_new ::
    "frame_buffer_info \<Rightarrow> u64 \<Rightarrow> u64 \<Rightarrow> u64 \<Rightarrow> u64 \<Rightarrow> boot_info" where
  "boot_info_new fb regions_ptr regions_len base span =
     \<lparr>bi_magic = BOOT_INFO_MAGIC, bi_version = BOOT_INFO_VERSION, bi_pad = 0,
      bi_framebuffer = fb, bi_memory_regions_ptr = regions_ptr,
      bi_memory_regions_len = regions_len, bi_kernel_base = base, bi_kernel_size = span\<rparr>"

definition boot_info_is_valid :: "boot_info \<Rightarrow> bool" where
  "boot_info_is_valid b \<longleftrightarrow>
     bi_magic b = BOOT_INFO_MAGIC \<and> bi_version b = BOOT_INFO_VERSION \<and>
     fb_pixel_format (bi_framebuffer b) \<noteq> None"

section \<open>The iterator over usable regions\<close>

record usable_regions =
  ur_regions :: "memory_region list"
  ur_index :: nat

definition usable_regions_new :: "memory_region list \<Rightarrow> usable_regions" where
  "usable_regions_new rs = \<lparr>ur_regions = rs, ur_index = 0\<rparr>"

text \<open>The body of the loop of \<open>next\<close>: \<open>None\<close> is \<open>continue\<close>, \<open>Some\<close> is \<open>return\<close>.\<close>

definition region_run :: "memory_region \<Rightarrow> frame_run option" where
  "region_run region =
     (if \<not> is_usable region then None
      else do {
        span \<leftarrow> checked_mul (mr_pages region) PAGE_SIZE;
        lim \<leftarrow> checked_add (mr_start region) span;
        start \<leftarrow> checked_next_multiple_of (max (mr_start region) PAGE_SIZE) PAGE_SIZE;
        let stop = lim - lim mod PAGE_SIZE;
        (if stop \<le> start then None
         else Some \<lparr>fr_start = start, fr_frames = (stop - start) div PAGE_SIZE\<rparr>)
      })"

function usable_next :: "usable_regions \<Rightarrow> frame_run option \<times> usable_regions" where
  "usable_next u =
     (if ur_index u < length (ur_regions u) then
        let region = ur_regions u ! ur_index u;
            u' = u\<lparr>ur_index := ur_index u + 1\<rparr>
        in case region_run region of
             None \<Rightarrow> usable_next u'
           | Some run \<Rightarrow> (Some run, u')
      else (None, u))"
  by pat_completeness auto
termination
  by (relation "measure (\<lambda>u. length (ur_regions u) - ur_index u)") auto

declare usable_next.simps [simp del]

section \<open>What the iterator yields\<close>

text \<open>The runs still to come, as a list.\<close>

definition runs_of :: "memory_region list \<Rightarrow> frame_run list" where
  "runs_of rs = List.map_filter region_run rs"

definition remaining :: "usable_regions \<Rightarrow> frame_run list" where
  "remaining u = runs_of (drop (ur_index u) (ur_regions u))"

lemma runs_of_Nil [simp]: "runs_of [] = []"
  by (simp add: runs_of_def List.map_filter_def)

lemma runs_of_Cons [simp]:
  "runs_of (r # rs) = (case region_run r of None \<Rightarrow> runs_of rs | Some run \<Rightarrow> run # runs_of rs)"
  by (simp add: runs_of_def List.map_filter_def split: option.splits)

lemma length_runs_of: "length (runs_of rs) \<le> length rs"
  by (induction rs) (auto split: option.splits)

lemma remaining_new [simp]: "remaining (usable_regions_new rs) = runs_of rs"
  by (simp add: remaining_def usable_regions_new_def)

lemma remaining_step:
  "ur_index u < length (ur_regions u) \<Longrightarrow>
   remaining u =
     (case region_run (ur_regions u ! ur_index u) of
        None \<Rightarrow> remaining (u\<lparr>ur_index := ur_index u + 1\<rparr>)
      | Some run \<Rightarrow> run # remaining (u\<lparr>ur_index := ur_index u + 1\<rparr>))"
  by (simp add: remaining_def flip: Cons_nth_drop_Suc split: option.splits)

lemma remaining_end: "\<not> ur_index u < length (ur_regions u) \<Longrightarrow> remaining u = []"
  by (simp add: remaining_def)

lemma usable_next_spec:
  "usable_next u = (r, u') \<Longrightarrow>
     r = (case remaining u of [] \<Rightarrow> None | run # _ \<Rightarrow> Some run) \<and>
     remaining u' = tl (remaining u) \<and> ur_regions u' = ur_regions u \<and>
     (r \<noteq> None \<longrightarrow> ur_index u < ur_index u' \<and> ur_index u' \<le> length (ur_regions u))"
proof (induction u rule: usable_next.induct)
  case (1 u)
  show ?case
  proof (cases "ur_index u < length (ur_regions u)")
    case True
    show ?thesis
    proof (cases "region_run (ur_regions u ! ur_index u)")
      case None
      with True "1.prems" have "usable_next (u\<lparr>ur_index := ur_index u + 1\<rparr>) = (r, u')"
        by (simp add: usable_next.simps [of u])
      with "1.IH" [OF True refl refl None] True None show ?thesis
        by (auto simp: remaining_step)
    next
      case (Some run)
      with True "1.prems" show ?thesis
        by (auto simp: usable_next.simps [of u] remaining_step Some)
    qed
  next
    case False
    with "1.prems" show ?thesis
      by (auto simp: usable_next.simps [of u] remaining_end)
  qed
qed

lemma usable_next_None: "remaining u = [] \<Longrightarrow> fst (usable_next u) = None"
  using usable_next_spec [of u "fst (usable_next u)" "snd (usable_next u)"] by simp

lemma usable_next_Some:
  assumes "remaining u = run # rs"
  obtains u' where "usable_next u = (Some run, u')" and "remaining u' = rs"
    and "ur_regions u' = ur_regions u" and "ur_index u < ur_index u'"
    and "ur_index u' \<le> length (ur_regions u)"
proof -
  obtain r u' where u': "usable_next u = (r, u')" by (cases "usable_next u")
  from usable_next_spec [OF u'] assms u' show ?thesis by (auto intro!: that [of u'])
qed

text \<open>Calling \<open>next\<close> until it returns \<open>None\<close>, as the adaptors \<open>map\<close> and \<open>sum\<close> do.\<close>

function collect_runs :: "usable_regions \<Rightarrow> frame_run list" where
  "collect_runs u =
     (case usable_next u of (None, _) \<Rightarrow> [] | (Some run, u') \<Rightarrow> run # collect_runs u')"
  by pat_completeness auto
termination
  by (relation "measure (\<lambda>u. length (ur_regions u) - ur_index u)") (auto dest!: usable_next_spec [OF sym])

declare collect_runs.simps [simp del]

lemma collect_runs_remaining: "collect_runs u = remaining u"
proof (induction u rule: collect_runs.induct)
  case (1 u)
  show ?case
  proof (cases "remaining u")
    case Nil
    then show ?thesis
      using usable_next_None [OF Nil]
      by (cases "usable_next u") (simp add: collect_runs.simps [of u])
  next
    case (Cons run rs)
    then obtain u' where u': "usable_next u = (Some run, u')" "remaining u' = rs"
      by (rule usable_next_Some) auto
    then show ?thesis
      using "1" [OF u'(1) [symmetric] refl] Cons by (simp add: collect_runs.simps [of u])
  qed
qed

section \<open>Frames of a run, frames of a region\<close>

definition frames_of_run :: "frame_run \<Rightarrow> nat list" where
  "frames_of_run run = map (\<lambda>i. unat (fr_start run) + 4096 * i) [0..<unat (fr_frames run)]"

text \<open>The whole, page-aligned, non-null frames inside a region.\<close>

definition whole_frames :: "memory_region \<Rightarrow> nat set" where
  "whole_frames r =
     {f. 4096 dvd f \<and> 0 < f \<and> unat (mr_start r) \<le> f \<and>
         f + 4096 \<le> unat (mr_start r) + 4096 * unat (mr_pages r)}"

definition span_overflows :: "memory_region \<Rightarrow> bool" where
  "span_overflows r \<longleftrightarrow> 2 ^ 64 \<le> unat (mr_start r) + 4096 * unat (mr_pages r)"

lemma unat_PAGE_SIZE [simp]: "unat PAGE_SIZE = 4096"
  by (simp add: PAGE_SIZE_def)

lemma PAGE_SIZE_neq_0 [simp]: "PAGE_SIZE \<noteq> 0"
  by (simp add: PAGE_SIZE_def)

text \<open>The result of \<open>region_run\<close> in natural numbers.\<close>

lemma region_run_cases:
  fixes region
  defines "s \<equiv> round_up (max (unat (mr_start region)) 4096) 4096"
    and "e \<equiv> round_down (unat (mr_start region) + 4096 * unat (mr_pages region)) 4096"
  shows "region_run region = Some run \<longleftrightarrow>
    is_usable region \<and> \<not> span_overflows region \<and> s < e \<and>
    unat (fr_start run) = s \<and> 4096 * unat (fr_frames run) = e - s"
proof -
  have max_eq: "unat (max (mr_start region) PAGE_SIZE) = max (unat (mr_start region)) 4096"
    by (simp add: max_def word_le_nat_alt)
  have stop: "unat (lim - lim mod PAGE_SIZE) = round_down (unat lim) 4096" for lim :: u64
    by (simp add: round_down_def unat_sub_le unat_mod_distrib)
  have div4096: "4096 * n = d \<longleftrightarrow> n = d div 4096" if "4096 dvd d" for n d :: nat
    using that by auto
  have dvd: "4096 dvd e - s" by (simp add: e_def s_def)
  have run_eq: "\<lparr>fr_start = x, fr_frames = y\<rparr> = run \<longleftrightarrow> fr_start run = x \<and> fr_frames run = y"
    for x y by (cases run) auto
  show ?thesis
  proof
    assume "region_run region = Some run"
    then obtain span lim start where
      ops: "checked_mul (mr_pages region) PAGE_SIZE = Some span"
        "checked_add (mr_start region) span = Some lim"
        "checked_next_multiple_of (max (mr_start region) PAGE_SIZE) PAGE_SIZE = Some start" and
      run: "is_usable region" "start < lim - lim mod PAGE_SIZE"
        "fr_start run = start" "fr_frames run = (lim - lim mod PAGE_SIZE - start) div PAGE_SIZE"
      unfolding region_run_def Let_def
      by (auto simp: run_eq not_le split: if_splits elim!: run_bindE intro: that
          simp del: checked_mul_Some_iff checked_add_Some_iff checked_next_multiple_of_Some_iff)
    from ops have span: "unat span = unat (mr_pages region) * 4096" and
      lim: "unat lim = unat (mr_start region) + unat span" and start: "unat start = s"
      by (simp_all add: max_eq s_def)
    have "unat (lim - lim mod PAGE_SIZE) = e"
      using span lim by (simp add: stop e_def mult.commute)
    moreover have "\<not> span_overflows region"
      using span lim unat_u64_bound [of lim] by (simp add: span_overflows_def)
    ultimately show "is_usable region \<and> \<not> span_overflows region \<and> s < e \<and>
        unat (fr_start run) = s \<and> 4096 * unat (fr_frames run) = e - s"
      using run start dvd by (simp add: word_less_nat_alt unat_sub_le unat_div_distrib)
  next
    assume asm: "is_usable region \<and> \<not> span_overflows region \<and> s < e \<and>
        unat (fr_start run) = s \<and> 4096 * unat (fr_frames run) = e - s"
    then have fits: "unat (mr_start region) + 4096 * unat (mr_pages region) < 2 ^ 64"
      by (simp add: span_overflows_def)
    obtain span :: u64 where span: "unat span = unat (mr_pages region) * 4096"
      using word_of_unat [where 'a = 64, of "unat (mr_pages region) * 4096"] fits by auto
    obtain lim :: u64 where lim: "unat lim = unat (mr_start region) + unat span"
      using word_of_unat [where 'a = 64, of "unat (mr_start region) + unat span"] fits span by auto
    have "unat (lim - lim mod PAGE_SIZE) = e"
      using span lim by (simp add: stop e_def mult.commute)
    moreover have "checked_next_multiple_of (max (mr_start region) PAGE_SIZE) PAGE_SIZE
        = Some (fr_start run)"
      using asm by (simp add: max_eq s_def)
    moreover have "checked_mul (mr_pages region) PAGE_SIZE = Some span"
      using span by simp
    moreover have "checked_add (mr_start region) span = Some lim"
      using lim by simp
    ultimately show "region_run region = Some run"
      using asm div4096 [OF dvd, of "unat (fr_frames run)"]
      by (simp add: region_run_def Let_def word_le_nat_alt run_eq word_unat_eq_iff unat_sub_le
          unat_div_distrib del: checked_mul_Some_iff checked_add_Some_iff
          checked_next_multiple_of_Some_iff)
  qed
qed

lemma whole_frames_bounds:
  "whole_frames r =
     {f. 4096 dvd f \<and> round_up (max (unat (mr_start r)) 4096) 4096 \<le> f \<and>
         f < round_down (unat (mr_start r) + 4096 * unat (mr_pages r)) 4096}"
    (is "_ = {f. _ \<and> ?s \<le> f \<and> f < ?e}")
proof -
  have "f \<in> whole_frames r \<longleftrightarrow> 4096 dvd f \<and> ?s \<le> f \<and> f < ?e" for f
  proof (cases "4096 dvd f")
    case True
    let ?stop = "unat (mr_start r) + 4096 * unat (mr_pages r)"
    have "0 < f \<and> unat (mr_start r) \<le> f \<longleftrightarrow> max (unat (mr_start r)) 4096 \<le> f"
      using True by (auto simp: dvd_imp_le)
    also have "\<dots> \<longleftrightarrow> ?s \<le> f"
      using True round_up_least [of 4096 f] round_up_ge [of "max (unat (mr_start r)) 4096" 4096]
      by (meson le_trans zero_less_numeral)
    finally have 1: "0 < f \<and> unat (mr_start r) \<le> f \<longleftrightarrow> ?s \<le> f" .
    have "f + 4096 \<le> ?stop \<longleftrightarrow> f + 4096 \<le> ?e"
      using True round_down_greatest [of 4096 "f + 4096" ?stop] round_down_le [of ?stop 4096]
      by (meson dvd_add dvd_refl le_trans zero_less_numeral)
    also have "\<dots> \<longleftrightarrow> f < ?e"
    proof
      assume "f < ?e"
      moreover obtain k where "f = 4096 * k" using True by (rule dvdE)
      moreover obtain j where "?e = 4096 * j" using round_down_dvd by (rule dvdE)
      ultimately show "f + 4096 \<le> ?e" by simp
    qed simp
    finally show ?thesis using True 1 by (auto simp: whole_frames_def)
  qed (simp add: whole_frames_def)
  then show ?thesis by blast
qed

lemma run_frames_interval:
  fixes s e n :: nat
  assumes "4096 dvd s" "s \<le> e" "4096 * n = e - s"
  shows "(\<lambda>i. s + 4096 * i) ` {0..<n} = {f. 4096 dvd f \<and> s \<le> f \<and> f < e}"
proof (intro set_eqI iffI)
  fix f :: nat
  assume f: "f \<in> {f. 4096 dvd f \<and> s \<le> f \<and> f < e}"
  then have "4096 dvd f - s" using assms(1) by (simp add: dvd_diff_nat)
  then obtain i where "f - s = 4096 * i" by (rule dvdE)
  then have "f = s + 4096 * i" "i < n" using f assms by auto
  then show "f \<in> (\<lambda>i. s + 4096 * i) ` {0..<n}" by auto
next
  fix f :: nat
  assume "f \<in> (\<lambda>i. s + 4096 * i) ` {0..<n}"
  then obtain i where "f = s + 4096 * i" "i < n" by auto
  then show "f \<in> {f. 4096 dvd f \<and> s \<le> f \<and> f < e}" using assms by auto
qed

lemma frames_of_run_set:
  assumes "unat (fr_start run) = s" "4096 dvd s" "s \<le> e" "4096 * unat (fr_frames run) = e - s"
  shows "set (frames_of_run run) = {f. 4096 dvd f \<and> s \<le> f \<and> f < e}"
  using run_frames_interval [OF assms(2-4)] assms(1) by (simp add: frames_of_run_def)

lemma frames_of_run_region:
  assumes "region_run region = Some run"
  shows "set (frames_of_run run) = whole_frames region"
  using assms by (simp add: region_run_cases whole_frames_bounds frames_of_run_set)

lemma region_run_None_iff:
  "region_run region = None \<longleftrightarrow>
     \<not> is_usable region \<or> span_overflows region \<or> whole_frames region = {}"
proof -
  let ?s = "round_up (max (unat (mr_start region)) 4096) 4096"
  let ?e = "round_down (unat (mr_start region) + 4096 * unat (mr_pages region)) 4096"
  have empty: "whole_frames region = {} \<longleftrightarrow> \<not> ?s < ?e"
    unfolding whole_frames_bounds using round_up_dvd [of 4096 "max (unat (mr_start region)) 4096"]
    by auto
  have "\<exists>run. region_run region = Some run"
    if asm: "is_usable region" "\<not> span_overflows region" "?s < ?e"
  proof -
    have bound: "?e < 2 ^ 64"
      using asm(2) round_down_le [of "unat (mr_start region) + 4096 * unat (mr_pages region)" 4096]
      unfolding span_overflows_def by linarith
    have "?s < 2 ^ LENGTH(64)" "(?e - ?s) div 4096 < 2 ^ LENGTH(64)"
      using bound asm(3) by simp_all
    then obtain a n :: u64 where "unat a = ?s" "unat n = (?e - ?s) div 4096"
      by (meson word_of_unat)
    moreover have "4096 dvd ?e - ?s" by simp
    ultimately have "region_run region = Some \<lparr>fr_start = a, fr_frames = n\<rparr>"
      using asm by (simp add: region_run_cases)
    then show ?thesis ..
  qed
  then show ?thesis using empty region_run_cases [of region]
    by (metis not_None_eq)
qed

lemma frames_of_run_nonempty: "region_run r = Some run \<Longrightarrow> 0 < unat (fr_frames run)"
  using region_run_cases [of r run] by (auto intro: Nat.gr0I)

lemma distinct_frames_of_run [simp]: "distinct (frames_of_run run)"
  by (simp add: frames_of_run_def distinct_map inj_on_def)

lemma length_frames_of_run [simp]: "length (frames_of_run run) = unat (fr_frames run)"
  by (simp add: frames_of_run_def)

section \<open>All the frames of a memory map\<close>

definition map_frames :: "memory_region list \<Rightarrow> nat list" where
  "map_frames rs = concat (map frames_of_run (runs_of rs))"

lemma set_map_frames:
  "set (map_frames rs) =
     (\<Union>r \<in> {r \<in> set rs. is_usable r \<and> \<not> span_overflows r}. whole_frames r)"
proof (induction rs)
  case Nil
  then show ?case by (simp add: map_frames_def)
next
  case (Cons r rs)
  show ?case
  proof (cases "region_run r")
    case None
    with Cons region_run_None_iff [of r] show ?thesis by (auto simp: map_frames_def)
  next
    case (Some run)
    with Cons region_run_None_iff [of r] frames_of_run_region [OF Some] show ?thesis
      by (auto simp: map_frames_def)
  qed
qed

lemma run_below_top:
  assumes "region_run r = Some run"
  shows "unat (fr_start run) + 4096 * unat (fr_frames run) < 2 ^ 64"
proof -
  have "unat (fr_start run) + 4096 * unat (fr_frames run) =
      round_down (unat (mr_start r) + 4096 * unat (mr_pages r)) 4096"
    using assms by (simp add: region_run_cases)
  also have "\<dots> < 2 ^ 64"
    using assms round_down_le [of "unat (mr_start r) + 4096 * unat (mr_pages r)" 4096]
    unfolding region_run_cases span_overflows_def by linarith
  finally show ?thesis .
qed

lemma frames_of_run_sorted:
  assumes "region_run r = Some run"
  shows "frames_of_run run = sorted_list_of_set (whole_frames r)"
proof -
  have "sorted (frames_of_run run)" by (simp add: frames_of_run_def sorted_iff_nth_mono)
  then show ?thesis
    using sorted_list_of_set.idem_if_sorted_distinct [of "frames_of_run run"] frames_of_run_region [OF assms]
    by simp
qed

text \<open>
  C28. The iterator yields, in the map's order, one run for each region that is \<open>CONVENTIONAL\<close>,
  whose span does not overflow 64 bits and that has a whole frame, and no other; the frames of a
  run are, in ascending order, exactly the page-aligned frames other than frame 0 that lie whole
  inside its region.
\<close>

theorem usable_regions_yields_runs:
  "list_all2 (\<lambda>run r. frames_of_run run = sorted_list_of_set (whole_frames r) \<and>
       unat (fr_start run) + 4096 * unat (fr_frames run) < 2 ^ 64)
     (collect_runs (usable_regions_new rs))
     (filter (\<lambda>r. mr_kind r = CONVENTIONAL \<and> \<not> span_overflows r \<and> whole_frames r \<noteq> {}) rs)"
proof -
  let ?P = "\<lambda>run r. frames_of_run run = sorted_list_of_set (whole_frames r) \<and>
       unat (fr_start run) + 4096 * unat (fr_frames run) < 2 ^ 64"
  have yields: "mr_kind r = CONVENTIONAL \<and> \<not> span_overflows r \<and> whole_frames r \<noteq> {} \<longleftrightarrow> region_run r \<noteq> None" for r
    using region_run_None_iff [of r] by (auto simp: is_usable_def)
  have "?P run r" if "region_run r = Some run" for run r
    using frames_of_run_sorted [OF that] run_below_top [OF that] by simp
  then have "list_all2 ?P (runs_of rs) (filter (\<lambda>r. region_run r \<noteq> None) rs)"
    by (induction rs) (auto split: option.splits)
  then show ?thesis by (simp add: collect_runs_remaining yields)
qed

text \<open>
  The run of a region holds exactly the whole, page-aligned frames inside the region other
  than frame 0; a region has no run when it is not \<open>CONVENTIONAL\<close>, when its span overflows
  64 bits, or when rounding inward leaves no frame.
\<close>

theorem region_run_exact:
  "case region_run r of
     None \<Rightarrow> \<not> (is_usable r \<and> \<not> span_overflows r \<and> whole_frames r \<noteq> {})
   | Some run \<Rightarrow> is_usable r \<and> \<not> span_overflows r \<and> set (frames_of_run run) = whole_frames r
       \<and> unat (fr_start run) + 4096 * unat (fr_frames run) < 2 ^ 64"
proof (cases "region_run r")
  case None
  then show ?thesis using region_run_None_iff [of r] by auto
next
  case (Some run)
  then show ?thesis
    using frames_of_run_region [OF Some] region_run_cases [of r run] run_below_top [OF Some] by simp
qed

text \<open>
  A structure built by \<open>BootInfo::new\<close> from a framebuffer built by
  \<open>FrameBufferInfo::new\<close> passes the kernel's \<open>is_valid\<close>, and the kernel reads back the
  pixel format it was built with.
\<close>

theorem boot_info_new_valid:
  "boot_info_is_valid (boot_info_new
     (frame_buffer_info_new addr len width height stride bpp format) ptr n base span) \<and>
   fb_pixel_format (frame_buffer_info_new addr len width height stride bpp format) = Some format"
  by (cases format) (simp_all add: boot_info_is_valid_def boot_info_new_def
      frame_buffer_info_new_def fb_pixel_format_def pixel_format_from_u32_def
      pixel_format_as_u32_def)

end
