(* ===== verification/Console_Text.thy ===== *)
theory Console_Text
  imports Boot_Info Font
begin

unbundle bit_operations_syntax

text \<open>
  The framebuffer console (kernel/src/console.rs). Video memory is a function from addresses to
  bytes, in which a \<open>u32\<close> pixel occupies four, least significant first; a \<open>usize\<close> is the natural number it holds, with overflow a panic.
\<close>

section \<open>Model\<close>

type_synonym pixels = "u64 \<Rightarrow> u8"

record console =
  co_framebuffer :: frame_buffer_info
  co_column :: nat
  co_row :: nat
  co_columns :: nat
  co_rows :: nat
  co_foreground :: u32
  co_background :: u32

definition pack :: "pixel_format_kind \<Rightarrow> u8 \<Rightarrow> u8 \<Rightarrow> u8 \<Rightarrow> u32" where
  "pack format red green blue =
     (let r = ucast red; g = ucast green; b = ucast blue in
      case format of
        Rgb \<Rightarrow> r OR push_bit 8 g OR push_bit 16 b
      | Bgr \<Rightarrow> b OR push_bit 8 g OR push_bit 16 r)"

definition console_new :: "frame_buffer_info \<Rightarrow> console option" where
  "console_new fb =
     (case fb_pixel_format fb of
        None \<Rightarrow> None
      | Some format \<Rightarrow>
          let width = unat (fb_width fb); height = unat (fb_height fb); stride = unat (fb_stride fb) in
          if fb_addr fb = 0 \<or> fb_addr fb mod 4 \<noteq> 0 \<or> fb_bytes_per_pixel fb \<noteq> 4 \<or>
            stride < width \<or> width < GLYPH_WIDTH \<or> height < GLYPH_HEIGHT
          then None
          else do {
            pixels \<leftarrow> usize_val (stride * height);
            bytes \<leftarrow> usize_val (pixels * 4);
            (if unat (fb_size fb) < bytes \<or> 2 ^ 64 \<le> unat (fb_addr fb) + bytes then None
             else Some \<lparr>co_framebuffer = fb, co_column = 0, co_row = 0,
               co_columns = width div GLYPH_WIDTH, co_rows = height div GLYPH_HEIGHT,
               co_foreground = pack format 0xE0 0xE0 0xE0, co_background = pack format 0x00 0x33 0x99\<rparr>)
          })"

definition co_stride :: "console \<Rightarrow> nat" where
  "co_stride c = unat (fb_stride (co_framebuffer c))"

definition co_width :: "console \<Rightarrow> nat" where
  "co_width c = unat (fb_width (co_framebuffer c))"

definition co_height :: "console \<Rightarrow> nat" where
  "co_height c = unat (fb_height (co_framebuffer c))"

text \<open>\<open>Console::pixel\<close>: the address of the pixel, with \<open>wrapping_add\<close> on the pointer.\<close>

definition pixel_addr :: "console \<Rightarrow> nat \<Rightarrow> nat \<Rightarrow> u64 run" where
  "pixel_addr c x y = do {
     start \<leftarrow> usize_val (y * co_stride c);
     offset \<leftarrow> usize_val (start + x);
     Some (fb_addr (co_framebuffer c) + of_nat (4 * offset))
   }"

text \<open>\<open>write_volatile\<close> of a \<open>u32\<close>.\<close>

definition store32 :: "u64 \<Rightarrow> u32 \<Rightarrow> pixels \<Rightarrow> pixels" where
  "store32 p v m =
     m(p := ucast v, p + 1 := ucast (drop_bit 8 v), p + 2 := ucast (drop_bit 16 v),
       p + 3 := ucast (drop_bit 24 v))"

definition put_pixel :: "console \<Rightarrow> nat \<Rightarrow> nat \<Rightarrow> u32 \<Rightarrow> pixels \<Rightarrow> pixels run" where
  "put_pixel c x y colour m = do {
     p \<leftarrow> pixel_addr c x y;
     Some (store32 p colour m)
   }"

definition lit :: "u8 \<Rightarrow> nat \<Rightarrow> bool" where
  "lit scanline dx \<longleftrightarrow> scanline AND drop_bit dx 0x80 \<noteq> 0"

fun draw_columns :: "console \<Rightarrow> nat \<Rightarrow> nat \<Rightarrow> u8 \<Rightarrow> nat list \<Rightarrow> pixels \<Rightarrow> pixels run" where
  "draw_columns c x0 y scanline [] m = Some m"
| "draw_columns c x0 y scanline (dx # dxs) m = do {
     let colour = (if lit scanline dx then co_foreground c else co_background c);
     x \<leftarrow> usize_val (x0 + dx);
     m' \<leftarrow> put_pixel c x y colour m;
     draw_columns c x0 y scanline dxs m'
   }"

fun draw_scanlines :: "console \<Rightarrow> nat \<Rightarrow> nat \<Rightarrow> u8 list \<Rightarrow> pixels \<Rightarrow> pixels run" where
  "draw_scanlines c x0 y [] m = Some m"
| "draw_scanlines c x0 y (scanline # rest) m = do {
     y' \<leftarrow> usize_val y;
     m' \<leftarrow> draw_columns c x0 y' scanline [0..<GLYPH_WIDTH] m;
     draw_scanlines c x0 (y + 1) rest m'
   }"

definition draw_glyph :: "console \<Rightarrow> u8 \<Rightarrow> pixels \<Rightarrow> pixels run" where
  "draw_glyph c byte m = do {
     origin_x \<leftarrow> usize_val (co_column c * GLYPH_WIDTH);
     origin_y \<leftarrow> usize_val (co_row c * GLYPH_HEIGHT);
     draw_scanlines c origin_x origin_y (glyph byte) m
   }"

text \<open>\<open>ptr::copy\<close> of \<open>n\<close> pixels from \<open>base + shift\<close> to \<open>base\<close>.\<close>

definition move_pixels :: "u64 \<Rightarrow> nat \<Rightarrow> nat \<Rightarrow> pixels \<Rightarrow> pixels" where
  "move_pixels base shift n m =
     (\<lambda>a. if unat (a - base) < 4 * n then m (a + of_nat (4 * shift)) else m a)"

text \<open>
  The safety contract of that call: source and destination are the framebuffer's own memory. A
  copy that reads or writes past the reported bytes is undefined, and has no result here either.
\<close>

definition copy_pixels :: "console \<Rightarrow> nat \<Rightarrow> nat \<Rightarrow> pixels \<Rightarrow> pixels run" where
  "copy_pixels c shift n m =
     (let fb = co_framebuffer c in
      if 4 * (shift + n) \<le> unat (fb_size fb) \<and> unat (fb_addr fb) + 4 * (shift + n) \<le> 2 ^ 64
      then Some (move_pixels (fb_addr fb) shift n m)
      else None)"

fun clear_columns :: "console \<Rightarrow> nat \<Rightarrow> nat list \<Rightarrow> pixels \<Rightarrow> pixels run" where
  "clear_columns c y [] m = Some m"
| "clear_columns c y (x # xs) m = do {
     m' \<leftarrow> put_pixel c x y (co_background c) m;
     clear_columns c y xs m'
   }"

fun clear_lines :: "console \<Rightarrow> nat list \<Rightarrow> pixels \<Rightarrow> pixels run" where
  "clear_lines c [] m = Some m"
| "clear_lines c (y # ys) m = do {
     m' \<leftarrow> clear_columns c y [0..<co_width c] m;
     clear_lines c ys m'
   }"

definition scroll :: "console \<Rightarrow> pixels \<Rightarrow> pixels run" where
  "scroll c m = do {
     shift \<leftarrow> usize_val (GLYPH_HEIGHT * co_stride c);
     pixels \<leftarrow> usize_val (co_height c * co_stride c);
     (if pixels < shift then None
      else do {
        m1 \<leftarrow> copy_pixels c shift (pixels - shift) m;
        (if co_height c < GLYPH_HEIGHT then None
         else clear_lines c [co_height c - GLYPH_HEIGHT..<co_height c] m1)
      })
   }"

definition newline :: "console \<Rightarrow> pixels \<Rightarrow> (console \<times> pixels) run" where
  "newline c m = do {
     let c1 = c\<lparr>co_column := 0\<rparr>;
     nxt \<leftarrow> usize_val (co_row c1 + 1);
     (if nxt < co_rows c1 then Some (c1\<lparr>co_row := nxt\<rparr>, m)
      else do {
        m' \<leftarrow> scroll c1 m;
        Some (c1, m')
      })
   }"

definition console_write_byte :: "u8 \<Rightarrow> console \<Rightarrow> pixels \<Rightarrow> (console \<times> pixels) run" where
  "console_write_byte byte c m =
     (if byte = 0x0a then newline c m
      else if byte = 0x0d then Some (c, m)
      else do {
        (c1, m1) \<leftarrow> (if co_columns c \<le> co_column c then newline c m else Some (c, m));
        m2 \<leftarrow> draw_glyph c1 byte m1;
        nxt \<leftarrow> usize_val (co_column c1 + 1);
        Some (c1\<lparr>co_column := nxt\<rparr>, m2)
      })"

text \<open>The public functions on the static \<open>CONSOLE\<close>.\<close>

record screen =
  sc_CONSOLE :: "console option"
  sc_pixels :: pixels

definition console_init :: "frame_buffer_info \<Rightarrow> screen \<Rightarrow> screen" where
  "console_init fb s = s\<lparr>sc_CONSOLE := console_new fb\<rparr>"

definition write_byte :: "u8 \<Rightarrow> screen \<Rightarrow> screen run" where
  "write_byte byte s =
     (case sc_CONSOLE s of
        None \<Rightarrow> Some s
      | Some c \<Rightarrow> do {
          (c', m') \<leftarrow> console_write_byte byte c (sc_pixels s);
          Some \<lparr>sc_CONSOLE = Some c', sc_pixels = m'\<rparr>
        })"

fun write_bytes_screen :: "u8 list \<Rightarrow> screen \<Rightarrow> screen run" where
  "write_bytes_screen [] s = Some s"
| "write_bytes_screen (b # bs) s = do { s' \<leftarrow> write_byte b s; write_bytes_screen bs s' }"

end
