(* ===== verification/Screen_Check.thy ===== *)
theory Screen_Check
  imports Elf_Loader Console_Text
begin

unbundle bit_operations_syntax

text \<open>
  The screen check of the test harness (xtask/src/main.rs, \<open>check_screen_has_text\<close>): it parses a PPM
  capture and compares the top left character cell with the letter the kernel prints first. An
  error message is a constructor with the values the message shows.
\<close>

definition KERNEL_SCREENSHOT_WIDTH :: nat where "KERNEL_SCREENSHOT_WIDTH = 1280"
definition KERNEL_SCREENSHOT_HEIGHT :: nat where "KERNEL_SCREENSHOT_HEIGHT = 800"
definition KERNEL_BACKGROUND :: "u8 list" where "KERNEL_BACKGROUND = [0x00, 0x33, 0x99]"
definition KERNEL_FOREGROUND :: "u8 list" where "KERNEL_FOREGROUND = [0xE0, 0xE0, 0xE0]"

definition KERNEL_SCREENSHOT_DIMENSIONS :: "u8 list" where
  "KERNEL_SCREENSHOT_DIMENSIONS = [0x31, 0x32, 0x38, 0x30, 0x20, 0x38, 0x30, 0x30]"

definition KERNEL_FIRST_GLYPH :: "u8 list" where
  "KERNEL_FIRST_GLYPH =
     [0x00, 0x00, 0x38, 0x6c, 0x64, 0x60, 0xf0, 0x60, 0x60, 0x60, 0x60, 0xf0, 0x00, 0x00, 0x00, 0x00]"

datatype screen_error =
    Not_P6
  | Wrong_Dimensions "u8 list"
  | Bad_Maxval
  | Dimensions_Overflowed
  | Payload_Size nat
  | Glyph_Missing

text \<open>\<open>splitn\<close> of a slice: at most \<open>n\<close> parts, the last one the rest, separators included.\<close>

fun splitn :: "nat \<Rightarrow> u8 \<Rightarrow> u8 list \<Rightarrow> u8 list list" where
  "splitn 0 sep xs = []"
| "splitn (Suc 0) sep xs = [xs]"
| "splitn (Suc (Suc n)) sep xs =
     (case dropWhile (\<lambda>b. b \<noteq> sep) xs of
        [] \<Rightarrow> [xs]
      | _ # rest \<Rightarrow> takeWhile (\<lambda>b. b \<noteq> sep) xs # splitn (Suc n) sep rest)"

text \<open>\<open>parts.next().unwrap_or(b"")\<close>: the part and the iterator after it.\<close>

definition next_part :: "u8 list list \<Rightarrow> u8 list \<times> u8 list list" where
  "next_part parts = (case parts of [] \<Rightarrow> ([], []) | p # ps \<Rightarrow> (p, ps))"

definition ensure :: "bool \<Rightarrow> 'e \<Rightarrow> 'e + unit" where
  "ensure ok e = (if ok then Inr () else Inl e)"

text \<open>The loops over the glyph; their indices stay far below the width of a \<open>usize\<close>.\<close>

fun check_columns :: "u8 list \<Rightarrow> nat \<Rightarrow> u8 \<Rightarrow> nat list \<Rightarrow> screen_error + unit" where
  "check_columns pixels y scanline [] = Inr ()"
| "check_columns pixels y scanline (x # xs) =
     (let offset = (y * KERNEL_SCREENSHOT_WIDTH + x) * 3;
          expected = (if scanline AND drop_bit x 0x80 \<noteq> 0 then KERNEL_FOREGROUND else KERNEL_BACKGROUND)
      in if get_slice pixels (of_nat offset) (of_nat (offset + 3)) \<noteq> Some expected then Inl Glyph_Missing
         else check_columns pixels y scanline xs)"

fun check_scanlines :: "u8 list \<Rightarrow> nat \<Rightarrow> u8 list \<Rightarrow> screen_error + unit" where
  "check_scanlines pixels y [] = Inr ()"
| "check_scanlines pixels y (scanline # rest) =
     try_with (check_columns pixels y scanline [0..<8]) (\<lambda>_. check_scanlines pixels (y + 1) rest)"

text \<open>The check on the bytes of the file.\<close>

definition check_capture :: "u8 list \<Rightarrow> screen_error + unit" where
  "check_capture data =
     (let (magic, parts) = next_part (splitn 4 0x0a data) in
      try_with (ensure (magic = [0x50, 0x36]) Not_P6) (\<lambda>_.
      let (dimensions, parts) = next_part parts in
      try_with (ensure (dimensions = KERNEL_SCREENSHOT_DIMENSIONS) (Wrong_Dimensions dimensions)) (\<lambda>_.
      let (maxval, parts) = next_part parts in
      try_with (ensure (maxval = [0x32, 0x35, 0x35]) Bad_Maxval) (\<lambda>_.
      let (pixels, parts) = next_part parts in
      try_with (ok_or (Option.bind (usize_val (KERNEL_SCREENSHOT_WIDTH * KERNEL_SCREENSHOT_HEIGHT))
          (\<lambda>n. usize_val (n * 3))) Dimensions_Overflowed) (\<lambda>expected_len.
      try_with (ensure (length pixels = expected_len) (Payload_Size (length pixels))) (\<lambda>_.
      check_scanlines pixels 0 KERNEL_FIRST_GLYPH))))))"

section \<open>What the check accepts\<close>

text \<open>The pixel at a position of a capture of the harness' width.\<close>

definition capture_pixel :: "u8 list \<Rightarrow> nat \<Rightarrow> nat \<Rightarrow> u8 list" where
  "capture_pixel pixels x y = take 3 (drop ((y * 1280 + x) * 3) pixels)"

definition expected_pixel :: "u8 \<Rightarrow> nat \<Rightarrow> u8 list" where
  "expected_pixel scanline x = (if lit scanline x then KERNEL_FOREGROUND else KERNEL_BACKGROUND)"

lemma get_slice_pixel:
  assumes "length pixels = 3072000" and "x < 8" and "y < 16"
  shows "get_slice pixels (of_nat ((y * 1280 + x) * 3)) (of_nat ((y * 1280 + x) * 3 + 3)) =
    Some (capture_pixel pixels x y)"
proof -
  let ?o = "(y * 1280 + x) * 3"
  have o: "?o + 3 \<le> 57627" using assms(2,3) by simp
  then have small: "?o < 2 ^ LENGTH(64)" "?o + 3 < 2 ^ LENGTH(64)" by simp_all
  have *: "unat (of_nat ?o :: usize) = ?o" "unat (of_nat (?o + 3) :: usize) = ?o + 3"
    unfolding unat_of_nat by (rule mod_less [OF small(1)], rule mod_less [OF small(2)])
  have "(of_nat ?o :: usize) \<le> of_nat (?o + 3)"
    unfolding word_le_nat_alt * by simp
  then show ?thesis
    using o assms(1) unfolding get_slice_def * capture_pixel_def by simp
qed

lemma check_columns_exact:
  assumes "length pixels = 3072000" and "y < 16" and "\<forall>x \<in> set xs. x < 8"
  shows "check_columns pixels y scanline xs =
    (if \<forall>x \<in> set xs. capture_pixel pixels x y = expected_pixel scanline x then Inr () else Inl Glyph_Missing)"
  using assms(3)
proof (induction xs)
  case (Cons x xs)
  have x: "x < 8" using Cons.prems by simp
  show ?case
    using Cons get_slice_pixel [OF assms(1) x assms(2)]
    by (auto simp: KERNEL_SCREENSHOT_WIDTH_def Let_def expected_pixel_def lit_def)
qed simp

lemma check_scanlines_exact:
  assumes "length pixels = 3072000" and "y + length ls \<le> 16"
  shows "check_scanlines pixels y ls =
    (if \<forall>j < length ls. \<forall>x < 8. capture_pixel pixels x (y + j) = expected_pixel (ls ! j) x
     then Inr () else Inl Glyph_Missing)"
  using assms(2)
proof (induction ls arbitrary: y)
  case (Cons l ls)
  have split: "(\<forall>j < length (l # ls). Q j) \<longleftrightarrow> Q 0 \<and> (\<forall>j < length ls. Q (Suc j))" for Q
    by (auto simp: less_Suc_eq_0_disj)
  show ?case
    unfolding split
    using Cons check_columns_exact [OF assms(1), of y "[0..<8]" l]
    by (auto simp: try_with_def)
qed simp

text \<open>A PPM file of three header lines, none of which holds a newline.\<close>

definition ppm_file :: "u8 list \<Rightarrow> u8 list \<Rightarrow> u8 list \<Rightarrow> u8 list \<Rightarrow> u8 list" where
  "ppm_file magic dimensions maxval pixels =
     magic @ [0x0a] @ dimensions @ [0x0a] @ maxval @ [0x0a] @ pixels"

lemma splitn_line: "sep \<notin> set a \<Longrightarrow> splitn (Suc (Suc n)) sep (a @ [sep] @ rest) = a # splitn (Suc n) sep rest"
proof -
  assume a: "sep \<notin> set a"
  then have "dropWhile (\<lambda>b. b \<noteq> sep) (a @ sep # rest) = sep # rest"
    "takeWhile (\<lambda>b. b \<noteq> sep) (a @ sep # rest) = a"
    by (induction a) auto
  then show ?thesis by simp
qed

lemma splitn_ppm:
  assumes "0x0a \<notin> set a" and "0x0a \<notin> set b" and "0x0a \<notin> set c"
  shows "splitn 4 0x0a (ppm_file a b c d) = [a, b, c, d]"
proof -
  have "splitn (Suc (Suc (Suc (Suc 0)))) 0x0a (ppm_file a b c d) = [a, b, c, d]"
    unfolding ppm_file_def
    using splitn_line [OF assms(1), of "Suc (Suc 0)"] splitn_line [OF assms(2), of "Suc 0"]
      splitn_line [OF assms(3), of 0] by simp
  then show ?thesis by (simp add: numeral_eq_Suc)
qed

lemma splitn_first:
  assumes "splitn (Suc (Suc n)) sep xs = a # b # ps"
  shows "\<exists>rest. xs = a @ [sep] @ rest \<and> sep \<notin> set a \<and> splitn (Suc n) sep rest = b # ps"
proof (cases "dropWhile (\<lambda>b. b \<noteq> sep) xs")
  case Nil
  then show ?thesis using assms by (simp del: dropWhile_eq_Nil_conv split: if_splits)
next
  case (Cons z rest)
  let ?line = "takeWhile (\<lambda>b. b \<noteq> sep) xs"
  have z: "z = sep" using Cons hd_dropWhile [of "\<lambda>b. b \<noteq> sep" xs] by auto
  have xs: "xs = ?line @ z # rest" using takeWhile_dropWhile_id [of "\<lambda>b. b \<noteq> sep" xs] unfolding Cons by simp
  have sep: "sep \<notin> set ?line" using set_takeWhileD [of sep] by blast
  have eqs: "?line = a" "splitn (Suc n) sep rest = b # ps" using assms Cons by simp_all
  have "xs = a @ [sep] @ rest" using xs unfolding eqs(1) z by simp
  then have "xs = a @ [sep] @ rest \<and> sep \<notin> set a \<and> splitn (Suc n) sep rest = b # ps"
    using sep eqs by (intro conjI) simp_all
  then show ?thesis by (rule exI)
qed

text \<open>The check, without the parsing: the one form of file it accepts.\<close>

definition shows_first_glyph :: "u8 list \<Rightarrow> bool" where
  "shows_first_glyph pixels \<longleftrightarrow> (\<forall>y < 16. \<forall>x < 8.
     capture_pixel pixels x y = expected_pixel (KERNEL_FIRST_GLYPH ! y) x)"

definition kernel_capture :: "u8 list \<Rightarrow> u8 list" where
  "kernel_capture = ppm_file [0x50, 0x36] KERNEL_SCREENSHOT_DIMENSIONS [0x32, 0x35, 0x35]"

lemma length_first_glyph: "length KERNEL_FIRST_GLYPH = 16"
  by (simp add: KERNEL_FIRST_GLYPH_def)

lemma check_glyph:
  "length pixels = 3072000 \<Longrightarrow>
     check_scanlines pixels 0 KERNEL_FIRST_GLYPH = (if shows_first_glyph pixels then Inr () else Inl Glyph_Missing)"
  using check_scanlines_exact [of pixels 0 KERNEL_FIRST_GLYPH]
  by (simp add: length_first_glyph shows_first_glyph_def)

lemma check_expected_len:
  "Option.bind (usize_val (KERNEL_SCREENSHOT_WIDTH * KERNEL_SCREENSHOT_HEIGHT)) (\<lambda>n. usize_val (n * 3)) = Some 3072000"
  by (simp add: usize_val_def KERNEL_SCREENSHOT_WIDTH_def KERNEL_SCREENSHOT_HEIGHT_def)

lemma check_kernel_capture:
  "check_capture (kernel_capture pixels) =
     (if length pixels \<noteq> 3072000 then Inl (Payload_Size (length pixels))
      else if shows_first_glyph pixels then Inr () else Inl Glyph_Missing)"
proof -
  have "splitn 4 0x0a (kernel_capture pixels) =
      [[0x50, 0x36], KERNEL_SCREENSHOT_DIMENSIONS, [0x32, 0x35, 0x35], pixels]"
    unfolding kernel_capture_def by (rule splitn_ppm) (simp_all add: KERNEL_SCREENSHOT_DIMENSIONS_def)
  then show ?thesis
    unfolding check_capture_def check_expected_len
    by (simp add: next_part_def ensure_def try_with_def ok_or_def check_glyph)
qed

end
