(* ===== verification/Gdt.thy ===== *)
theory Gdt
  imports Prelude
begin

unbundle bit_operations_syntax

text \<open>
  The global descriptor table and the task state segment (kernel/src/gdt.rs). The addresses the
  linker gives the statics are the parameter \<open>statics\<close>; the registers that \<open>lgdt\<close>, \<open>lidt\<close>, \<open>ltr\<close> and
  the segment loads set are fields of the record \<open>descriptor_state\<close>, next to the tables themselves.
\<close>

section \<open>Model\<close>

definition DOUBLE_FAULT_IST_INDEX :: u8 where "DOUBLE_FAULT_IST_INDEX = 0"
definition FAULT_STACK_SIZE :: usize where "FAULT_STACK_SIZE = 4096 * 4"

record task_state_segment =
  ts_reserved_1 :: u32
  ts_privilege_stack_table :: "u64 list"
  ts_reserved_2 :: u64
  ts_interrupt_stack_table :: "u64 list"
  ts_reserved_3 :: u64
  ts_reserved_4 :: u16
  ts_iomap_base :: u16

text \<open>\<open>size_of\<close>, asserted next to the type.\<close>

definition TSS_SIZE :: u64 where "TSS_SIZE = 104"

definition tss_new :: task_state_segment where
  "tss_new = \<lparr>ts_reserved_1 = 0, ts_privilege_stack_table = replicate 3 0, ts_reserved_2 = 0,
     ts_interrupt_stack_table = replicate 7 0, ts_reserved_3 = 0, ts_reserved_4 = 0,
     ts_iomap_base = ucast TSS_SIZE\<rparr>"

definition GDT_ENTRIES :: nat where "GDT_ENTRIES = 5"

record table_pointer =
  tp_limit :: u16
  tp_base :: u64

definition WRITABLE :: u64 where "WRITABLE = push_bit 41 1"
definition EXECUTABLE :: u64 where "EXECUTABLE = push_bit 43 1"
definition DESCRIPTOR_TYPE :: u64 where "DESCRIPTOR_TYPE = push_bit 44 1"
definition PRESENT :: u64 where "PRESENT = push_bit 47 1"
definition LONG_MODE :: u64 where "LONG_MODE = push_bit 53 1"
definition KERNEL_CODE_SELECTOR :: u16 where "KERNEL_CODE_SELECTOR = 1 * 8"
definition KERNEL_DATA_SELECTOR :: u16 where "KERNEL_DATA_SELECTOR = 2 * 8"
definition TSS_SELECTOR :: u16 where "TSS_SELECTOR = 3 * 8"

record statics =
  sa_FAULT_STACK :: u64
  sa_TSS :: u64
  sa_GDT :: u64
  sa_IDT :: u64

text \<open>The registers, with the tables they point at.\<close>

record descriptor_state =
  ds_GDT :: "u64 list"
  ds_TSS :: task_state_segment
  ds_gdtr :: table_pointer
  ds_idtr :: table_pointer
  ds_cs :: u16
  ds_data :: u16
  ds_tr :: u16

definition tss_low :: "u64 \<Rightarrow> u64 \<Rightarrow> u64" where
  "tss_low tss_base tss_limit =
     (tss_limit AND 0xFFFF) OR push_bit 16 (tss_base AND 0xFFFFFF) OR push_bit 40 0b1001 OR PRESENT
       OR push_bit 48 (drop_bit 16 tss_limit AND 0xF) OR push_bit 56 (drop_bit 24 tss_base AND 0xFF)"

definition gdt_init :: "statics \<Rightarrow> descriptor_state \<Rightarrow> descriptor_state run" where
  "gdt_init a s = do {
     stack_top \<leftarrow> checked_add (sa_FAULT_STACK a) FAULT_STACK_SIZE;
     let tss = (ds_TSS s)\<lparr>ts_interrupt_stack_table :=
       (ts_interrupt_stack_table (ds_TSS s))[unat DOUBLE_FAULT_IST_INDEX := stack_top]\<rparr>;
     let tss_limit = TSS_SIZE - 1;
     let gdt = (ds_GDT s)[0 := 0,
       1 := DESCRIPTOR_TYPE OR PRESENT OR EXECUTABLE OR LONG_MODE,
       2 := DESCRIPTOR_TYPE OR PRESENT OR WRITABLE,
       3 := tss_low (sa_TSS a) tss_limit,
       4 := drop_bit 32 (sa_TSS a)];
     let pointer = \<lparr>tp_limit = of_nat (GDT_ENTRIES * 8 - 1), tp_base = sa_GDT a\<rparr>;
     Some (s\<lparr>ds_GDT := gdt, ds_TSS := tss, ds_gdtr := pointer, ds_cs := KERNEL_CODE_SELECTOR,
       ds_data := KERNEL_DATA_SELECTOR, ds_tr := TSS_SELECTOR\<rparr>)
   }"

definition fault_stack_range :: "statics \<Rightarrow> (u64 \<times> u64) run" where
  "fault_stack_range a = do {
     top \<leftarrow> checked_add (sa_FAULT_STACK a) FAULT_STACK_SIZE;
     Some (sa_FAULT_STACK a, top)
   }"

section \<open>How the processor reads a descriptor\<close>

text \<open>
  The fields of a segment descriptor and of a 16-byte system descriptor, as the architecture
  defines them.
\<close>

record segment =
  sd_present :: bool
  sd_code_or_data :: bool
  sd_type :: u64
  sd_dpl :: u64
  sd_long :: bool
  sd_big :: bool

definition read_segment_descriptor :: "u64 \<Rightarrow> segment" where
  "read_segment_descriptor e =
     \<lparr>sd_present = bit e 47, sd_code_or_data = bit e 44, sd_type = take_bit 4 (drop_bit 40 e),
      sd_dpl = take_bit 2 (drop_bit 45 e), sd_long = bit e 53, sd_big = bit e 54\<rparr>"

definition system_base :: "u64 \<Rightarrow> u64 \<Rightarrow> u64" where
  "system_base low high =
     take_bit 24 (drop_bit 16 low) OR push_bit 24 (take_bit 8 (drop_bit 56 low)) OR push_bit 32 high"

definition system_limit :: "u64 \<Rightarrow> u64" where
  "system_limit low = take_bit 16 low OR push_bit 16 (take_bit 4 (drop_bit 48 low))"

lemmas descriptor_bits = WRITABLE_def EXECUTABLE_def DESCRIPTOR_TYPE_def PRESENT_def LONG_MODE_def

lemma and_masks:
  "v AND 0xFFFF = take_bit 16 (v :: u64)" "v AND 0xFFFFFF = take_bit 24 v" "v AND 0xF = take_bit 4 v"
  "v AND 0xFF = take_bit 8 v"
  by (simp_all add: take_bit_eq_mask mask_eq_exp_minus_1)

text \<open>The constant bits of the TSS descriptor: type 9 and present.\<close>

definition tss_bits :: u64 where
  "tss_bits = push_bit 40 0b1001 OR PRESENT"

lemma bit_tss_bits: "bit tss_bits n \<longleftrightarrow> n = 40 \<or> n = 43 \<or> n = 47"
proof -
  have e: "tss_bits = push_bit 40 1 OR push_bit 43 1 OR push_bit 47 1"
    by (simp add: tss_bits_def PRESENT_def)
  show ?thesis unfolding e bit_or_iff bit_push_bit_iff bit_1_iff by auto
qed

lemma tss_low_fields:
  "tss_low b l = take_bit 16 l OR push_bit 16 (take_bit 24 b) OR tss_bits
     OR push_bit 48 (take_bit 4 (drop_bit 16 l)) OR push_bit 56 (take_bit 8 (drop_bit 24 b))"
  by (simp add: tss_low_def tss_bits_def and_masks or.assoc)

lemma tss_low_reads:
  "take_bit 24 (drop_bit 16 (tss_low b l)) = take_bit 24 b"
  "take_bit 8 (drop_bit 56 (tss_low b l)) = take_bit 8 (drop_bit 24 b)"
  "take_bit 16 (tss_low b l) = take_bit 16 l"
  "take_bit 4 (drop_bit 48 (tss_low b l)) = take_bit 4 (drop_bit 16 l)"
  "take_bit 4 (drop_bit 40 (tss_low b l)) = take_bit 4 (drop_bit 40 tss_bits)"
  "take_bit 2 (drop_bit 45 (tss_low b l)) = 0"
  unfolding tss_low_fields by (rule bit_word_eqI; force simp: bit_simps bit_tss_bits)+

lemma tss_low_flags:
  "bit (tss_low b l) 47" "\<not> bit (tss_low b l) 44" "\<not> bit (tss_low b l) 53" "\<not> bit (tss_low b l) 54"
  unfolding tss_low_fields by (simp_all add: bit_simps bit_tss_bits)

lemma system_base_tss_low: "system_base (tss_low b l) (drop_bit 32 b) = b"
  unfolding system_base_def tss_low_reads
proof (rule bit_word_eqI)
  fix n assume "n < LENGTH(64)"
  then consider "n < 24" | "24 \<le> n" "n < 32" | "32 \<le> n" "n < 64" by fastforce
  then show "bit (take_bit 24 b OR push_bit 24 (take_bit 8 (drop_bit 24 b)) OR push_bit 32 (drop_bit 32 b)) n = bit b n"
    by cases (auto simp: bit_simps)
qed

lemma segment_bits:
  "read_segment_descriptor (DESCRIPTOR_TYPE OR PRESENT OR EXECUTABLE OR LONG_MODE) =
     \<lparr>sd_present = True, sd_code_or_data = True, sd_type = 8, sd_dpl = 0, sd_long = True, sd_big = False\<rparr>"
  "read_segment_descriptor (DESCRIPTOR_TYPE OR PRESENT OR WRITABLE) =
     \<lparr>sd_present = True, sd_code_or_data = True, sd_type = 2, sd_dpl = 0, sd_long = False, sd_big = False\<rparr>"
  by code_simp+

lemma segment_tss:
  "read_segment_descriptor (tss_low b l) =
     \<lparr>sd_present = True, sd_code_or_data = False, sd_type = 9, sd_dpl = 0, sd_long = False, sd_big = False\<rparr>"
proof -
  have "take_bit 4 (drop_bit 40 tss_bits) = 9" by code_simp
  then show ?thesis by (simp add: read_segment_descriptor_def tss_low_reads tss_low_flags)
qed

section \<open>Properties\<close>

text \<open>
  C34. Wherever the linker puts the statics, the tables \<open>gdt::init\<close> builds read back, as the processor
  decodes them, as what the kernel relies on: a present ring-0 long-mode code segment behind CS,
  a present ring-0 writable data segment behind the data selectors, and behind TR an available
  64-bit TSS with exactly the address and limit of the \<open>TSS\<close> static, whose first IST slot is the
  end of the fault stack; every selector lies inside the table's limit.
\<close>

theorem gdt_init_decodes:
  assumes "length (ds_GDT s) = GDT_ENTRIES" and "length (ts_interrupt_stack_table (ds_TSS s)) = 7"
    and "unat (sa_FAULT_STACK a) + 16384 < 2 ^ 64"
  shows "\<exists>s' lo hi. gdt_init a s = Some s' \<and> fault_stack_range a = Some (lo, hi) \<and>
    read_segment_descriptor (ds_GDT s' ! (unat (ds_cs s') div 8)) =
      \<lparr>sd_present = True, sd_code_or_data = True, sd_type = 8, sd_dpl = 0, sd_long = True, sd_big = False\<rparr> \<and>
    read_segment_descriptor (ds_GDT s' ! (unat (ds_data s') div 8)) =
      \<lparr>sd_present = True, sd_code_or_data = True, sd_type = 2, sd_dpl = 0, sd_long = False, sd_big = False\<rparr> \<and>
    read_segment_descriptor (ds_GDT s' ! (unat (ds_tr s') div 8)) =
      \<lparr>sd_present = True, sd_code_or_data = False, sd_type = 9, sd_dpl = 0, sd_long = False, sd_big = False\<rparr> \<and>
    system_base (ds_GDT s' ! 3) (ds_GDT s' ! 4) = sa_TSS a \<and> system_limit (ds_GDT s' ! 3) = 103 \<and>
    ts_interrupt_stack_table (ds_TSS s') ! 0 = hi \<and> unat hi = unat lo + 16384 \<and>
    ds_GDT s' ! 0 = 0 \<and> tp_base (ds_gdtr s') = sa_GDT a \<and>
    unat (ds_cs s') + 7 \<le> unat (tp_limit (ds_gdtr s')) \<and> unat (ds_data s') + 7 \<le> unat (tp_limit (ds_gdtr s')) \<and>
    unat (ds_tr s') + 15 \<le> unat (tp_limit (ds_gdtr s'))"
proof -
  obtain hi where hi: "checked_add (sa_FAULT_STACK a) FAULT_STACK_SIZE = Some hi"
    "unat hi = unat (sa_FAULT_STACK a) + 16384"
    using assms(3) by (auto simp: checked_add_def FAULT_STACK_SIZE_def unat_add_small)
  have limit: "system_limit (tss_low (sa_TSS a) (TSS_SIZE - 1)) = 103"
    unfolding system_limit_def tss_low_reads by code_simp
  obtain x0 x1 x2 x3 x4 where g: "ds_GDT s = [x0, x1, x2, x3, x4]"
    using assms(1) by (auto simp: GDT_ENTRIES_def length_Suc_conv numeral_eq_Suc)
  show ?thesis
    using assms(2) limit hi(2)
    by (simp add: gdt_init_def fault_stack_range_def hi(1) g Let_def segment_bits segment_tss
        system_base_tss_low KERNEL_CODE_SELECTOR_def KERNEL_DATA_SELECTOR_def TSS_SELECTOR_def
        GDT_ENTRIES_def DOUBLE_FAULT_IST_INDEX_def del: checked_add_Some_iff)
qed

definition demo_statics :: statics where
  "demo_statics = \<lparr>sa_FAULT_STACK = 0x204000, sa_TSS = 0x123456789abcdef0, sa_GDT = 0x208100, sa_IDT = 0x209000\<rparr>"

definition boot_descriptors :: descriptor_state where
  "boot_descriptors = \<lparr>ds_GDT = replicate 5 0, ds_TSS = tss_new, ds_gdtr = \<lparr>tp_limit = 0, tp_base = 0\<rparr>,
     ds_idtr = \<lparr>tp_limit = 0, tp_base = 0\<rparr>, ds_cs = 0x38, ds_data = 0x30, ds_tr = 0\<rparr>"

theorem gdt_init_decodes_witness:
  "\<exists>s'. gdt_init demo_statics boot_descriptors = Some s' \<and>
    system_base (ds_GDT s' ! 3) (ds_GDT s' ! 4) = 0x123456789abcdef0 \<and>
    ts_interrupt_stack_table (ds_TSS s') ! 0 = 0x208000"
proof -
  have h: "length (ds_GDT boot_descriptors) = GDT_ENTRIES"
    "length (ts_interrupt_stack_table (ds_TSS boot_descriptors)) = 7"
    "unat (sa_FAULT_STACK demo_statics) + 16384 < 2 ^ 64"
    by (simp_all add: boot_descriptors_def GDT_ENTRIES_def tss_new_def demo_statics_def)
  have "fault_stack_range demo_statics = Some (0x204000, 0x208000)" by code_simp
  then show ?thesis
    using gdt_init_decodes [OF h] by (auto simp: demo_statics_def)
qed

end
