(* ===== verification/Ports.thy ===== *)
theory Ports
  imports Prelude
begin

text \<open>
  Port I/O (kernel/src/port.rs) and the exit device (kernel/src/qemu_exit.rs).

  The devices behind the ports are not in this repository. They are the parameter \<open>p\<close> of every
  driver: functions that answer a read or a write of a port on a device state \<open>'d\<close>. What a driver
  relies on a chip doing is a hypothesis of its theorems, stated on a projection of \<open>'d\<close>.
\<close>

record 'd ports =
  port_in :: "u16 \<Rightarrow> 'd \<Rightarrow> u8 \<times> 'd"
  port_out :: "u16 \<Rightarrow> u8 \<Rightarrow> 'd \<Rightarrow> 'd"
  port_out32 :: "u16 \<Rightarrow> u32 \<Rightarrow> 'd \<Rightarrow> 'd"

definition outb :: "'d ports \<Rightarrow> u16 \<Rightarrow> u8 \<Rightarrow> 'd \<Rightarrow> 'd" where
  "outb p port v d = port_out p port v d"

definition inb :: "'d ports \<Rightarrow> u16 \<Rightarrow> 'd \<Rightarrow> u8 \<times> 'd" where
  "inb p port d = port_in p port d"

definition io_wait :: "'d ports \<Rightarrow> 'd \<Rightarrow> 'd" where
  "io_wait p d = outb p 0x80 0 d"

section \<open>The exit device\<close>

definition ISA_DEBUG_EXIT_PORT :: u16 where "ISA_DEBUG_EXIT_PORT = 0xf4"

datatype exit_code = Success | Failed

definition exit_value :: "exit_code \<Rightarrow> u32" where
  "exit_value c = (case c of Success \<Rightarrow> 0x10 | Failed \<Rightarrow> 0x11)"

text \<open>\<open>exit\<close>: the write; the processor halts after it.\<close>

definition exit_write :: "'d ports \<Rightarrow> exit_code \<Rightarrow> 'd \<Rightarrow> 'd" where
  "exit_write p code d = port_out32 p ISA_DEBUG_EXIT_PORT (exit_value code) d"

section \<open>Devices that keep to their ports\<close>

text \<open>
  A projection \<open>view\<close> of the device state that a write to a port outside \<open>ports\<close> leaves alone: the
  chip decodes only its own ports.
\<close>

definition decodes_only :: "'d ports \<Rightarrow> ('d \<Rightarrow> 'c) \<Rightarrow> u16 set \<Rightarrow> bool" where
  "decodes_only p view own \<longleftrightarrow> (\<forall>port v d. port \<notin> own \<longrightarrow> view (port_out p port v d) = view d)"

lemma decodes_outb: "decodes_only p view own \<Longrightarrow> port \<notin> own \<Longrightarrow> view (outb p port v d) = view d"
  by (simp add: decodes_only_def outb_def)

lemma decodes_io_wait: "decodes_only p view own \<Longrightarrow> 0x80 \<notin> own \<Longrightarrow> view (io_wait p d) = view d"
  by (simp add: io_wait_def decodes_outb)

end
