(* ===== verification/Pic.thy ===== *)
theory Pic
  imports Ports
begin

unbundle bit_operations_syntax

text \<open>
  The pair of 8259 interrupt controllers (kernel/src/pic.rs), and the part of the 8259's documented
  protocol the driver relies on: the ICW1-ICW4 initialisation sequence, the mask register and the
  non-specific end of interrupt. The lemmas show what state the driver leaves both chips in,
  whatever state the firmware left them in.
\<close>

section \<open>Model\<close>

definition PIC1_COMMAND :: u16 where "PIC1_COMMAND = 0x20"
definition PIC1_DATA :: u16 where "PIC1_DATA = 0x21"
definition PIC2_COMMAND :: u16 where "PIC2_COMMAND = 0xA0"
definition PIC2_DATA :: u16 where "PIC2_DATA = 0xA1"
definition ICW1_INIT :: u8 where "ICW1_INIT = 0x10"
definition ICW1_ICW4 :: u8 where "ICW1_ICW4 = 0x01"
definition ICW4_8086 :: u8 where "ICW4_8086 = 0x01"
definition EOI :: u8 where "EOI = 0x20"
definition PIC1_OFFSET :: u8 where "PIC1_OFFSET = 32"
definition PIC2_OFFSET :: u8 where "PIC2_OFFSET = PIC1_OFFSET + 8"
definition TIMER_VECTOR :: u8 where "TIMER_VECTOR = PIC1_OFFSET"
definition KEYBOARD_VECTOR :: u8 where "KEYBOARD_VECTOR = PIC1_OFFSET + 1"

definition pic_init :: "'d ports \<Rightarrow> 'd \<Rightarrow> 'd" where
  "pic_init p d =
     (let d = io_wait p (outb p PIC1_COMMAND (ICW1_INIT OR ICW1_ICW4) d);
          d = io_wait p (outb p PIC2_COMMAND (ICW1_INIT OR ICW1_ICW4) d);
          d = io_wait p (outb p PIC1_DATA PIC1_OFFSET d);
          d = io_wait p (outb p PIC2_DATA PIC2_OFFSET d);
          d = io_wait p (outb p PIC1_DATA (push_bit 2 1) d);
          d = io_wait p (outb p PIC2_DATA 2 d);
          d = io_wait p (outb p PIC1_DATA ICW4_8086 d);
          d = io_wait p (outb p PIC2_DATA ICW4_8086 d);
          d = outb p PIC1_DATA 0xFC d
      in outb p PIC2_DATA 0xFF d)"

definition end_of_interrupt :: "'d ports \<Rightarrow> u8 \<Rightarrow> 'd \<Rightarrow> 'd" where
  "end_of_interrupt p vector d =
     (let d = (if PIC2_OFFSET \<le> vector then outb p PIC2_COMMAND EOI d else d)
      in outb p PIC1_COMMAND EOI d)"

section \<open>The chip\<close>

text \<open>
  The 8259 as its data sheet describes it. \<open>pc_expect\<close> is the initialisation word the next write to
  the data port is taken as, 0 when the chip is operating; \<open>pc_isr\<close> holds the interrupts in
  service, of which a non-specific EOI retires the one of highest priority, the lowest set bit.
\<close>

record pic_chip =
  pc_expect :: nat
  pc_icw4 :: bool
  pc_base :: u8
  pc_cascade :: u8
  pc_mode :: u8
  pc_mask :: u8
  pc_isr :: u8

definition pic_command :: "u8 \<Rightarrow> pic_chip \<Rightarrow> pic_chip" where
  "pic_command v c =
     (if v AND 0x10 \<noteq> 0 then
        c\<lparr>pc_expect := 2, pc_icw4 := (v AND 1 \<noteq> 0), pc_mode := 0, pc_mask := 0, pc_isr := 0\<rparr>
      else if v = 0x20 then c\<lparr>pc_isr := pc_isr c AND (pc_isr c - 1)\<rparr>
      else c)"

definition pic_data :: "u8 \<Rightarrow> pic_chip \<Rightarrow> pic_chip" where
  "pic_data v c =
     (if pc_expect c = 2 then c\<lparr>pc_expect := 3, pc_base := v AND 0xF8\<rparr>
      else if pc_expect c = 3 then c\<lparr>pc_expect := (if pc_icw4 c then 4 else 0), pc_cascade := v\<rparr>
      else if pc_expect c = 4 then c\<lparr>pc_expect := 0, pc_mode := v\<rparr>
      else c\<lparr>pc_mask := v\<rparr>)"

text \<open>The chip that \<open>view\<close> reads off the device state answers at the command port \<open>port\<close> and the next.\<close>

definition is_8259 :: "'d ports \<Rightarrow> ('d \<Rightarrow> pic_chip) \<Rightarrow> u16 \<Rightarrow> bool" where
  "is_8259 p view port \<longleftrightarrow>
     (\<forall>v d. view (port_out p port v d) = pic_command v (view d)) \<and>
     (\<forall>v d. view (port_out p (port + 1) v d) = pic_data v (view d)) \<and>
     decodes_only p view {port, port + 1}"

lemma is_8259_outb:
  assumes "is_8259 p view port"
  shows "view (outb p q v d) =
    (if q = port then pic_command v (view d) else if q = port + 1 then pic_data v (view d) else view d)"
  using assms by (auto simp: is_8259_def outb_def decodes_only_def)

lemma is_8259_io_wait:
  "is_8259 p view port \<Longrightarrow> 0x80 \<noteq> port \<Longrightarrow> 0x80 \<noteq> port + 1 \<Longrightarrow> view (io_wait p d) = view d"
  by (simp add: io_wait_def is_8259_outb)

lemmas pic_ports = PIC1_COMMAND_def PIC1_DATA_def PIC2_COMMAND_def PIC2_DATA_def
lemmas pic_words = ICW1_INIT_def ICW1_ICW4_def ICW4_8086_def EOI_def PIC1_OFFSET_def PIC2_OFFSET_def
  TIMER_VECTOR_def KEYBOARD_VECTOR_def

lemma pic_init_state:
  assumes "is_8259 p master 0x20" and "is_8259 p slave 0xA0"
  shows "master (pic_init p d) = \<lparr>pc_expect = 0, pc_icw4 = True, pc_base = 32, pc_cascade = 4,
      pc_mode = 1, pc_mask = 0xFC, pc_isr = 0\<rparr>"
    and "slave (pic_init p d) = \<lparr>pc_expect = 0, pc_icw4 = True, pc_base = 40, pc_cascade = 2,
      pc_mode = 1, pc_mask = 0xFF, pc_isr = 0\<rparr>"
  by (simp_all add: pic_init_def Let_def is_8259_outb [OF assms(1)] is_8259_outb [OF assms(2)]
      is_8259_io_wait [OF assms(1)] is_8259_io_wait [OF assms(2)] pic_ports pic_words
      pic_command_def pic_data_def)

section \<open>Properties\<close>

text \<open>
  C39. \<open>pic::init\<close> brings both controllers, from whatever state they were left in, into operation:
  initialisation complete, 8086 mode, IRQ 0-7 at vectors 32-39 and IRQ 8-15 at 40-47, the
  cascade wired on line 2, nothing in service, and every line masked except the timer and the
  keyboard.
\<close>

theorem pic_init_remaps:
  assumes "is_8259 p master 0x20" and "is_8259 p slave 0xA0"
  shows "master (pic_init p d) = \<lparr>pc_expect = 0, pc_icw4 = True, pc_base = 32, pc_cascade = 4,
      pc_mode = 1, pc_mask = 0xFC, pc_isr = 0\<rparr> \<and>
    slave (pic_init p d) = \<lparr>pc_expect = 0, pc_icw4 = True, pc_base = 40, pc_cascade = 2,
      pc_mode = 1, pc_mask = 0xFF, pc_isr = 0\<rparr>"
  using pic_init_state [OF assms] by simp

definition demo_pics :: "(pic_chip \<times> pic_chip) ports" where
  "demo_pics = \<lparr>port_in = (\<lambda>_ d. (0, d)),
     port_out = (\<lambda>port v (m, s).
       if port = 0x20 then (pic_command v m, s) else if port = 0x21 then (pic_data v m, s)
       else if port = 0xA0 then (m, pic_command v s) else if port = 0xA1 then (m, pic_data v s)
       else (m, s)),
     port_out32 = (\<lambda>_ _ d. d)\<rparr>"

lemma demo_pics_ok: "is_8259 demo_pics fst 0x20" "is_8259 demo_pics snd 0xA0"
  by (auto simp: is_8259_def decodes_only_def demo_pics_def split_beta)

definition pic_junk :: pic_chip where
  "pic_junk = \<lparr>pc_expect = 3, pc_icw4 = False, pc_base = 8, pc_cascade = 9, pc_mode = 7,
     pc_mask = 0xB8, pc_isr = 0x50\<rparr>"

theorem pic_init_remaps_witness:
  "fst (pic_init demo_pics (pic_junk, pic_junk)) = \<lparr>pc_expect = 0, pc_icw4 = True, pc_base = 32,
      pc_cascade = 4, pc_mode = 1, pc_mask = 0xFC, pc_isr = 0\<rparr> \<and>
    snd (pic_init demo_pics (pic_junk, pic_junk)) = \<lparr>pc_expect = 0, pc_icw4 = True, pc_base = 40,
      pc_cascade = 2, pc_mode = 1, pc_mask = 0xFF, pc_isr = 0\<rparr>"
  by (rule pic_init_remaps [OF demo_pics_ok])

text \<open>
  \<open>end_of_interrupt\<close> acknowledges what its vector names: an interrupt of the slave is retired
  on both chips, one of the master on the master alone, and nothing else changes on either.
\<close>

theorem end_of_interrupt_acknowledges:
  assumes "is_8259 p master 0x20" and "is_8259 p slave 0xA0"
  shows "master (end_of_interrupt p vector d) =
      (master d)\<lparr>pc_isr := pc_isr (master d) AND (pc_isr (master d) - 1)\<rparr> \<and>
    slave (end_of_interrupt p vector d) =
      (if vector < 40 then slave d
       else (slave d)\<lparr>pc_isr := pc_isr (slave d) AND (pc_isr (slave d) - 1)\<rparr>)"
  by (simp add: end_of_interrupt_def Let_def is_8259_outb [OF assms(1)] is_8259_outb [OF assms(2)]
      pic_ports pic_words pic_command_def not_less)

theorem end_of_interrupt_acknowledges_witness:
  "fst (end_of_interrupt demo_pics 45 (pic_junk, pic_junk)) = pic_junk\<lparr>pc_isr := 0x40\<rparr> \<and>
    snd (end_of_interrupt demo_pics 33 (pic_junk, pic_junk)) = pic_junk"
  using end_of_interrupt_acknowledges [OF demo_pics_ok, of 45 "(pic_junk, pic_junk)"]
    end_of_interrupt_acknowledges [OF demo_pics_ok, of 33 "(pic_junk, pic_junk)"]
  by (simp add: pic_junk_def)

end
