(* ===== verification/Idt.thy ===== *)
theory Idt
  imports Gdt Pic
begin

unbundle bit_operations_syntax

text \<open>
  The interrupt descriptor table (kernel/src/idt.rs): gate descriptors, and the table \<open>init\<close>
  installs. The addresses of the handlers are the linker's, so they are the parameter \<open>handlers\<close>.
\<close>

section \<open>Model\<close>

record idt_entry =
  ie_offset_low :: u16
  ie_selector :: u16
  ie_ist :: u8
  ie_type_attributes :: u8
  ie_offset_middle :: u16
  ie_offset_high :: u32
  ie_reserved :: u32

definition INTERRUPT_GATE :: u8 where "INTERRUPT_GATE = 0x8E"

definition entry_missing :: idt_entry where
  "entry_missing = \<lparr>ie_offset_low = 0, ie_selector = 0, ie_ist = 0, ie_type_attributes = 0,
     ie_offset_middle = 0, ie_offset_high = 0, ie_reserved = 0\<rparr>"

text \<open>\<open>Entry::set\<close>; the assertion on the IST index is the panic.\<close>

definition entry_set :: "u64 \<Rightarrow> u8 option \<Rightarrow> idt_entry \<Rightarrow> idt_entry run" where
  "entry_set handler ist_index e = do {
     ist \<leftarrow> (case ist_index of
       Some index \<Rightarrow> if index < 7 then Some ((index + 1) AND 0b111) else None
     | None \<Rightarrow> Some 0);
     Some (e\<lparr>ie_offset_low := ucast handler, ie_offset_middle := ucast (drop_bit 16 handler),
       ie_offset_high := ucast (drop_bit 32 handler), ie_selector := KERNEL_CODE_SELECTOR,
       ie_ist := ist, ie_type_attributes := INTERRUPT_GATE, ie_reserved := 0\<rparr>)
   }"

definition idt_new :: "idt_entry list" where
  "idt_new = replicate 256 entry_missing"

definition IDT_SIZE :: nat where "IDT_SIZE = 4096"

definition set_gate :: "u8 \<Rightarrow> u64 \<Rightarrow> u8 option \<Rightarrow> idt_entry list \<Rightarrow> idt_entry list run" where
  "set_gate vector handler ist idt =
     (if unat vector < length idt then do {
        e \<leftarrow> entry_set handler ist (idt ! unat vector);
        Some (idt[unat vector := e])
      } else None)"

definition set_handler :: "u8 \<Rightarrow> u64 \<Rightarrow> idt_entry list \<Rightarrow> idt_entry list run" where
  "set_handler vector handler = set_gate vector handler None"

definition set_handler_with_ist :: "u8 \<Rightarrow> u64 \<Rightarrow> u8 \<Rightarrow> idt_entry list \<Rightarrow> idt_entry list run" where
  "set_handler_with_ist vector handler ist = set_gate vector handler (Some ist)"

text \<open>The loop over an inclusive range of vectors.\<close>

fun set_handlers :: "u8 list \<Rightarrow> u64 \<Rightarrow> idt_entry list \<Rightarrow> idt_entry list run" where
  "set_handlers [] handler idt = Some idt"
| "set_handlers (v # vs) handler idt = do {
     idt \<leftarrow> set_handler v handler idt;
     set_handlers vs handler idt
   }"

record handlers =
  ha_unhandled_irq :: u64
  ha_divide_error :: u64
  ha_breakpoint :: u64
  ha_invalid_opcode :: u64
  ha_general_protection :: u64
  ha_page_fault :: u64
  ha_double_fault :: u64
  ha_timer :: u64
  ha_keyboard :: u64

definition idt_load :: "statics \<Rightarrow> descriptor_state \<Rightarrow> descriptor_state" where
  "idt_load a s = s\<lparr>ds_idtr := \<lparr>tp_limit = of_nat (IDT_SIZE - 1), tp_base = sa_IDT a\<rparr>\<rparr>"

definition idt_init ::
    "handlers \<Rightarrow> statics \<Rightarrow> idt_entry list \<times> descriptor_state \<Rightarrow> (idt_entry list \<times> descriptor_state) run" where
  "idt_init h a = (\<lambda>(idt, s). do {
     last \<leftarrow> checked_add PIC2_OFFSET 7;
     idt \<leftarrow> set_handlers (map of_nat [unat PIC1_OFFSET..<Suc (unat last)]) (ha_unhandled_irq h) idt;
     idt \<leftarrow> set_handler 0 (ha_divide_error h) idt;
     idt \<leftarrow> set_handler 3 (ha_breakpoint h) idt;
     idt \<leftarrow> set_handler 6 (ha_invalid_opcode h) idt;
     idt \<leftarrow> set_handler 13 (ha_general_protection h) idt;
     idt \<leftarrow> set_handler 14 (ha_page_fault h) idt;
     idt \<leftarrow> set_handler_with_ist 8 (ha_double_fault h) DOUBLE_FAULT_IST_INDEX idt;
     idt \<leftarrow> set_handler TIMER_VECTOR (ha_timer h) idt;
     idt \<leftarrow> set_handler KEYBOARD_VECTOR (ha_keyboard h) idt;
     Some (idt, idt_load a s)
   })"

section \<open>How the processor reads a gate\<close>

text \<open>
  A gate as the architecture defines it: the target, the selector, the IST slot (1 to 7, or none),
  and the attributes. An absent gate has no meaning.
\<close>

record gate =
  gt_target :: u64
  gt_selector :: u16
  gt_ist :: "nat option"
  gt_interrupt :: bool
  gt_dpl :: u8

definition read_gate :: "idt_entry \<Rightarrow> gate option" where
  "read_gate e =
     (if bit (ie_type_attributes e) 7 then
        Some \<lparr>gt_target = ucast (ie_offset_low e) OR push_bit 16 (ucast (ie_offset_middle e))
            OR push_bit 32 (ucast (ie_offset_high e)),
          gt_selector = ie_selector e,
          gt_ist = (let i = unat (ie_ist e AND 0b111) in if i = 0 then None else Some (i - 1)),
          gt_interrupt = (ie_type_attributes e AND 0xF = 0xE),
          gt_dpl = drop_bit 5 (ie_type_attributes e) AND 3\<rparr>
      else None)"

text \<open>What the kernel wants a vector to do: interrupt gates of ring 0 on the kernel's code segment.\<close>

definition wanted_gate :: "u64 \<Rightarrow> nat option \<Rightarrow> gate" where
  "wanted_gate handler ist =
     \<lparr>gt_target = handler, gt_selector = KERNEL_CODE_SELECTOR, gt_ist = ist, gt_interrupt = True, gt_dpl = 0\<rparr>"

lemma target_reads:
  "ucast (ucast h :: u16) OR push_bit 16 (ucast (ucast (drop_bit 16 h) :: u16))
     OR push_bit 32 (ucast (ucast (drop_bit 32 h) :: u32)) = (h :: u64)" (is "?l = h")
proof (rule bit_word_eqI)
  fix n assume "n < LENGTH(64)"
  then consider "n < 16" | "16 \<le> n" "n < 32" | "32 \<le> n" "n < 64" by fastforce
  then show "bit ?l n = bit h n" by cases (auto simp: bit_simps)
qed

lemma entry_set_None: "entry_set h None e = Some e' \<Longrightarrow> read_gate e' = Some (wanted_gate h None)"
  by (auto simp: entry_set_def read_gate_def wanted_gate_def target_reads INTERRUPT_GATE_def)

lemma entry_set_Some:
  assumes "entry_set h (Some i) e = Some e'"
  shows "read_gate e' = Some (wanted_gate h (Some (unat i)))"
proof -
  have i: "unat i < 7" using assms by (simp add: entry_set_def word_less_nat_alt split: if_splits)
  have "unat (i + 1) = unat i + 1" using i by (simp add: unat_add_small)
  moreover have "i + 1 AND 0b111 = take_bit 3 (i + 1)" by (simp add: take_bit_eq_mask mask_eq_exp_minus_1)
  moreover have "take_bit 3 (unat i + 1) = unat i + 1" using i by (simp add: take_bit_nat_eq_self)
  ultimately have "unat ((i + 1) AND 0b111) = unat i + 1" by (simp add: unsigned_take_bit_eq)
  then show ?thesis using assms
    by (auto simp: entry_set_def read_gate_def wanted_gate_def target_reads INTERRUPT_GATE_def
        Let_def and.assoc split: if_splits)
qed

lemma set_gate_spec:
  assumes "length idt = 256" and "\<forall>i. ist = Some i \<longrightarrow> i < 7"
  shows "\<exists>e. set_gate v h ist idt = Some (idt[unat v := e]) \<and>
    read_gate e = Some (wanted_gate h (map_option unat ist))"
proof -
  have v: "unat v < 256" using unat_bound [of v] by simp
  obtain e where e: "entry_set h ist (idt ! unat v) = Some e"
    using assms(2) by (cases ist) (auto simp: entry_set_def)
  then have "read_gate e = Some (wanted_gate h (map_option unat ist))"
    by (cases ist) (auto dest: entry_set_None entry_set_Some)
  then show ?thesis using e v assms(1) by (intro exI [of _ e]) (simp add: set_gate_def)
qed

text \<open>The table as a function from vectors to gates, and what setting one does to it.\<close>

definition gates :: "idt_entry list \<Rightarrow> u8 \<Rightarrow> gate option" where
  "gates idt v = read_gate (idt ! unat v)"

lemma set_gate_gates:
  assumes "length idt = 256" and "\<forall>i. ist = Some i \<longrightarrow> i < 7"
  shows "\<exists>idt'. set_gate v h ist idt = Some idt' \<and> length idt' = 256 \<and>
    gates idt' = (gates idt)(v \<mapsto> wanted_gate h (map_option unat ist))"
proof -
  obtain e where e: "set_gate v h ist idt = Some (idt[unat v := e])"
    "read_gate e = Some (wanted_gate h (map_option unat ist))"
    using set_gate_spec [OF assms] by blast
  have "gates (idt[unat v := e]) = (gates idt)(v \<mapsto> wanted_gate h (map_option unat ist))"
    using e(2) assms(1) unat_bound [of v]
    by (auto simp: gates_def fun_eq_iff nth_list_update word_unat_eq_iff)
  then show ?thesis using e(1) assms(1) by simp
qed

lemmas set_handler_gates =
  set_gate_gates [where ist = None, simplified, folded set_handler_def]

lemma set_handlers_gates:
  "length idt = 256 \<Longrightarrow> \<exists>idt'. set_handlers vs h idt = Some idt' \<and> length idt' = 256 \<and>
    gates idt' = (\<lambda>v. if v \<in> set vs then Some (wanted_gate h None) else gates idt v)"
proof (induction vs arbitrary: idt)
  case (Cons v vs)
  obtain idt1 where 1: "set_handler v h idt = Some idt1" "length idt1 = 256"
    "gates idt1 = (gates idt)(v \<mapsto> wanted_gate h None)"
    using set_handler_gates [OF Cons.prems] by blast
  obtain idt' where "set_handlers vs h idt1 = Some idt'" "length idt' = 256"
    "gates idt' = (\<lambda>v. if v \<in> set vs then Some (wanted_gate h None) else gates idt1 v)"
    using Cons.IH [OF 1(2)] by blast
  then show ?case using 1 by (auto simp: fun_eq_iff)
qed simp

section \<open>Properties\<close>

text \<open>
  C35. Gate round trip: for every handler address and IST choice, \<open>Entry::set\<close> panics exactly for an IST
  index of 7 or more, and otherwise the processor reads back from the entry, whatever it held before,
  a present ring-0 interrupt gate on the kernel's code selector with exactly that address and
  that stack.
\<close>

theorem entry_set_roundtrip:
  "(entry_set h ist e = None \<longleftrightarrow> (\<exists>i. ist = Some i \<and> 7 \<le> i)) \<and>
   (\<forall>e'. entry_set h ist e = Some e' \<longrightarrow> read_gate e' = Some (wanted_gate h (map_option unat ist)))"
proof -
  have "entry_set h ist e = None \<longleftrightarrow> (\<exists>i. ist = Some i \<and> 7 \<le> i)"
    by (cases ist) (auto simp: entry_set_def not_less)
  then show ?thesis by (cases ist) (auto dest: entry_set_None entry_set_Some)
qed

theorem entry_set_roundtrip_witness:
  "\<exists>e'. entry_set 0xfedcba9876543210 (Some 6) entry_missing = Some e' \<and>
    read_gate e' = Some (wanted_gate 0xfedcba9876543210 (Some 6))"
  using entry_set_roundtrip [of "0xfedcba9876543210" "Some 6" entry_missing]
  by (auto simp: not_less [symmetric])

text \<open>The handlers the kernel wants behind the vectors.\<close>

definition vector_table :: "handlers \<Rightarrow> u8 \<Rightarrow> gate option" where
  "vector_table h v =
     (if v = 0 then Some (wanted_gate (ha_divide_error h) None)
      else if v = 3 then Some (wanted_gate (ha_breakpoint h) None)
      else if v = 6 then Some (wanted_gate (ha_invalid_opcode h) None)
      else if v = 8 then Some (wanted_gate (ha_double_fault h) (Some 0))
      else if v = 13 then Some (wanted_gate (ha_general_protection h) None)
      else if v = 14 then Some (wanted_gate (ha_page_fault h) None)
      else if v = 32 then Some (wanted_gate (ha_timer h) None)
      else if v = 33 then Some (wanted_gate (ha_keyboard h) None)
      else if 34 \<le> v \<and> v < 48 then Some (wanted_gate (ha_unhandled_irq h) None)
      else None)"

lemma gates_new [simp]: "gates idt_new = Map.empty"
proof -
  have "gates idt_new v = None" for v
    using unat_bound [of v] by (simp add: gates_def idt_new_def read_gate_def entry_missing_def)
  then show ?thesis by auto
qed

lemma irq_vectors: "v \<in> set (map of_nat [unat PIC1_OFFSET..<Suc (unat (47 :: u8))]) \<longleftrightarrow> 32 \<le> v \<and> v < (48 :: u8)"
proof -
  have "v \<in> of_nat ` {32..<48} \<longleftrightarrow> unat v \<in> {32..<48}"
  proof
    assume "v \<in> of_nat ` {32..<48}"
    then obtain n where "v = of_nat n" "32 \<le> n" "n < 48" by auto
    then show "unat v \<in> {32..<48}" by (simp add: unat_of_nat)
  next
    assume "unat v \<in> {32..<48}"
    moreover have "v = of_nat (unat v)" by simp
    ultimately show "v \<in> of_nat ` {32..<48}" by blast
  qed
  moreover have "unat v \<in> {32..<48} \<longleftrightarrow> 32 \<le> v \<and> v < 48" by (simp add: word_le_nat_alt word_less_nat_alt)
  moreover have u: "unat PIC1_OFFSET = 32" "Suc (unat (47 :: u8)) = 48" by (simp_all add: PIC1_OFFSET_def)
  ultimately show ?thesis unfolding set_map set_upt u by (simp only:)
qed

lemma idt_init_gates_lemma:
  "\<exists>idt. idt_init h a (idt_new, s) = Some (idt, idt_load a s) \<and> length idt = 256 \<and> gates idt = vector_table h"
proof -
  have len: "length idt_new = 256" by (simp add: idt_new_def)
  have last: "checked_add PIC2_OFFSET 7 = Some 47" by code_simp
  let ?irqs = "map of_nat [unat PIC1_OFFSET..<Suc (unat (47 :: u8))] :: u8 list"
  obtain i0 where 0: "set_handlers ?irqs (ha_unhandled_irq h) idt_new = Some i0" "length i0 = 256"
    "gates i0 = (\<lambda>v. if v \<in> set ?irqs then Some (wanted_gate (ha_unhandled_irq h) None) else gates idt_new v)"
    using set_handlers_gates [OF len] by blast
  obtain i1 where 1: "set_handler 0 (ha_divide_error h) i0 = Some i1" "length i1 = 256"
    "gates i1 = (gates i0)(0 \<mapsto> wanted_gate (ha_divide_error h) None)"
    using set_handler_gates [OF 0(2)] by blast
  obtain i2 where 2: "set_handler 3 (ha_breakpoint h) i1 = Some i2" "length i2 = 256"
    "gates i2 = (gates i1)(3 \<mapsto> wanted_gate (ha_breakpoint h) None)"
    using set_handler_gates [OF 1(2)] by blast
  obtain i3 where 3: "set_handler 6 (ha_invalid_opcode h) i2 = Some i3" "length i3 = 256"
    "gates i3 = (gates i2)(6 \<mapsto> wanted_gate (ha_invalid_opcode h) None)"
    using set_handler_gates [OF 2(2)] by blast
  obtain i4 where 4: "set_handler 13 (ha_general_protection h) i3 = Some i4" "length i4 = 256"
    "gates i4 = (gates i3)(13 \<mapsto> wanted_gate (ha_general_protection h) None)"
    using set_handler_gates [OF 3(2)] by blast
  obtain i5 where 5: "set_handler 14 (ha_page_fault h) i4 = Some i5" "length i5 = 256"
    "gates i5 = (gates i4)(14 \<mapsto> wanted_gate (ha_page_fault h) None)"
    using set_handler_gates [OF 4(2)] by blast
  obtain i6 where 6: "set_handler_with_ist 8 (ha_double_fault h) DOUBLE_FAULT_IST_INDEX i5 = Some i6"
    "length i6 = 256" "gates i6 = (gates i5)(8 \<mapsto> wanted_gate (ha_double_fault h) (Some 0))"
    using set_gate_gates [OF 5(2), of "Some DOUBLE_FAULT_IST_INDEX" 8 "ha_double_fault h"]
    by (auto simp: set_handler_with_ist_def DOUBLE_FAULT_IST_INDEX_def)
  obtain i7 where 7: "set_handler TIMER_VECTOR (ha_timer h) i6 = Some i7" "length i7 = 256"
    "gates i7 = (gates i6)(TIMER_VECTOR \<mapsto> wanted_gate (ha_timer h) None)"
    using set_handler_gates [OF 6(2)] by blast
  obtain i8 where 8: "set_handler KEYBOARD_VECTOR (ha_keyboard h) i7 = Some i8" "length i8 = 256"
    "gates i8 = (gates i7)(KEYBOARD_VECTOR \<mapsto> wanted_gate (ha_keyboard h) None)"
    using set_handler_gates [OF 7(2)] by blast
  have "idt_init h a (idt_new, s) = Some (i8, idt_load a s)"
    unfolding idt_init_def prod.case last Option.bind.bind_lunit 0(1) 1(1) 2(1) 3(1) 4(1) 5(1) 6(1) 7(1) 8(1) ..
  moreover have "gates i8 v = vector_table h v" for v
  proof (cases "34 \<le> v")
    case True
    then have "v \<notin> {0, 3, 6, 8, 13, 14, 32, 33}" by auto
    then show ?thesis using True irq_vectors [of v] word_le_nat_alt [of 34 v]
      by (simp add: 0(3) 1(3) 2(3) 3(3) 4(3) 5(3) 6(3) 7(3) 8(3) vector_table_def TIMER_VECTOR_def
        KEYBOARD_VECTOR_def PIC1_OFFSET_def word_le_nat_alt)
  next
    case False
    have "v = 32 \<or> v = 33" if "32 \<le> v"
      using that False by (auto simp: word_le_nat_alt word_unat_eq_iff)
    then show ?thesis using False irq_vectors [of v]
      by (auto simp: 0(3) 1(3) 2(3) 3(3) 4(3) 5(3) 6(3) 7(3) 8(3) vector_table_def TIMER_VECTOR_def
        KEYBOARD_VECTOR_def PIC1_OFFSET_def)
  qed
  ultimately show ?thesis using 8(2) by blast
qed

text \<open>
  \<open>idt::init\<close> returns and, starting from the static's initial table, leaves every one of the 256
  vectors with exactly the gate wanted for it: the six exceptions with handlers on theirs, the
  double fault alone on IST slot 0, the timer and the keyboard on 32 and 33, the catch-all on the
  other fourteen lines of the PICs, and nothing anywhere else; the loaded register covers exactly
  the table.
\<close>

theorem idt_init_installs:
  "\<exists>idt s'. idt_init h a (idt_new, s) = Some (idt, s') \<and>
    (\<forall>v. read_gate (idt ! unat v) = vector_table h v) \<and> ds_idtr s' = \<lparr>tp_limit = 4095, tp_base = sa_IDT a\<rparr> \<and>
    length idt * 16 = unat (tp_limit (ds_idtr s')) + 1"
  using idt_init_gates_lemma [of h a s] unfolding gates_def fun_eq_iff
  by (auto simp: idt_load_def IDT_SIZE_def)

text \<open>
  C33. No interrupt line meets an absent gate: after \<open>idt::init\<close> and \<open>pic::init\<close>, the vector each of the
  sixteen lines is delivered on has an interrupt gate, and the only lines left unmasked are the timer's
  and the keyboard's, whose vectors carry their own handlers.
\<close>

theorem irq_lines_have_gates:
  assumes "is_8259 p master 0x20" and "is_8259 p slave 0xA0"
    and "idt_init h a (idt_new, s) = Some (idt, s')"
  shows "(let m = master (pic_init p d); sl = slave (pic_init p d) in
    (\<forall>i < 8. \<exists>g g'. read_gate (idt ! unat (pc_base m + of_nat i)) = Some g \<and> gt_interrupt g \<and>
      read_gate (idt ! unat (pc_base sl + of_nat i)) = Some g' \<and> gt_interrupt g') \<and>
    {i. i < 8 \<and> \<not> bit (pc_mask m) i} = {0, 1} \<and> {i. i < 8 \<and> \<not> bit (pc_mask sl) i} = {} \<and>
    read_gate (idt ! unat (pc_base m)) = Some (wanted_gate (ha_timer h) None) \<and>
    read_gate (idt ! unat (pc_base m + 1)) = Some (wanted_gate (ha_keyboard h) None))"
proof -
  have m: "pc_base (master (pic_init p d)) = 32" "pc_mask (master (pic_init p d)) = 0xFC"
    and sl: "pc_base (slave (pic_init p d)) = 40" "pc_mask (slave (pic_init p d)) = 0xFF"
    using pic_init_state [OF assms(1,2)] by simp_all
  have g: "read_gate (idt ! unat v) = vector_table h v" for v
    using idt_init_gates_lemma [of h a s] assms(3) by (auto simp: gates_def fun_eq_iff)
  have lines: "\<exists>g. vector_table h v = Some g \<and> gt_interrupt g" if "32 \<le> unat v" "unat v < 48" for v
  proof (cases "34 \<le> v")
    case True
    then have "v \<notin> {0, 3, 6, 8, 13, 14, 32, 33}" by auto
    then show ?thesis using True that by (simp add: vector_table_def wanted_gate_def word_less_nat_alt)
  next
    case False
    then have "v = 32 \<or> v = 33" using that by (auto simp: word_le_nat_alt word_unat_eq_iff)
    then show ?thesis by (auto simp: vector_table_def wanted_gate_def)
  qed
  have u: "unat (32 + of_nat i :: u8) = 32 + i" "unat (40 + of_nat i :: u8) = 40 + i" if "i < 8" for i
    using that unat_add_small [of "32 :: u8" "of_nat i"] unat_add_small [of "40 :: u8" "of_nat i"]
    by (simp_all add: unat_of_nat)
  have sets: "{i. i < 8 \<and> \<not> bit v i} = set (filter (\<lambda>i. \<not> bit v i) [0..<8])" for v :: u8
    by auto
  have filters: "filter (\<lambda>i. \<not> bit (0xFC :: u8) i) [0..<8] = [0, 1]"
    "filter (\<lambda>i. \<not> bit (0xFF :: u8) i) [0..<8] = []" by code_simp+
  have masks: "{i. i < 8 \<and> \<not> bit (0xFC :: u8) i} = {0, 1}"
    "{i. i < 8 \<and> \<not> bit (0xFF :: u8) i} = {}"
    by (simp_all only: sets filters list.set)
  have "\<exists>g g'. vector_table h (32 + of_nat i) = Some g \<and> gt_interrupt g \<and>
      vector_table h (40 + of_nat i) = Some g' \<and> gt_interrupt g'" if "i < 8" for i
    using lines [of "32 + of_nat i"] lines [of "40 + of_nat i"] u [OF that] that by auto
  then show ?thesis
    unfolding Let_def m sl g masks by (simp add: vector_table_def)
qed

definition demo_handlers :: handlers where
  "demo_handlers = \<lparr>ha_unhandled_irq = 0x200010, ha_divide_error = 0x200020, ha_breakpoint = 0x200030,
     ha_invalid_opcode = 0x200040, ha_general_protection = 0x200050, ha_page_fault = 0x200060,
     ha_double_fault = 0x200070, ha_timer = 0x200080, ha_keyboard = 0x200090\<rparr>"

theorem irq_lines_have_gates_witness:
  "\<exists>idt s'. idt_init demo_handlers demo_statics (idt_new, boot_descriptors) = Some (idt, s') \<and>
    read_gate (idt ! unat (pc_base (fst (pic_init demo_pics (pic_junk, pic_junk))) + 1)) =
      Some (wanted_gate 0x200090 None)"
proof -
  obtain idt where i: "idt_init demo_handlers demo_statics (idt_new, boot_descriptors) =
      Some (idt, idt_load demo_statics boot_descriptors)"
    using idt_init_gates_lemma by blast
  show ?thesis
    using irq_lines_have_gates [OF demo_pics_ok i, of "(pic_junk, pic_junk)"] i
    by (simp add: Let_def demo_handlers_def)
qed

end
