(* ===== verification/Keyboard.thy ===== *)
theory Keyboard
  imports Ports
begin

unbundle bit_operations_syntax

text \<open>
  The PS/2 keyboard driver (kernel/src/keyboard.rs): the scancode table and the translation of the
  pending scancode.
\<close>

section \<open>Model\<close>

definition DATA_PORT :: u16 where "DATA_PORT = 0x60"

definition SCANCODE_TO_ASCII :: "u8 list" where
  "SCANCODE_TO_ASCII = [
    0, 0, 0x31, 0x32, 0x33, 0x34, 0x35, 0x36, 0x37, 0x38, 0x39, 0x30, 0x2d, 0x3d, 8, 0x09,
    0x71, 0x77, 0x65, 0x72, 0x74, 0x79, 0x75, 0x69, 0x6f, 0x70, 0x5b, 0x5d, 0x0a, 0, 0x61, 0x73,
    0x64, 0x66, 0x67, 0x68, 0x6a, 0x6b, 0x6c, 0x3b, 0x27, 0x60, 0, 0x5c, 0x7a, 0x78, 0x63, 0x76,
    0x62, 0x6e, 0x6d, 0x2c, 0x2e, 0x2f, 0, 0x2a, 0, 0x20, 0, 0, 0, 0, 0, 0,
    0, 0, 0, 0, 0, 0, 0, 0, 0, 0, 0, 0, 0, 0, 0, 0,
    0, 0, 0, 0, 0, 0, 0, 0, 0, 0, 0, 0, 0, 0, 0, 0,
    0, 0, 0, 0, 0, 0, 0, 0, 0, 0, 0, 0, 0, 0, 0, 0,
    0, 0, 0, 0, 0, 0, 0, 0, 0, 0, 0, 0, 0, 0, 0, 0]"

text \<open>An index outside the table is a panic.\<close>

definition scancode_ascii :: "u8 \<Rightarrow> u8 option run" where
  "scancode_ascii scancode =
     (if scancode AND 0x80 \<noteq> 0 then Some None
      else if unat scancode < length SCANCODE_TO_ASCII then
        let ascii = SCANCODE_TO_ASCII ! unat scancode in
        Some (if ascii = 0 then None else Some ascii)
      else None)"

definition read_key :: "'d ports \<Rightarrow> 'd \<Rightarrow> (u8 option \<times> 'd) run" where
  "read_key p d = do {
     let (scancode, d') = inb p DATA_PORT d;
     r \<leftarrow> scancode_ascii scancode;
     Some (r, d')
   }"

section \<open>Facts\<close>

lemma length_SCANCODE_TO_ASCII: "length SCANCODE_TO_ASCII = 128"
  by (simp add: SCANCODE_TO_ASCII_def)

lemma make_code_iff: "scancode AND 0x80 = 0 \<longleftrightarrow> (scancode :: u8) < 0x80"
proof -
  have p: "(0x80 :: u8) = 2 ^ 7" by simp
  have "scancode AND 0x80 = 0 \<longleftrightarrow> \<not> bit scancode 7"
    unfolding p by (rule and_exp_eq_0_iff_not_bit)
  also have "\<dots> \<longleftrightarrow> \<not> bit (unat scancode) 7" by (simp add: bit_unsigned_iff)
  also have "\<dots> \<longleftrightarrow> even (unat scancode div 128)" by (simp add: bit_iff_odd)
  also have "\<dots> \<longleftrightarrow> unat scancode div 128 = 0"
  proof -
    have "unat scancode < 256" using unat_bound [of scancode] by simp
    then have "unat scancode div 128 < 2" by simp
    then have "unat scancode div 128 = 0 \<or> unat scancode div 128 = 1" by linarith
    then show ?thesis by auto
  qed
  also have "\<dots> \<longleftrightarrow> scancode < 0x80" by (simp add: word_less_nat_alt div_eq_0_iff)
  finally show ?thesis .
qed

lemma make_code_bound: "scancode AND 0x80 = 0 \<Longrightarrow> unat (scancode :: u8) < 128"
  unfolding make_code_iff by (simp add: word_less_nat_alt)

lemma read_key_total: "\<exists>r. read_key p d = Some (r, snd (port_in p 0x60 d))"
  using make_code_bound length_SCANCODE_TO_ASCII
  by (auto simp: read_key_def scancode_ascii_def inb_def DATA_PORT_def Let_def split_beta)

section \<open>Properties\<close>

text \<open>
  \<open>read_key\<close> returns for every byte the controller can hand out - the table is never indexed
  out of range - and produces the key \<open>k\<close> exactly for a make code whose table entry is \<open>k\<close>: releases
  and untranslated keys produce none, and no two make codes produce the same key.
\<close>

theorem read_key_translates:
  "\<exists>r. read_key p d = Some (r, snd (port_in p 0x60 d)) \<and>
    (\<forall>k. r = Some k \<longleftrightarrow>
       (fst (port_in p 0x60 d) < 0x80 \<and> k \<noteq> 0 \<and>
        SCANCODE_TO_ASCII ! unat (fst (port_in p 0x60 d)) = k)) \<and>
    distinct (filter (\<lambda>k. k \<noteq> 0) SCANCODE_TO_ASCII)"
proof -
  have "distinct (filter (\<lambda>k. k \<noteq> 0) SCANCODE_TO_ASCII)" by (simp add: SCANCODE_TO_ASCII_def)
  then show ?thesis
    using make_code_bound length_SCANCODE_TO_ASCII
    by (auto simp: read_key_def scancode_ascii_def inb_def DATA_PORT_def Let_def split_beta
        simp flip: make_code_iff)
qed

end
