(* ===== verification/Interrupts.thy ===== *)
theory Interrupts
  imports Prelude
begin

text \<open>
  The interrupt flag (kernel/src/interrupts.rs). The processor state the kernel's code reads or
  writes itself is the flags register; every other theory of the kernel extends the record
  \<open>cpu\<close> with its own statics, so a critical section is a function on the whole state.

  \<open>without_interrupts\<close> is the kernel's only critical-section primitive. The lemmas show that
  its body runs with the interrupt flag clear, and that it hands back the flags it found.
\<close>

record cpu =
  rflags :: u64

text \<open>Bit 9 of the flags register is IF.\<close>

definition IF_FLAG :: u64 where "IF_FLAG = push_bit 9 1"

definition if_set :: "'a cpu_scheme \<Rightarrow> bool" where
  "if_set s \<longleftrightarrow> rflags s AND IF_FLAG \<noteq> 0"

definition cli :: "'a cpu_scheme \<Rightarrow> 'a cpu_scheme" where
  "cli s = s\<lparr>rflags := rflags s AND NOT IF_FLAG\<rparr>"

definition sti :: "'a cpu_scheme \<Rightarrow> 'a cpu_scheme" where
  "sti s = s\<lparr>rflags := rflags s OR IF_FLAG\<rparr>"

definition without_interrupts ::
    "('a cpu_scheme \<Rightarrow> ('r \<times> 'a cpu_scheme) run) \<Rightarrow> 'a cpu_scheme \<Rightarrow> ('r \<times> 'a cpu_scheme) run" where
  "without_interrupts f s = do {
     let was_enabled = (rflags s AND push_bit 9 1 \<noteq> 0);
     let s1 = (if was_enabled then cli s else s);
     (result, s2) \<leftarrow> f s1;
     let s3 = (if was_enabled then sti s2 else s2);
     Some (result, s3)
   }"

definition interrupts_enable :: "'a cpu_scheme \<Rightarrow> 'a cpu_scheme" where
  "interrupts_enable s = sti s"

section \<open>Facts\<close>

lemma bit_IF_FLAG [simp]: "bit IF_FLAG n \<longleftrightarrow> n = 9"
  unfolding IF_FLAG_def bit_push_bit_iff by (auto simp: bit_1_iff)

lemma if_set_cli [simp]: "\<not> if_set (cli s)"
  by (simp add: if_set_def cli_def and.assoc)

lemma if_set_sti [simp]: "if_set (sti s)"
  by (simp add: if_set_def sti_def bit_eq_iff bit_simps) (rule exI [of _ 9], simp)

lemma not_if_set_cli: "\<not> if_set s \<Longrightarrow> cli s = s"
proof -
  assume "\<not> if_set s"
  then have "rflags s AND NOT IF_FLAG = rflags s"
    by (auto simp: if_set_def bit_eq_iff bit_simps)
  then show ?thesis by (simp add: cli_def)
qed

lemma sti_cli_flags: "if_set s \<Longrightarrow> (rflags s AND NOT IF_FLAG) OR IF_FLAG = rflags s"
proof -
  assume set: "if_set s"
  have "bit (rflags s) 9"
  proof (rule ccontr)
    assume "\<not> bit (rflags s) 9"
    then have "rflags s AND IF_FLAG = 0" by (intro bit_word_eqI) (auto simp: bit_simps)
    then show False using set by (simp add: if_set_def)
  qed
  then show ?thesis
    by (intro bit_word_eqI) (auto simp: bit_simps)
qed

lemma rflags_cli: "rflags (cli s) = rflags s AND NOT IF_FLAG"
  by (simp add: cli_def)

lemma without_interrupts_cli:
  "without_interrupts f s =
     do { (r, s2) \<leftarrow> f (cli s); Some (r, if if_set s then sti s2 else s2) }"
  by (cases "if_set s")
    (auto simp: without_interrupts_def Let_def if_set_def IF_FLAG_def not_if_set_cli
      [unfolded if_set_def IF_FLAG_def])

text \<open>A critical section whose body leaves the flags alone leaves them as they were.\<close>

lemma without_interrupts_returns:
  assumes "f (cli s) = Some (r, s')" and "rflags s' = rflags (cli s)"
  shows "without_interrupts f s = Some (r, s'\<lparr>rflags := rflags s\<rparr>)"
proof (cases "if_set s")
  case True
  then show ?thesis using assms sti_cli_flags [OF True]
    by (simp add: without_interrupts_cli rflags_cli sti_def)
next
  case False
  then show ?thesis using assms not_if_set_cli [OF False]
    by (simp add: without_interrupts_cli)
qed

text \<open>
  C29. \<open>without_interrupts\<close> runs its closure with IF clear and, when the closure returns with
  the flags it was given, returns the closure's result with the caller's flags: set stays set,
  clear stays clear, so the section can be nested inside a handler.
\<close>

theorem without_interrupts_restores:
  assumes "\<And>s. \<not> if_set s \<Longrightarrow> \<exists>r s'. f s = Some (r, s') \<and> rflags s' = rflags s"
  shows "\<exists>r s'. f (cli s) = Some (r, s') \<and> \<not> if_set (cli s) \<and>
    without_interrupts f s = Some (r, s'\<lparr>rflags := rflags s\<rparr>)"
  using assms [OF if_set_cli, of s] without_interrupts_returns [of f s] by auto

theorem without_interrupts_restores_witness:
  "without_interrupts (without_interrupts (\<lambda>s. Some (rflags s, s))) \<lparr>rflags = 0x202\<rparr>
     = Some (2, \<lparr>rflags = 0x202\<rparr>)"
proof -
  have body: "\<exists>r s'. without_interrupts (\<lambda>s. Some (rflags s, s)) s = Some (r, s') \<and> rflags s' = rflags s"
    for s :: cpu
    using without_interrupts_returns [of "\<lambda>s. Some (rflags s, s)" s] by auto
  show ?thesis
    using without_interrupts_restores [of "without_interrupts (\<lambda>s. Some (rflags s, s))", OF body,
        of "\<lparr>rflags = 0x202\<rparr>"]
    by (auto simp: without_interrupts_def cli_def sti_def IF_FLAG_def)
qed

end
