(* ===== verification/Alloc_Contract.thy ===== *)
theory Alloc_Contract
  imports Prelude
begin

text \<open>
  The contract the two allocators of the kernel share, and what follows from it for any client.

  An allocator hands out blocks of resource units (frames for the frame allocator, bytes for the
  heap) from a pool of free units. \<open>client_reach\<close> is the client: any interleaving of
  allocations, of frees of live blocks, and of writes into live blocks. Inside the locale
  \<open>resource_allocator\<close> it is proved once that live blocks never overlap, are never free, and
  that live and free units together are always the pool the allocator started with; in
  \<open>coalescing_allocator\<close>, that freeing everything restores what an observer can see of the
  free list.
\<close>

section \<open>The client\<close>

inductive client_reach ::
    "('l \<Rightarrow> 's \<Rightarrow> ('p option \<times> 's) run) \<Rightarrow> ('p \<Rightarrow> 'l \<Rightarrow> 's \<Rightarrow> 's run) \<Rightarrow>
     ('l \<Rightarrow> bool) \<Rightarrow> ('p \<Rightarrow> 'l \<Rightarrow> nat set) \<Rightarrow> (nat set \<Rightarrow> 's \<Rightarrow> 's \<Rightarrow> bool) \<Rightarrow>
     's \<Rightarrow> 's \<Rightarrow> ('p \<times> 'l) set \<Rightarrow> bool"
  for alloc dealloc valid block scribble s0 where
  start: "client_reach alloc dealloc valid block scribble s0 s0 {}"
| alloc: "client_reach alloc dealloc valid block scribble s0 s L \<Longrightarrow> valid l \<Longrightarrow>
    alloc l s = Some (Some p, s') \<Longrightarrow>
    client_reach alloc dealloc valid block scribble s0 s' (insert (p, l) L)"
| exhausted: "client_reach alloc dealloc valid block scribble s0 s L \<Longrightarrow> valid l \<Longrightarrow>
    alloc l s = Some (None, s') \<Longrightarrow>
    client_reach alloc dealloc valid block scribble s0 s' L"
| dealloc: "client_reach alloc dealloc valid block scribble s0 s L \<Longrightarrow> (p, l) \<in> L \<Longrightarrow>
    dealloc p l s = Some s' \<Longrightarrow>
    client_reach alloc dealloc valid block scribble s0 s' (L - {(p, l)})"
| scribble: "client_reach alloc dealloc valid block scribble s0 s L \<Longrightarrow>
    scribble (\<Union>(p, l) \<in> L. block p l) s s' \<Longrightarrow>
    client_reach alloc dealloc valid block scribble s0 s' L"

text \<open>The blocks of a set of live allocations, and that they do not overlap.\<close>

definition live_units :: "('p \<Rightarrow> 'l \<Rightarrow> nat set) \<Rightarrow> ('p \<times> 'l) set \<Rightarrow> nat set" where
  "live_units block L = (\<Union>(p, l) \<in> L. block p l)"

definition live_disjoint :: "('p \<Rightarrow> 'l \<Rightarrow> nat set) \<Rightarrow> ('p \<times> 'l) set \<Rightarrow> bool" where
  "live_disjoint block L \<longleftrightarrow>
     (\<forall>x \<in> L. \<forall>y \<in> L. x \<noteq> y \<longrightarrow>
        block (fst x) (snd x) \<inter> block (fst y) (snd y) = {})"

lemma live_units_empty [simp]: "live_units block {} = {}"
  by (simp add: live_units_def)

lemma live_units_insert [simp]:
  "live_units block (insert (p, l) L) = block p l \<union> live_units block L"
  by (simp add: live_units_def)

lemma live_disjoint_empty [simp]: "live_disjoint block {}"
  by (simp add: live_disjoint_def)

lemma live_disjoint_insert:
  "live_disjoint block L \<Longrightarrow> block p l \<inter> live_units block L = {} \<Longrightarrow>
   live_disjoint block (insert (p, l) L)"
  unfolding live_disjoint_def live_units_def by fastforce

lemma live_disjoint_remove: "live_disjoint block L \<Longrightarrow> live_disjoint block (L - X)"
  by (auto simp: live_disjoint_def)

lemma live_units_remove:
  assumes "live_disjoint block L" and "(p, l) \<in> L"
  shows "live_units block (L - {(p, l)}) = live_units block L - block p l"
  using assms unfolding live_disjoint_def live_units_def by fastforce

section \<open>The contract\<close>

locale resource_allocator =
  fixes alloc :: "'l \<Rightarrow> 's \<Rightarrow> ('p option \<times> 's) run"
    and dealloc :: "'p \<Rightarrow> 'l \<Rightarrow> 's \<Rightarrow> 's run"
    and inv :: "'s \<Rightarrow> bool"
    and free :: "'s \<Rightarrow> nat set"
    and valid :: "'l \<Rightarrow> bool"
    and granted :: "'p \<Rightarrow> 'l \<Rightarrow> bool"
    and block :: "'p \<Rightarrow> 'l \<Rightarrow> nat set"
    and scribble :: "nat set \<Rightarrow> 's \<Rightarrow> 's \<Rightarrow> bool"
  assumes alloc_returns: "inv s \<Longrightarrow> valid l \<Longrightarrow> \<exists>r. alloc l s = Some r"
    and alloc_some: "inv s \<Longrightarrow> valid l \<Longrightarrow> alloc l s = Some (Some p, s') \<Longrightarrow>
      inv s' \<and> granted p l \<and> block p l \<subseteq> free s \<and> free s' = free s - block p l"
    and alloc_none: "inv s \<Longrightarrow> valid l \<Longrightarrow> alloc l s = Some (None, s') \<Longrightarrow>
      inv s' \<and> free s' = free s"
    and dealloc_ok: "inv s \<Longrightarrow> valid l \<Longrightarrow> granted p l \<Longrightarrow> block p l \<inter> free s = {} \<Longrightarrow>
      \<exists>s'. dealloc p l s = Some s' \<and> inv s' \<and> free s' = free s \<union> block p l"
    and scribble_ok: "inv s \<Longrightarrow> U \<inter> free s = {} \<Longrightarrow> scribble U s s' \<Longrightarrow>
      inv s' \<and> free s' = free s"
    and block_nonempty: "valid l \<Longrightarrow> block p l \<noteq> {}"
begin

lemma client_invariant:
  assumes "client_reach alloc dealloc valid block scribble s0 s L" and "inv s0"
  shows "inv s \<and> live_disjoint block L \<and> live_units block L \<inter> free s = {} \<and>
    live_units block L \<union> free s = free s0 \<and> (\<forall>(p, l) \<in> L. valid l \<and> granted p l)"
  using assms
proof (induction rule: client_reach.induct)
  case start
  then show ?case by simp
next
  case (alloc s L l p s')
  then have ih: "inv s" "live_disjoint block L" "live_units block L \<inter> free s = {}"
    "live_units block L \<union> free s = free s0" "\<forall>(p, l) \<in> L. valid l \<and> granted p l" by auto
  from alloc_some [OF ih(1) alloc.hyps(2,3)]
  have new: "inv s'" "granted p l" "block p l \<subseteq> free s" "free s' = free s - block p l" by auto
  moreover have "block p l \<inter> live_units block L = {}" using new(3) ih(3) by blast
  ultimately show ?case using ih alloc.hyps(2) live_disjoint_insert [OF ih(2), of p l] by auto
next
  case (exhausted s L l s')
  then show ?case using alloc_none [of s l s'] by simp
next
  case (dealloc s L p l s')
  then have ih: "inv s" "live_disjoint block L" "live_units block L \<inter> free s = {}"
    "live_units block L \<union> free s = free s0" "\<forall>(p, l) \<in> L. valid l \<and> granted p l" by auto
  then have pl: "valid l" "granted p l" using dealloc.hyps(2) by auto
  have in_live: "block p l \<subseteq> live_units block L" using dealloc.hyps(2) by (auto simp: live_units_def)
  then have "block p l \<inter> free s = {}" using ih(3) by blast
  from dealloc_ok [OF ih(1) pl this] dealloc.hyps(3)
  have new: "inv s'" "free s' = free s \<union> block p l" by auto
  show ?case
    using ih new in_live live_units_remove [OF ih(2) dealloc.hyps(2)]
      live_disjoint_remove [OF ih(2), of "{(p, l)}"] by auto
next
  case (scribble s L s')
  then show ?case
    using scribble_ok [of s "live_units block L" s'] by (simp add: live_units_def)
qed

lemma client_never_stuck:
  assumes "client_reach alloc dealloc valid block scribble s0 s L" and "inv s0"
  shows "valid l \<Longrightarrow> \<exists>r. alloc l s = Some r"
    and "(p, l) \<in> L \<Longrightarrow> \<exists>s'. dealloc p l s = Some s'"
proof -
  note inv = client_invariant [OF assms]
  show "valid l \<Longrightarrow> \<exists>r. alloc l s = Some r" using inv alloc_returns by blast
  show "(p, l) \<in> L \<Longrightarrow> \<exists>s'. dealloc p l s = Some s'"
  proof -
    assume pl: "(p, l) \<in> L"
    then have "block p l \<inter> free s = {}" using inv by (auto simp: live_units_def)
    moreover have "valid l" "granted p l" using pl inv by auto
    ultimately show ?thesis using inv dealloc_ok [of s l p] by blast
  qed
qed

lemma client_all_freed:
  "client_reach alloc dealloc valid block scribble s0 s {} \<Longrightarrow> inv s0 \<Longrightarrow> inv s \<and> free s = free s0"
  using client_invariant [of s0 s "{}"] by simp

end

text \<open>
  An allocator whose free list is determined by its free units: what \<open>shape\<close> reads of the
  state is a function of the free units alone.
\<close>

locale coalescing_allocator = resource_allocator +
  fixes shape :: "'b \<Rightarrow> 'e"
  assumes canonical: "inv s \<Longrightarrow> inv s' \<Longrightarrow> free s = free s' \<Longrightarrow> shape s = shape s'"
begin

lemma client_restores_shape:
  "client_reach alloc dealloc valid block scribble s0 s {} \<Longrightarrow> inv s0 \<Longrightarrow> shape s = shape s0"
  using client_all_freed [of s0 s] canonical [of s s0] by simp

end

end
