(* ===== verification/Kernel_Heap.thy ===== *)
theory Kernel_Heap
  imports Frame_Alloc
begin

text \<open>
  The kernel heap (kernel/src/heap.rs): a first-fit free list, sorted by address, whose headers
  are stored in the free blocks themselves, with splitting and merging on both sides.

  \<open>heap_mem\<close> is the memory the headers live in, one \<open>FreeBlock\<close> per 16-byte cell; pointers are
  addresses, null is 0. The list walks are \<open>partial_function (option)\<close>: a walk over a cyclic
  list does not return, and an overflowing addition or \<open>next_multiple_of\<close> panics, both \<open>None\<close>.
  \<open>heap_state\<close> adds the static \<open>HEAP\<close> to the frame allocator's state, because \<open>init\<close> takes its
  pages from there; the public functions run inside \<open>without_interrupts\<close>.
\<close>

section \<open>Data\<close>

definition HEAP_FRAMES :: u64 where "HEAP_FRAMES = 256"
definition GRAIN :: usize where "GRAIN = 16"

record free_block =
  hb_size :: usize
  hb_next :: u64

type_synonym heap_mem = "u64 \<Rightarrow> free_block"

text \<open>\<open>core::alloc::Layout\<close>: what a caller of the allocator asks for.\<close>

record layout =
  ly_size :: usize
  ly_align :: usize

text \<open>
  The invariant of the library type: the alignment is a power of two, and the size rounded up to
  it is at most \<open>isize::MAX\<close>.
\<close>

definition layout_ok :: "layout \<Rightarrow> bool" where
  "layout_ok l \<longleftrightarrow> (\<exists>k \<in> set [0..<64]. unat (ly_align l) = 2 ^ k) \<and>
     round_up (unat (ly_size l)) (unat (ly_align l)) < 2 ^ 63"

section \<open>The free list\<close>

definition normalise :: "layout \<Rightarrow> (usize \<times> usize) run" where
  "normalise l = do {
     len \<leftarrow> checked_next_multiple_of (max (ly_size l) GRAIN) GRAIN;
     Some (len, max (ly_align l) GRAIN)
   }"

text \<open>Carving \<open>len\<close> bytes at \<open>payload\<close> out of the block at \<open>cur\<close>; the results are memory and head.\<close>

definition carve :: "usize \<Rightarrow> usize \<Rightarrow> usize \<Rightarrow> heap_mem \<Rightarrow> u64 \<Rightarrow> u64 \<Rightarrow> u64 \<Rightarrow> (heap_mem \<times> u64) run"
where
  "carve payload front len mem head prev cur = do {
     let nxt = hb_next (mem cur);
     rest \<leftarrow> checked_sub (hb_size (mem cur)) front;
     tail \<leftarrow> checked_sub rest len;
     (remainder, mem1) \<leftarrow>
       (if GRAIN \<le> tail then do {
          tail_block \<leftarrow> checked_add payload len;
          Some (tail_block, mem(tail_block := \<lparr>hb_size = tail, hb_next = nxt\<rparr>))
        }
        else Some (nxt, mem));
     (if GRAIN \<le> front then Some (mem1(cur := \<lparr>hb_size = front, hb_next = remainder\<rparr>), head)
      else if prev = 0 then Some (mem1, remainder)
      else Some (mem1(prev := (mem1 prev)\<lparr>hb_next := remainder\<rparr>), head))
   }"

partial_function (option) alloc_walk ::
    "usize \<Rightarrow> usize \<Rightarrow> heap_mem \<Rightarrow> u64 \<Rightarrow> u64 \<Rightarrow> u64 \<Rightarrow> (u64 \<times> heap_mem \<times> u64) option"
where
  "alloc_walk len align mem head prev cur =
     (if cur = 0 then Some (0, mem, head)
      else do {
        payload \<leftarrow> checked_next_multiple_of cur align;
        front \<leftarrow> checked_sub payload cur;
        need \<leftarrow> checked_add front len;
        (if need \<le> hb_size (mem cur) then do {
           (mem', head') \<leftarrow> carve payload front len mem head prev cur;
           Some (payload, mem', head')
         }
         else alloc_walk len align mem head cur (hb_next (mem cur)))
      })"

declare alloc_walk.simps [code]

definition heap_alloc :: "layout \<Rightarrow> heap_mem \<Rightarrow> u64 \<Rightarrow> (u64 \<times> heap_mem \<times> u64) run" where
  "heap_alloc l mem head = do {
     (len, align) \<leftarrow> normalise l;
     alloc_walk len align mem head 0 head
   }"

text \<open>The insertion point: the last free block below \<open>start\<close> and the first one not below it.\<close>

partial_function (option) find_slot :: "heap_mem \<Rightarrow> usize \<Rightarrow> u64 \<Rightarrow> u64 \<Rightarrow> (u64 \<times> u64) option" where
  "find_slot mem start prev cur =
     (if cur \<noteq> 0 \<and> cur < start then find_slot mem start cur (hb_next (mem cur))
      else Some (prev, cur))"

declare find_slot.simps [code]

definition merge_forward :: "usize \<Rightarrow> usize \<Rightarrow> heap_mem \<Rightarrow> u64 \<Rightarrow> (usize \<times> u64) run" where
  "merge_forward start len mem cur =
     (if cur = 0 then Some (len, cur)
      else do {
        stop \<leftarrow> checked_add start len;
        (if stop = cur then do {
           both \<leftarrow> checked_add len (hb_size (mem cur));
           Some (both, hb_next (mem cur))
         }
         else Some (len, cur))
      })"

text \<open>\<open>None\<close> inside the run when the previous block does not reach \<open>start\<close>.\<close>

definition merge_backward ::
    "usize \<Rightarrow> usize \<Rightarrow> u64 \<Rightarrow> heap_mem \<Rightarrow> u64 \<Rightarrow> heap_mem option run" where
  "merge_backward start len nxt mem prev =
     (if prev = 0 then Some None
      else do {
        prev_end \<leftarrow> checked_add prev (hb_size (mem prev));
        (if prev_end = start then do {
           both \<leftarrow> checked_add (hb_size (mem prev)) len;
           Some (Some (mem(prev := \<lparr>hb_size = both, hb_next = nxt\<rparr>)))
         }
         else Some None)
      })"

definition heap_dealloc :: "u64 \<Rightarrow> layout \<Rightarrow> heap_mem \<Rightarrow> u64 \<Rightarrow> (heap_mem \<times> u64) run" where
  "heap_dealloc p l mem head = do {
     (len0, _) \<leftarrow> normalise l;
     (prev, cur) \<leftarrow> find_slot mem p 0 head;
     (len, nxt) \<leftarrow> merge_forward p len0 mem cur;
     merged \<leftarrow> merge_backward p len nxt mem prev;
     (case merged of
        Some mem' \<Rightarrow> Some (mem', head)
      | None \<Rightarrow>
          (let mem1 = mem(p := \<lparr>hb_size = len, hb_next = nxt\<rparr>) in
           if prev = 0 then Some (mem1, p)
           else Some (mem1(prev := (mem1 prev)\<lparr>hb_next := p\<rparr>), head)))
   }"

partial_function (option) sum_blocks :: "heap_mem \<Rightarrow> usize \<Rightarrow> u64 \<Rightarrow> usize option" where
  "sum_blocks mem acc cur =
     (if cur = 0 then Some acc
      else do {
        acc' \<leftarrow> checked_add acc (hb_size (mem cur));
        sum_blocks mem acc' (hb_next (mem cur))
      })"

declare sum_blocks.simps [code]

partial_function (option) count_blocks :: "heap_mem \<Rightarrow> usize \<Rightarrow> u64 \<Rightarrow> usize option" where
  "count_blocks mem acc cur =
     (if cur = 0 then Some acc
      else do {
        acc' \<leftarrow> checked_add acc 1;
        count_blocks mem acc' (hb_next (mem cur))
      })"

declare count_blocks.simps [code]

section \<open>The public functions\<close>

record heap_state = frame_state +
  st_heap :: heap_mem
  st_HEAP :: u64

text \<open>\<open>GlobalAlloc::alloc\<close> and \<open>GlobalAlloc::dealloc\<close> of \<open>KernelHeap\<close>.\<close>

definition global_alloc :: "layout \<Rightarrow> 'a heap_state_scheme \<Rightarrow> (u64 \<times> 'a heap_state_scheme) run" where
  "global_alloc l = without_interrupts (\<lambda>s. do {
     (p, mem, head) \<leftarrow> heap_alloc l (st_heap s) (st_HEAP s);
     Some (p, s\<lparr>st_heap := mem, st_HEAP := head\<rparr>)
   })"

definition global_dealloc :: "u64 \<Rightarrow> layout \<Rightarrow> 'a heap_state_scheme \<Rightarrow> 'a heap_state_scheme run" where
  "global_dealloc p l s = do {
     (_, s') \<leftarrow> without_interrupts (\<lambda>s. do {
       (mem, head) \<leftarrow> heap_dealloc p l (st_heap s) (st_HEAP s);
       Some ((), s\<lparr>st_heap := mem, st_HEAP := head\<rparr>)
     }) s;
     Some s'
   }"

text \<open>\<open>Heap::init\<close> and \<open>init\<close>.\<close>

definition heap_arm :: "u64 \<Rightarrow> usize \<Rightarrow> heap_mem \<Rightarrow> heap_mem \<times> u64" where
  "heap_arm start len mem = (mem(start := \<lparr>hb_size = len, hb_next = 0\<rparr>), start)"

definition heap_init :: "'a heap_state_scheme \<Rightarrow> ((u64 \<times> usize) option \<times> 'a heap_state_scheme) run" where
  "heap_init s = do {
     (r, s1) \<leftarrow> alloc_contiguous HEAP_FRAMES s;
     (case r of
        None \<Rightarrow> Some (None, s1)
      | Some start \<Rightarrow> do {
          len \<leftarrow> checked_mul HEAP_FRAMES PAGE_SIZE;
          (_, s2) \<leftarrow> without_interrupts (\<lambda>s.
            let (mem, head) = heap_arm start len (st_heap s)
            in Some ((), s\<lparr>st_heap := mem, st_HEAP := head\<rparr>)) s1;
          Some (Some (start, len), s2)
        })
   }"

definition free_bytes :: "'a heap_state_scheme \<Rightarrow> (usize \<times> 'a heap_state_scheme) run" where
  "free_bytes = without_interrupts (\<lambda>s. do {
     n \<leftarrow> sum_blocks (st_heap s) 0 (st_HEAP s);
     Some (n, s)
   })"

definition free_blocks :: "'a heap_state_scheme \<Rightarrow> (usize \<times> 'a heap_state_scheme) run" where
  "free_blocks = without_interrupts (\<lambda>s. do {
     n \<leftarrow> count_blocks (st_heap s) 0 (st_HEAP s);
     Some (n, s)
   })"

end
