(* ===== verification/Console_Props.thy ===== *)
theory Console_Props
  imports Console_Text
begin

text \<open>
  The console draws text and nothing else. Pixels are addressed by their coordinates (\<open>at\<close>); a
  console built by \<open>console_new\<close> (\<open>console_ok\<close>) never leaves the span of its framebuffer.
  \<open>painted\<close> is the effect of a drawing routine on the pixels, \<open>shows\<close> relates video memory to a
  grid of characters, and the terminal at the end is the specification of the byte stream:
  advance, wrap, newline, scroll.
\<close>

section \<open>Pixels\<close>

definition co_total :: "console \<Rightarrow> nat" where
  "co_total c = co_stride c * co_height c"

definition px_addr :: "console \<Rightarrow> nat \<Rightarrow> u64" where
  "px_addr c i = fb_addr (co_framebuffer c) + of_nat (4 * i)"

definition load32 :: "pixels \<Rightarrow> u64 \<Rightarrow> u32" where
  "load32 m p = ucast (m p) OR push_bit 8 (ucast (m (p + 1))) OR push_bit 16 (ucast (m (p + 2)))
     OR push_bit 24 (ucast (m (p + 3)))"

definition at :: "console \<Rightarrow> pixels \<Rightarrow> nat \<Rightarrow> nat \<Rightarrow> u32" where
  "at c m x y = load32 m (px_addr c (y * co_stride c + x))"

definition console_ok :: "console \<Rightarrow> bool" where
  "console_ok c \<longleftrightarrow>
     co_width c \<le> co_stride c \<and> 8 \<le> co_width c \<and> 16 \<le> co_height c \<and>
     4 * co_total c \<le> unat (fb_size (co_framebuffer c)) \<and>
     unat (fb_addr (co_framebuffer c)) + 4 * co_total c < 2 ^ 64 \<and>
     co_columns c = co_width c div 8 \<and> co_rows c = co_height c div 16 \<and>
     co_column c \<le> co_columns c \<and> co_row c < co_rows c"

lemma load32_store32: "load32 (store32 p v m) p = v"
proof -
  have "ucast (ucast v :: u8) OR push_bit 8 (ucast (ucast (drop_bit 8 v) :: u8)) OR
      push_bit 16 (ucast (ucast (drop_bit 16 v) :: u8)) OR
      push_bit 24 (ucast (ucast (drop_bit 24 v) :: u8)) = v" (is "?l = v")
  proof (rule bit_word_eqI)
    fix n assume "n < LENGTH(32)"
    then consider "n < 8" | "8 \<le> n" "n < 16" | "16 \<le> n" "n < 24" | "24 \<le> n" "n < 32" by fastforce
    then show "bit ?l n = bit v n"
      by cases (auto simp: bit_simps)
  qed
  then show ?thesis by (simp add: load32_def store32_def)
qed

lemma load32_apart:
  assumes "unat p + 4 \<le> unat q \<or> unat q + 4 \<le> unat p"
    and "unat p + 4 \<le> 2 ^ 64" and "unat q + 4 \<le> 2 ^ 64"
  shows "load32 (store32 p v m) q = load32 m q"
proof -
  have ne: "q + of_nat j \<noteq> p + of_nat i" if "i < 4" "j < 4" for i j
  proof -
    have "unat (of_nat i :: u64) = i" "unat (of_nat j :: u64) = j" using that by (simp_all add: unat_of_nat)
    then have "unat (p + of_nat i) = unat p + i" "unat (q + of_nat j) = unat q + j"
      using assms(2,3) that by (simp_all add: unat_add_small)
    then show ?thesis using assms(1) that by (auto simp: word_unat_eq_iff)
  qed
  have other: "store32 p v m (q + of_nat j) = m (q + of_nat j)" if "j < 4" for j
    using ne [of 0 j] ne [of 1 j] ne [of 2 j] ne [of 3 j] that by (simp add: store32_def)
  show ?thesis
    using other [of 0] other [of 1] other [of 2] other [of 3] by (simp add: load32_def)
qed

lemma usize_val_small [simp]: "n < 18446744073709551616 \<Longrightarrow> usize_val n = Some n"
  by (simp add: usize_val_def)

lemma usize_val_Some: "usize_val n = Some k \<longleftrightarrow> k = n \<and> n < 2 ^ 64"
  by (auto simp: usize_val_def)

lemma console_new_Some:
  assumes "console_new fb = Some c"
  shows "console_ok c" and "co_framebuffer c = fb" and "co_column c = 0" and "co_row c = 0"
    and "fb_addr fb mod 4 = 0"
proof -
  obtain format where f: "fb_pixel_format fb = Some format"
    using assms by (auto simp: console_new_def split: option.splits)
  note d = assms [unfolded console_new_def f Let_def option.case]
  from d have g: "fb_stride fb \<ge> fb_width fb" "8 \<le> unat (fb_width fb)" "16 \<le> unat (fb_height fb)"
    by (auto simp: GLYPH_WIDTH_def GLYPH_HEIGHT_def word_le_nat_alt split: if_splits)
  from d obtain s where s: "s = unat (fb_stride fb) * unat (fb_height fb)" "s * 4 < 2 ^ 64"
    "s * 4 \<le> unat (fb_size fb)" "unat (fb_addr fb) + s * 4 < 2 ^ 64"
    and c: "c = \<lparr>co_framebuffer = fb, co_column = 0, co_row = 0,
      co_columns = unat (fb_width fb) div 8, co_rows = unat (fb_height fb) div 16,
      co_foreground = pack format 0xE0 0xE0 0xE0, co_background = pack format 0x00 0x33 0x99\<rparr>"
    by (auto simp: usize_val_Some GLYPH_WIDTH_def GLYPH_HEIGHT_def split: if_splits elim!: run_bindE)
  have "unat (fb_height fb) div 16 > 0" using g(3) by (simp add: div_greater_zero_iff)
  then show "console_ok c" using g s c
    by (simp add: console_ok_def co_total_def co_stride_def co_height_def co_width_def word_le_nat_alt
        mult.commute)
  show "co_framebuffer c = fb" and "co_column c = 0" and "co_row c = 0" using c by auto
  show "fb_addr fb mod 4 = 0" using d by (simp split: if_splits)
qed

lemma geometry_update [simp]:
  "co_stride (c\<lparr>co_column := j\<rparr>) = co_stride c" "co_stride (c\<lparr>co_row := i\<rparr>) = co_stride c"
  "co_width (c\<lparr>co_column := j\<rparr>) = co_width c" "co_width (c\<lparr>co_row := i\<rparr>) = co_width c"
  "co_height (c\<lparr>co_column := j\<rparr>) = co_height c" "co_height (c\<lparr>co_row := i\<rparr>) = co_height c"
  "co_total (c\<lparr>co_column := j\<rparr>) = co_total c" "co_total (c\<lparr>co_row := i\<rparr>) = co_total c"
  "px_addr (c\<lparr>co_column := j\<rparr>) = px_addr c" "px_addr (c\<lparr>co_row := i\<rparr>) = px_addr c"
  by (auto simp: co_stride_def co_width_def co_height_def co_total_def px_addr_def fun_eq_iff)

lemma at_update [simp]:
  "at (c\<lparr>co_column := j\<rparr>) = at c" "at (c\<lparr>co_row := i\<rparr>) = at c"
  by (auto simp: at_def fun_eq_iff)

lemma px_addr_unat:
  assumes "console_ok c" and "i < co_total c"
  shows "unat (px_addr c i) = unat (fb_addr (co_framebuffer c)) + 4 * i"
proof -
  have "px_addr c i = of_nat (unat (fb_addr (co_framebuffer c)) + 4 * i)"
    by (simp add: px_addr_def)
  moreover have "unat (fb_addr (co_framebuffer c)) + 4 * i < 2 ^ 64"
    using assms by (simp add: console_ok_def)
  ultimately show ?thesis by (simp add: unat_of_nat del: of_nat_add of_nat_mult)
qed

lemma index_bound:
  assumes "x < co_stride c" and "y < co_height c"
  shows "y * co_stride c + x < co_total c"
proof -
  have "y * co_stride c + x < Suc y * co_stride c" using assms(1) by simp
  also have "\<dots> \<le> co_height c * co_stride c" using assms(2) by (intro mult_le_mono1) simp
  finally show ?thesis by (simp add: co_total_def mult.commute)
qed

lemma total_small: "console_ok c \<Longrightarrow> co_total c < 4611686018427387904"
  by (simp add: console_ok_def)

lemma coords_inj:
  assumes "x < s" and "x' < s"
  shows "y * s + x = y' * s + x' \<longleftrightarrow> x = x' \<and> y = (y' :: nat)"
  using assms by (metis div_mult_self3 div_less add.right_neutral add_left_cancel less_nat_zero_code)

lemma px_addr_end:
  assumes "console_ok c" and "i < co_total c"
  shows "unat (px_addr c i) + 4 \<le> 2 ^ 64"
  using assms px_addr_unat [OF assms] by (simp add: console_ok_def)

lemma at_put:
  assumes "console_ok c" "x < co_stride c" "y < co_height c" "x' < co_stride c" "y' < co_height c"
  shows "at c (store32 (px_addr c (y * co_stride c + x)) v m) x' y' =
    (if x' = x \<and> y' = y then v else at c m x' y')"
proof (cases "x' = x \<and> y' = y")
  case True
  then show ?thesis by (simp add: at_def load32_store32)
next
  case False
  let ?i = "y * co_stride c + x" and ?j = "y' * co_stride c + x'"
  have i: "?i < co_total c" and j: "?j < co_total c"
    using index_bound [OF assms(2,3)] index_bound [OF assms(4,5)] by auto
  have apart: "k \<noteq> l \<Longrightarrow> b + 4 * k + 4 \<le> b + 4 * l \<or> b + 4 * l + 4 \<le> b + 4 * k" for b k l :: nat
    by arith
  have "?i \<noteq> ?j" using False coords_inj [OF assms(4,2)] by metis
  then have "unat (px_addr c ?i) + 4 \<le> unat (px_addr c ?j) \<or> unat (px_addr c ?j) + 4 \<le> unat (px_addr c ?i)"
    unfolding px_addr_unat [OF assms(1) i] px_addr_unat [OF assms(1) j] by (rule apart)
  then show ?thesis
    using load32_apart [of "px_addr c ?i" "px_addr c ?j", OF _ px_addr_end [OF assms(1) i] px_addr_end [OF assms(1) j]] False
    unfolding at_def by auto
qed

lemma put_pixel_spec:
  assumes "console_ok c" "x < co_stride c" "y < co_height c"
  shows "put_pixel c x y v m = Some (store32 (px_addr c (y * co_stride c + x)) v m)"
  using index_bound [OF assms(2,3)] total_small [OF assms(1)]
  by (simp add: put_pixel_def pixel_addr_def px_addr_def)

section \<open>Painting\<close>

lemma store32_offset:
  assumes "console_ok c" and "i < co_total c" and "store32 (px_addr c i) v m a \<noteq> m a"
  shows "unat (a - fb_addr (co_framebuffer c)) < 4 * co_total c"
proof -
  obtain j where j: "j < 4" "a = px_addr c i + of_nat j"
  proof -
    have "a = px_addr c i + of_nat 0 \<or> a = px_addr c i + of_nat 1 \<or> a = px_addr c i + of_nat 2 \<or>
        a = px_addr c i + of_nat 3"
      using assms(3) by (auto simp: store32_def split: if_splits)
    then show thesis using that [of 0] that [of 1] that [of 2] that [of 3] by auto
  qed
  have "a - fb_addr (co_framebuffer c) = of_nat (4 * i + j)" by (simp add: j px_addr_def)
  moreover have "4 * i + j < 4 * co_total c" using assms(2) j(1) by simp
  moreover have "4 * co_total c < 2 ^ 64" using assms(1) by (simp add: console_ok_def)
  ultimately show ?thesis by (simp add: unat_of_nat del: of_nat_add of_nat_mult)
qed

text \<open>
  \<open>painted c P f m m'\<close>: the pixels where \<open>P\<close> holds now have the colour \<open>f\<close>, every other pixel keeps
  its own, and nothing outside the framebuffer's pixels was written.
\<close>

definition confined :: "console \<Rightarrow> pixels \<Rightarrow> pixels \<Rightarrow> bool" where
  "confined c m m' \<longleftrightarrow> (\<forall>a. m' a = m a \<or> unat (a - fb_addr (co_framebuffer c)) < 4 * co_total c)"

definition painted ::
    "console \<Rightarrow> (nat \<Rightarrow> nat \<Rightarrow> bool) \<Rightarrow> (nat \<Rightarrow> nat \<Rightarrow> u32) \<Rightarrow> pixels \<Rightarrow> pixels \<Rightarrow> bool" where
  "painted c P f m m' \<longleftrightarrow> confined c m m' \<and>
     (\<forall>x y. x < co_stride c \<longrightarrow> y < co_height c \<longrightarrow>
        at c m' x y = (if P x y then f x y else at c m x y))"

lemma confined_refl [simp, intro]: "confined c m m"
  by (simp add: confined_def)

lemma confined_trans: "confined c m m1 \<Longrightarrow> confined c m1 m2 \<Longrightarrow> confined c m m2"
  unfolding confined_def by metis

lemma painted_at:
  "painted c P f m m' \<Longrightarrow> x < co_stride c \<Longrightarrow> y < co_height c \<Longrightarrow>
    at c m' x y = (if P x y then f x y else at c m x y)"
  by (simp add: painted_def)

lemma painted_none: "(\<And>x y. \<not> P x y) \<Longrightarrow> painted c P f m m"
  by (simp add: painted_def)

lemma painted_put:
  assumes "console_ok c" "x < co_stride c" "y < co_height c"
  shows "painted c (\<lambda>x' y'. x' = x \<and> y' = y) (\<lambda>_ _. v) m
    (store32 (px_addr c (y * co_stride c + x)) v m)"
  using at_put [OF assms] store32_offset [OF assms(1) index_bound [OF assms(2,3)]]
  unfolding painted_def confined_def by blast

lemma painted_trans:
  assumes "painted c P f m m1" and "painted c Q g m1 m2"
    and "\<And>x y. R x y \<longleftrightarrow> P x y \<or> Q x y"
    and "\<And>x y. Q x y \<Longrightarrow> h x y = g x y" and "\<And>x y. P x y \<Longrightarrow> \<not> Q x y \<Longrightarrow> h x y = f x y"
  shows "painted c R h m m2"
  using assms confined_trans [of c m m1 m2] by (auto simp: painted_def)

definition glyph_colour :: "console \<Rightarrow> u8 \<Rightarrow> nat \<Rightarrow> u32" where
  "glyph_colour c scanline dx = (if lit scanline dx then co_foreground c else co_background c)"

lemma draw_columns_spec:
  assumes "console_ok c" and "y < co_height c" and "\<forall>dx \<in> set dxs. x0 + dx < co_stride c"
  shows "\<exists>m'. draw_columns c x0 y scanline dxs m = Some m' \<and>
    painted c (\<lambda>x' y'. y' = y \<and> x0 \<le> x' \<and> x' - x0 \<in> set dxs)
      (\<lambda>x' _. glyph_colour c scanline (x' - x0)) m m'"
  using assms(3)
proof (induction dxs arbitrary: m)
  case Nil
  then show ?case by (auto intro: painted_none)
next
  case (Cons dx dxs)
  let ?v = "glyph_colour c scanline dx"
  let ?m = "store32 (px_addr c (y * co_stride c + (x0 + dx))) ?v m"
  have x: "x0 + dx < co_stride c" using Cons.prems by simp
  have small: "x0 + dx < 18446744073709551616"
    using index_bound [OF x assms(2)] total_small [OF assms(1)] by simp
  obtain m' where m': "draw_columns c x0 y scanline dxs ?m = Some m'"
    "painted c (\<lambda>x' y'. y' = y \<and> x0 \<le> x' \<and> x' - x0 \<in> set dxs)
      (\<lambda>x' _. glyph_colour c scanline (x' - x0)) ?m m'"
    using Cons by auto
  have "draw_columns c x0 y scanline (dx # dxs) m = Some m'"
    using m'(1) small by (simp add: put_pixel_spec assms x Let_def flip: glyph_colour_def)
  moreover have "painted c (\<lambda>x' y'. y' = y \<and> x0 \<le> x' \<and> x' - x0 \<in> set (dx # dxs))
      (\<lambda>x' _. glyph_colour c scanline (x' - x0)) m m'"
    by (rule painted_trans [OF painted_put [OF assms(1) x assms(2)] m'(2)]) auto
  ultimately show ?case by blast
qed

lemma draw_scanlines_spec:
  assumes "console_ok c" and "x0 + 8 \<le> co_stride c" and "y + length rows \<le> co_height c"
  shows "\<exists>m'. draw_scanlines c x0 y rows m = Some m' \<and>
    painted c (\<lambda>x' y'. x0 \<le> x' \<and> x' < x0 + 8 \<and> y \<le> y' \<and> y' < y + length rows)
      (\<lambda>x' y'. glyph_colour c (rows ! (y' - y)) (x' - x0)) m m'"
  using assms(3)
proof (induction rows arbitrary: y m)
  case Nil
  then show ?case by (auto intro: painted_none)
next
  case (Cons r rows)
  have y: "y < co_height c" using Cons.prems by simp
  have small: "y < 18446744073709551616"
    using index_bound [OF _ y, of 0] assms(2) total_small [OF assms(1)]
    by (cases "co_stride c") auto
  obtain m1 where m1: "draw_columns c x0 y r [0..<8] m = Some m1"
    "painted c (\<lambda>x' y'. y' = y \<and> x0 \<le> x' \<and> x' - x0 \<in> set [0..<8])
      (\<lambda>x' _. glyph_colour c r (x' - x0)) m m1"
    using draw_columns_spec [OF assms(1) y, of "[0..<8]" x0 r m] assms(2) by fastforce
  obtain m' where m': "draw_scanlines c x0 (y + 1) rows m1 = Some m'"
    "painted c (\<lambda>x' y'. x0 \<le> x' \<and> x' < x0 + 8 \<and> y + 1 \<le> y' \<and> y' < y + 1 + length rows)
      (\<lambda>x' y'. glyph_colour c (rows ! (y' - (y + 1))) (x' - x0)) m1 m'"
    using Cons.IH [of "y + 1" m1] Cons.prems by auto
  have "draw_scanlines c x0 y (r # rows) m = Some m'"
    using m1(1) m'(1) small by (simp add: GLYPH_WIDTH_def)
  moreover have "painted c
      (\<lambda>x' y'. x0 \<le> x' \<and> x' < x0 + 8 \<and> y \<le> y' \<and> y' < y + length (r # rows))
      (\<lambda>x' y'. glyph_colour c ((r # rows) ! (y' - y)) (x' - x0)) m m'"
    by (rule painted_trans [OF m1(2) m'(2)]) (auto simp: nth_Cons')
  ultimately show ?case by blast
qed

lemma origin_bounds:
  assumes "console_ok c" and "j < co_columns c" and "i < co_rows c"
  shows "j * 8 + 8 \<le> co_width c" and "i * 16 + 16 \<le> co_height c"
proof -
  have "(j + 1) * 8 \<le> co_width c div 8 * 8" "(i + 1) * 16 \<le> co_height c div 16 * 16"
    using assms by (auto simp: console_ok_def intro!: mult_le_mono1)
  moreover have "co_width c div 8 * 8 \<le> co_width c" "co_height c div 16 * 16 \<le> co_height c"
    by (rule div_times_less_eq_dividend)+
  ultimately show "j * 8 + 8 \<le> co_width c" and "i * 16 + 16 \<le> co_height c"
    unfolding add_mult_distrib by linarith+
qed

lemma small_coords:
  assumes "console_ok c"
  shows "co_stride c < 4611686018427387904" and "co_height c < 4611686018427387904"
proof -
  have "co_stride c * 1 \<le> co_total c" "1 * co_height c \<le> co_total c"
    using assms unfolding co_total_def console_ok_def by (intro mult_le_mono; linarith)+
  then show "co_stride c < 4611686018427387904" and "co_height c < 4611686018427387904"
    using total_small [OF assms] by linarith+
qed

lemma row_small:
  assumes "console_ok c"
  shows "co_row c + 1 < 18446744073709551616"
proof -
  have "co_row c < co_height c div 16" using assms by (simp add: console_ok_def)
  also have "\<dots> \<le> co_height c" by (rule div_le_dividend)
  finally show ?thesis using small_coords(2) [OF assms] by linarith
qed

lemma draw_glyph_spec:
  assumes ok: "console_ok c" and col: "co_column c < co_columns c"
  shows "\<exists>m'. draw_glyph c b m = Some m' \<and>
    painted c (\<lambda>x y. x div 8 = co_column c \<and> y div 16 = co_row c)
      (\<lambda>x y. glyph_colour c (glyph b ! (y mod 16)) (x mod 8)) m m'"
proof -
  have row: "co_row c < co_rows c" using ok by (simp add: console_ok_def)
  note o = origin_bounds [OF ok col row]
  have w: "co_width c \<le> co_stride c" using ok by (simp add: console_ok_def)
  obtain m' where m': "draw_scanlines c (co_column c * 8) (co_row c * 16) (glyph b) m = Some m'"
    "painted c (\<lambda>x' y'. co_column c * 8 \<le> x' \<and> x' < co_column c * 8 + 8 \<and>
        co_row c * 16 \<le> y' \<and> y' < co_row c * 16 + length (glyph b))
      (\<lambda>x' y'. glyph_colour c (glyph b ! (y' - co_row c * 16)) (x' - co_column c * 8)) m m'"
    using draw_scanlines_spec [OF ok, of "co_column c * 8" "co_row c * 16" "glyph b" m] o w by auto
  have "draw_glyph c b m = Some m'"
    using m'(1) o w small_coords [OF ok]
    by (simp add: draw_glyph_def GLYPH_WIDTH_def GLYPH_HEIGHT_def)
  moreover have cell: "(k * n \<le> z \<and> z < k * n + n) = (z div n = k)" if "0 < n" for k n z :: nat
    using that dividend_less_div_times [of n z] div_times_less_eq_dividend [of z n]
      div_nat_eqI [of n k z]
    by (auto simp: mult.commute add.commute)
  moreover have rest: "z - k * n = z mod n" if "z div n = k" for k n z :: nat
    using that by (auto simp: minus_div_mult_eq_mod)
  have "painted c (\<lambda>x y. x div 8 = co_column c \<and> y div 16 = co_row c)
      (\<lambda>x y. glyph_colour c (glyph b ! (y mod 16)) (x mod 8)) m m'"
    using m'(2) cell [of 8 "co_column c"] cell [of 16 "co_row c"]
    by (auto simp: painted_def rest conj_assoc [symmetric])
  ultimately show ?thesis by blast
qed

section \<open>Scrolling\<close>

lemma clear_columns_spec:
  assumes "console_ok c" and "y < co_height c" and "\<forall>x \<in> set xs. x < co_stride c"
  shows "\<exists>m'. clear_columns c y xs m = Some m' \<and>
    painted c (\<lambda>x' y'. y' = y \<and> x' \<in> set xs) (\<lambda>_ _. co_background c) m m'"
  using assms(3)
proof (induction xs arbitrary: m)
  case Nil
  then show ?case by (auto intro: painted_none)
next
  case (Cons x xs)
  let ?m = "store32 (px_addr c (y * co_stride c + x)) (co_background c) m"
  have x: "x < co_stride c" using Cons.prems by simp
  obtain m' where m': "clear_columns c y xs ?m = Some m'"
    "painted c (\<lambda>x' y'. y' = y \<and> x' \<in> set xs) (\<lambda>_ _. co_background c) ?m m'"
    using Cons by auto
  have "clear_columns c y (x # xs) m = Some m'"
    using m'(1) by (simp add: put_pixel_spec assms x)
  moreover have "painted c (\<lambda>x' y'. y' = y \<and> x' \<in> set (x # xs)) (\<lambda>_ _. co_background c) m m'"
    by (rule painted_trans [OF painted_put [OF assms(1) x assms(2)] m'(2)]) auto
  ultimately show ?case by blast
qed

lemma clear_lines_spec:
  assumes "console_ok c" and "\<forall>y \<in> set ys. y < co_height c"
  shows "\<exists>m'. clear_lines c ys m = Some m' \<and>
    painted c (\<lambda>x' y'. y' \<in> set ys \<and> x' < co_width c) (\<lambda>_ _. co_background c) m m'"
  using assms(2)
proof (induction ys arbitrary: m)
  case Nil
  then show ?case by (auto intro: painted_none)
next
  case (Cons y ys)
  have "\<forall>x \<in> set [0..<co_width c]. x < co_stride c" using assms(1) by (auto simp: console_ok_def)
  then obtain m1 where m1: "clear_columns c y [0..<co_width c] m = Some m1"
    "painted c (\<lambda>x' y'. y' = y \<and> x' \<in> set [0..<co_width c]) (\<lambda>_ _. co_background c) m m1"
    using clear_columns_spec [OF assms(1), of y "[0..<co_width c]" m] Cons.prems by auto
  obtain m' where m': "clear_lines c ys m1 = Some m'"
    "painted c (\<lambda>x' y'. y' \<in> set ys \<and> x' < co_width c) (\<lambda>_ _. co_background c) m1 m'"
    using Cons by auto
  have "painted c (\<lambda>x' y'. y' \<in> set (y # ys) \<and> x' < co_width c) (\<lambda>_ _. co_background c) m m'"
    by (rule painted_trans [OF m1(2) m'(2)]) auto
  then show ?case using m1(1) m'(1) by auto
qed

text \<open>The move, pixel by pixel: every line but the last sixteen takes the one sixteen below.\<close>

lemma move_pixels_at:
  assumes ok: "console_ok c" and x: "x < co_stride c" and y: "y < co_height c"
  shows "at c (move_pixels (fb_addr (co_framebuffer c)) (16 * co_stride c)
      (co_total c - 16 * co_stride c) m) x y =
    (if y + 16 < co_height c then at c m x (y + 16) else at c m x y)"
proof -
  let ?base = "fb_addr (co_framebuffer c)"
  let ?i = "y * co_stride c + x"
  let ?m' = "move_pixels ?base (16 * co_stride c) (co_total c - 16 * co_stride c) m"
  have i: "?i < co_total c" by (rule index_bound [OF x y])
  have moves: "?i < co_total c - 16 * co_stride c \<longleftrightarrow> y + 16 < co_height c"
  proof
    assume "y + 16 < co_height c"
    then have "(y + 16) * co_stride c + x < co_total c" by (rule index_bound [OF x])
    then show "?i < co_total c - 16 * co_stride c" by (simp add: algebra_simps)
  next
    assume a: "?i < co_total c - 16 * co_stride c"
    have "(y + 16) * co_stride c < co_height c * co_stride c"
      using a by (simp add: co_total_def algebra_simps)
    then show "y + 16 < co_height c" by simp
  qed
  have shift: "px_addr c ?i + of_nat (4 * (16 * co_stride c)) = px_addr c ((y + 16) * co_stride c + x)"
    by (simp add: px_addr_def algebra_simps)
  have block: "4 * k + j < 4 * l \<longleftrightarrow> k < l" if "j < 4" for j k l :: nat using that by arith
  have byte: "?m' (px_addr c ?i + of_nat j) =
      (if y + 16 < co_height c then m (px_addr c ((y + 16) * co_stride c + x) + of_nat j)
       else m (px_addr c ?i + of_nat j))" if "j < 4" for j
  proof -
    have "px_addr c ?i + of_nat j - ?base = of_nat (4 * ?i + j)" by (simp add: px_addr_def)
    moreover have "4 * ?i + j < 2 ^ 64" using i that ok by (simp add: console_ok_def)
    ultimately have "unat (px_addr c ?i + of_nat j - ?base) = 4 * ?i + j"
      by (simp add: unat_of_nat del: of_nat_add of_nat_mult)
    moreover have "4 * ?i + j < 4 * (co_total c - 16 * co_stride c) \<longleftrightarrow> y + 16 < co_height c"
      unfolding moves [symmetric] by (rule block [OF that])
    ultimately show ?thesis
      by (simp add: move_pixels_def shift [symmetric] add.assoc add.commute [of "of_nat j"])
  qed
  show ?thesis
    using byte [of 0] byte [of 1] byte [of 2] byte [of 3] by (simp add: at_def load32_def)
qed

lemma move_pixels_confined:
  assumes "console_ok c"
  shows "confined c m (move_pixels (fb_addr (co_framebuffer c)) k (co_total c - j) m)"
  unfolding confined_def move_pixels_def by auto

lemma copy_pixels_inside:
  assumes "console_ok c" and "shift + n \<le> co_total c"
  shows "copy_pixels c shift n m = Some (move_pixels (fb_addr (co_framebuffer c)) shift n m)"
  using assms by (simp add: copy_pixels_def console_ok_def Let_def)

lemma scroll_spec:
  assumes ok: "console_ok c"
  shows "\<exists>m'. scroll c m = Some m' \<and> confined c m m' \<and>
    (\<forall>x y. x < co_width c \<longrightarrow> y < co_height c \<longrightarrow>
       at c m' x y = (if y + 16 < co_height c then at c m x (y + 16) else co_background c))"
proof -
  let ?m1 = "move_pixels (fb_addr (co_framebuffer c)) (16 * co_stride c)
    (co_total c - 16 * co_stride c) m"
  have h: "16 \<le> co_height c" and w: "co_width c \<le> co_stride c"
    using ok by (auto simp: console_ok_def)
  have t: "co_height c * co_stride c = co_total c" by (simp add: co_total_def mult.commute)
  have le: "16 * co_stride c \<le> co_total c" using h by (simp add: co_total_def mult.commute)
  obtain m' where m': "clear_lines c [co_height c - 16..<co_height c] ?m1 = Some m'"
    "painted c (\<lambda>x' y'. y' \<in> set [co_height c - 16..<co_height c] \<and> x' < co_width c)
      (\<lambda>_ _. co_background c) ?m1 m'"
    using clear_lines_spec [OF ok, of "[co_height c - 16..<co_height c]" ?m1] by auto
  have "scroll c m = Some m'"
    using m'(1) le h total_small [OF ok] by (simp add: scroll_def GLYPH_HEIGHT_def t copy_pixels_inside [OF ok])
  moreover have "confined c m m'"
    using move_pixels_confined [OF ok] m'(2) confined_trans unfolding painted_def by blast
  moreover have "at c m' x y = (if y + 16 < co_height c then at c m x (y + 16) else co_background c)"
    if "x < co_width c" "y < co_height c" for x y
  proof -
    have x: "x < co_stride c" using that w by simp
    show ?thesis
      using painted_at [OF m'(2) x that(2)] move_pixels_at [OF ok x that(2), of m] that h by auto
  qed
  ultimately show ?thesis by blast
qed

section \<open>The terminal\<close>

text \<open>
  The specification: a grid of characters with a cursor. A blank cell is a space, whose glyph
  has no lit pixel.
\<close>

record terminal =
  tm_column :: nat
  tm_row :: nat
  tm_cells :: "nat \<Rightarrow> nat \<Rightarrow> u8"

definition blank_terminal :: terminal where
  "blank_terminal = \<lparr>tm_column = 0, tm_row = 0, tm_cells = \<lambda>_ _. 0x20\<rparr>"

definition tm_newline :: "nat \<Rightarrow> terminal \<Rightarrow> terminal" where
  "tm_newline rows t =
     (if tm_row t + 1 < rows then t\<lparr>tm_column := 0, tm_row := tm_row t + 1\<rparr>
      else t\<lparr>tm_column := 0,
        tm_cells := \<lambda>i j. if i + 1 < rows then tm_cells t (i + 1) j else 0x20\<rparr>)"

definition tm_put :: "u8 \<Rightarrow> terminal \<Rightarrow> terminal" where
  "tm_put b t = t\<lparr>tm_column := tm_column t + 1,
     tm_cells := \<lambda>i j. if i = tm_row t \<and> j = tm_column t then b else tm_cells t i j\<rparr>"

definition tm_write :: "nat \<Rightarrow> nat \<Rightarrow> u8 \<Rightarrow> terminal \<Rightarrow> terminal" where
  "tm_write columns rows b t =
     (if b = 0x0a then tm_newline rows t
      else if b = 0x0d then t
      else tm_put b (if columns \<le> tm_column t then tm_newline rows t else t))"

definition cell_colour :: "console \<Rightarrow> (nat \<Rightarrow> nat \<Rightarrow> u8) \<Rightarrow> nat \<Rightarrow> nat \<Rightarrow> u32" where
  "cell_colour c cells x y =
     (if x div 8 < co_columns c \<and> y div 16 < co_rows c
      then glyph_colour c (glyph (cells (y div 16) (x div 8)) ! (y mod 16)) (x mod 8)
      else co_background c)"

text \<open>
  Every visible pixel is the one of its character cell; the margins right of the last column and
  below the last row are background.
\<close>

definition shows_cells :: "console \<Rightarrow> pixels \<Rightarrow> (nat \<Rightarrow> nat \<Rightarrow> u8) \<Rightarrow> bool" where
  "shows_cells c m cells \<longleftrightarrow>
     (\<forall>x y. x < co_width c \<longrightarrow> y < co_height c \<longrightarrow> at c m x y = cell_colour c cells x y)"

definition console_shows :: "console \<Rightarrow> pixels \<Rightarrow> terminal \<Rightarrow> bool" where
  "console_shows c m t \<longleftrightarrow> console_ok c \<and> co_column c = tm_column t \<and> co_row c = tm_row t \<and>
     shows_cells c m (tm_cells t)"

text \<open>Only the cursor of a console changes.\<close>

definition same_surface :: "console \<Rightarrow> console \<Rightarrow> bool" where
  "same_surface c c' \<longleftrightarrow> (\<exists>i j. c' = c\<lparr>co_column := j, co_row := i\<rparr>)"

lemma same_surface_refl [simp, intro]: "same_surface c c"
  unfolding same_surface_def by (intro exI [of _ "co_row c"] exI [of _ "co_column c"]) simp

lemma same_surface_update [simp, intro]:
  "same_surface c (c\<lparr>co_column := j\<rparr>)" "same_surface c (c\<lparr>co_column := j, co_row := i\<rparr>)"
  unfolding same_surface_def
  by (intro exI [of _ "co_row c"] exI [of _ j]; simp) (intro exI; simp)

lemma same_surface_trans: "same_surface c c1 \<Longrightarrow> same_surface c1 c2 \<Longrightarrow> same_surface c c2"
  unfolding same_surface_def by (elim exE) (simp, blast)

lemma same_surface_eqs:
  assumes "same_surface c c'"
  shows "confined c' = confined c" and "co_columns c' = co_columns c" and "co_rows c' = co_rows c"
    and "co_framebuffer c' = co_framebuffer c" and "co_total c' = co_total c"
  using assms unfolding same_surface_def by (elim exE; simp add: confined_def [abs_def])+

lemma cell_colour_update [simp]:
  "cell_colour (c\<lparr>co_column := j\<rparr>) = cell_colour c" "cell_colour (c\<lparr>co_row := i\<rparr>) = cell_colour c"
  by (auto simp: cell_colour_def glyph_colour_def fun_eq_iff)

lemma shows_cells_update [simp]:
  "shows_cells (c\<lparr>co_column := j\<rparr>) = shows_cells c" "shows_cells (c\<lparr>co_row := i\<rparr>) = shows_cells c"
  by (auto simp: shows_cells_def fun_eq_iff)

lemma lit_blank [simp]: "\<not> lit 0 dx"
  by (simp add: lit_def)

lemma glyph_colour_space [simp]: "k < 16 \<Longrightarrow> glyph_colour c (glyph 0x20 ! k) dx = co_background c"
  by (simp add: glyph_colour_def glyph_space)

lemma shows_cells_scrolled:
  assumes ok: "console_ok c"
    and at': "\<And>x y. x < co_width c \<Longrightarrow> y < co_height c \<Longrightarrow>
      at c m' x y = (if y + 16 < co_height c then at c m x (y + 16) else co_background c)"
    and cells: "shows_cells c m cells"
  shows "shows_cells c m' (\<lambda>i j. if i + 1 < co_rows c then cells (i + 1) j else 0x20)"
proof -
  have rows: "co_rows c = co_height c div 16" using ok by (simp add: console_ok_def)
  have "at c m' x y =
      cell_colour c (\<lambda>i j. if i + 1 < co_rows c then cells (i + 1) j else 0x20) x y"
    if "x < co_width c" "y < co_height c" for x y
  proof (cases "y + 16 < co_height c")
    case True
    then have "at c m' x y = cell_colour c cells x (y + 16)"
      using at' [OF that] cells that by (simp add: shows_cells_def)
    moreover have d: "(y + 16) div 16 = Suc (y div 16)" by simp
    moreover have "\<not> y div 16 + 1 < co_rows c \<Longrightarrow> y div 16 < co_rows c \<Longrightarrow>
        cell_colour c cells x (y + 16) = co_background c"
      by (simp add: cell_colour_def d)
    ultimately show ?thesis by (auto simp: cell_colour_def)
  next
    case False
    then have "\<not> (y + 16) div 16 < co_rows c"
      unfolding rows using div_le_mono [of "co_height c" "y + 16" 16] by linarith
    then show ?thesis using at' [OF that] False by (auto simp: cell_colour_def)
  qed
  then show ?thesis by (simp add: shows_cells_def)
qed

text \<open>
  Each operation returns and stays in the framebuffer whatever the memory holds, and acts on the
  grid as the terminal does when the memory shows one.
\<close>

definition acts_as ::
    "console \<times> pixels \<Rightarrow> (terminal \<Rightarrow> terminal) \<Rightarrow> console \<times> pixels \<Rightarrow> bool" where
  "acts_as s f s' \<longleftrightarrow> console_ok (fst s') \<and> same_surface (fst s) (fst s') \<and>
     confined (fst s) (snd s) (snd s') \<and>
     (\<forall>t. console_shows (fst s) (snd s) t \<longrightarrow> console_shows (fst s') (snd s') (f t))"

lemma acts_as_trans:
  assumes "acts_as s f s1" and "acts_as s1 g s2"
  shows "acts_as s (\<lambda>t. g (f t)) s2"
proof -
  have c: "same_surface (fst s) (fst s1)" using assms(1) by (simp add: acts_as_def)
  then have "confined (fst s1) = confined (fst s)" by (rule same_surface_eqs)
  then show ?thesis using assms same_surface_trans [OF c] confined_trans
    unfolding acts_as_def by auto
qed

lemma newline_acts:
  assumes ok: "console_ok c"
  shows "\<exists>s'. newline c m = Some s' \<and> acts_as (c, m) (tm_newline (co_rows c)) s' \<and> co_column (fst s') = 0"
proof (cases "co_row c + 1 < co_rows c")
  case True
  let ?c = "c\<lparr>co_column := 0, co_row := co_row c + 1\<rparr>"
  have "newline c m = Some (?c, m)"
    using True row_small [OF ok] by (simp add: newline_def)
  moreover have "acts_as (c, m) (tm_newline (co_rows c)) (?c, m)"
    using ok True by (auto simp: acts_as_def console_shows_def tm_newline_def console_ok_def)
  ultimately show ?thesis by (intro exI conjI) auto
next
  case False
  let ?c = "c\<lparr>co_column := 0\<rparr>"
  have ok': "console_ok ?c" using ok by (simp add: console_ok_def)
  obtain m' where m': "scroll ?c m = Some m'" "confined ?c m m'"
    "\<And>x y. x < co_width c \<Longrightarrow> y < co_height c \<Longrightarrow>
      at c m' x y = (if y + 16 < co_height c then at c m x (y + 16) else co_background c)"
    using scroll_spec [OF ok', of m] by auto
  have "newline c m = Some (?c, m')"
    using False row_small [OF ok] m'(1) by (simp add: newline_def)
  moreover have "confined c m m'" using m'(2) by (simp add: confined_def)
  then have "acts_as (c, m) (tm_newline (co_rows c)) (?c, m')"
    using shows_cells_scrolled [OF ok m'(3)] False ok'
    by (auto simp: acts_as_def console_shows_def tm_newline_def)
  ultimately show ?thesis by (intro exI conjI) auto
qed

lemma draw_glyph_acts:
  assumes ok: "console_ok c" and col: "co_column c < co_columns c"
  shows "\<exists>m'. draw_glyph c b m = Some m' \<and>
    acts_as (c, m) (tm_put b) (c\<lparr>co_column := co_column c + 1\<rparr>, m')"
proof -
  have row: "co_row c < co_rows c" and w: "co_width c \<le> co_stride c"
    using ok by (auto simp: console_ok_def)
  obtain m' where m': "draw_glyph c b m = Some m'"
    "painted c (\<lambda>x y. x div 8 = co_column c \<and> y div 16 = co_row c)
      (\<lambda>x y. glyph_colour c (glyph b ! (y mod 16)) (x mod 8)) m m'"
    using draw_glyph_spec [OF ok col] by blast
  have "shows_cells c m' (tm_cells (tm_put b t))" if t: "console_shows c m t" for t
  proof -
    have cursor: "tm_column t = co_column c" "tm_row t = co_row c" and cells: "shows_cells c m (tm_cells t)"
      using t by (auto simp: console_shows_def)
    have "at c m' x y = cell_colour c (tm_cells (tm_put b t)) x y"
      if "x < co_width c" "y < co_height c" for x y
      using painted_at [OF m'(2), of x y] that w cells row col
      by (auto simp: shows_cells_def cell_colour_def tm_put_def cursor)
    then show ?thesis by (simp add: shows_cells_def)
  qed
  then show ?thesis
    using m' ok col
    by (auto simp: acts_as_def painted_def console_shows_def tm_put_def console_ok_def)
qed

lemma write_byte_acts:
  assumes ok: "console_ok c"
  shows "\<exists>s'. console_write_byte b c m = Some s' \<and>
    acts_as (c, m) (tm_write (co_columns c) (co_rows c) b) s'"
proof (cases "b = 0x0a \<or> b = 0x0d")
  case True
  have "acts_as (c, m) (\<lambda>t. t) (c, m)" using ok by (simp add: acts_as_def)
  then show ?thesis
    using True newline_acts [OF ok, of m]
    by (auto simp: console_write_byte_def tm_write_def [abs_def])
next
  case False
  let ?f = "\<lambda>t. if co_columns c \<le> tm_column t then tm_newline (co_rows c) t else t"
  let ?pre = "if co_columns c \<le> co_column c then newline c m else Some (c, m)"
  have pos: "0 < co_columns c" using ok by (simp add: console_ok_def div_greater_zero_iff)
  have "\<exists>c1 m1. ?pre = Some (c1, m1) \<and> acts_as (c, m) ?f (c1, m1) \<and> co_column c1 < co_columns c1"
  proof (cases "co_columns c \<le> co_column c")
    case True
    obtain c1 m1 where n: "newline c m = Some (c1, m1)"
      "acts_as (c, m) (tm_newline (co_rows c)) (c1, m1)" "co_column c1 = 0"
      using newline_acts [OF ok, of m] by auto
    have "co_columns c1 = co_columns c"
      using n(2) same_surface_eqs(2) by (auto simp: acts_as_def)
    then show ?thesis using n True pos by (auto simp: acts_as_def console_shows_def)
  next
    case False
    then show ?thesis using ok by (auto simp: acts_as_def console_shows_def)
  qed
  then obtain c1 m1 where pre: "?pre = Some (c1, m1)" and t: "acts_as (c, m) ?f (c1, m1)"
    and col: "co_column c1 < co_columns c1" by blast
  have ok1: "console_ok c1" using t by (simp add: acts_as_def)
  obtain m' where m': "draw_glyph c1 b m1 = Some m'"
    "acts_as (c1, m1) (tm_put b) (c1\<lparr>co_column := co_column c1 + 1\<rparr>, m')"
    using draw_glyph_acts [OF ok1 col] by blast
  have "co_column c1 + 1 < 18446744073709551616"
    using col small_coords(1) [OF ok1] ok1 by (auto simp: console_ok_def)
  then have "console_write_byte b c m = Some (c1\<lparr>co_column := co_column c1 + 1\<rparr>, m')"
    using False pre m'(1) by (simp add: console_write_byte_def)
  moreover have "tm_write (co_columns c) (co_rows c) b = (\<lambda>t. tm_put b (?f t))"
    using False by (auto simp: tm_write_def)
  ultimately show ?thesis using acts_as_trans [OF t m'(2)] by auto
qed

lemma write_bytes_act:
  assumes "console_ok c"
  shows "\<exists>c' m'. write_bytes_screen bs \<lparr>sc_CONSOLE = Some c, sc_pixels = m\<rparr> =
      Some \<lparr>sc_CONSOLE = Some c', sc_pixels = m'\<rparr> \<and>
    acts_as (c, m) (fold (tm_write (co_columns c) (co_rows c)) bs) (c', m')"
  using assms
proof (induction bs arbitrary: c m)
  case Nil
  then show ?case by (simp add: acts_as_def)
next
  case (Cons b bs)
  obtain c1 m1 where 1: "console_write_byte b c m = Some (c1, m1)"
    "acts_as (c, m) (tm_write (co_columns c) (co_rows c) b) (c1, m1)"
    using write_byte_acts [OF Cons.prems, of b m] by (auto simp del: split_paired_Ex) 
  have "console_ok c1" "co_columns c1 = co_columns c" "co_rows c1 = co_rows c"
    using 1(2) same_surface_eqs(2,3) by (auto simp: acts_as_def)
  then obtain c' m' where 2: "write_bytes_screen bs \<lparr>sc_CONSOLE = Some c1, sc_pixels = m1\<rparr> =
      Some \<lparr>sc_CONSOLE = Some c', sc_pixels = m'\<rparr>"
    "acts_as (c1, m1) (fold (tm_write (co_columns c) (co_rows c)) bs) (c', m')"
    using Cons.IH [of c1 m1] by auto
  show ?case
    using 1(1) 2(1) acts_as_trans [OF 1(2) 2(2)] by (auto simp: write_byte_def comp_def)
qed

lemma confined_span:
  assumes "console_ok c" and "confined c m m'" and "m' a \<noteq> m a"
  shows "unat (fb_addr (co_framebuffer c)) \<le> unat a"
    and "unat a < unat (fb_addr (co_framebuffer c)) + unat (fb_size (co_framebuffer c))"
proof -
  let ?base = "fb_addr (co_framebuffer c)"
  have k: "unat (a - ?base) < 4 * co_total c" using assms(2,3) by (auto simp: confined_def)
  have "unat ?base + unat (a - ?base) < 2 ^ 64" using k assms(1) by (simp add: console_ok_def)
  then have "unat (?base + (a - ?base)) = unat ?base + unat (a - ?base)" by (intro unat_add_small) simp
  then have "unat a = unat ?base + unat (a - ?base)" by simp
  moreover have "4 * co_total c \<le> unat (fb_size (co_framebuffer c))"
    using assms(1) by (simp add: console_ok_def)
  ultimately show "unat ?base \<le> unat a" and "unat a < unat ?base + unat (fb_size (co_framebuffer c))"
    using k by linarith+
qed

section \<open>Properties\<close>

text \<open>A cleared screen, as \<open>fill_screen\<close> leaves it, shows the blank terminal.\<close>

definition cleared :: "console \<Rightarrow> pixels \<Rightarrow> bool" where
  "cleared c m \<longleftrightarrow>
     (\<forall>x y. x < co_width c \<longrightarrow> y < co_height c \<longrightarrow> at c m x y = co_background c)"

lemma cleared_shows_blank:
  assumes "console_new fb = Some c" and "cleared c m"
  shows "console_shows c m blank_terminal"
  using assms console_new_Some [OF assms(1)]
  by (auto simp: console_shows_def blank_terminal_def cleared_def shows_cells_def cell_colour_def)

lemma console_new_size:
  assumes "console_new fb = Some c"
  shows "co_columns c = unat (fb_width fb) div 8" and "co_rows c = unat (fb_height fb) div 16"
  using console_new_Some [OF assms] by (auto simp: console_ok_def co_width_def co_height_def)

definition demo_fb :: frame_buffer_info where
  "demo_fb = frame_buffer_info_new 0x1000 2560 16 32 20 4 Bgr"

definition demo_console :: console where
  "demo_console = \<lparr>co_framebuffer = demo_fb, co_column = 0, co_row = 0, co_columns = 2, co_rows = 2,
     co_foreground = pack Bgr 0xE0 0xE0 0xE0, co_background = pack Bgr 0x00 0x33 0x99\<rparr>"

lemma demo_console_new: "console_new demo_fb = Some demo_console"
  by (simp add: console_new_def demo_console_def demo_fb_def frame_buffer_info_new_def
      fb_pixel_format_def GLYPH_WIDTH_def GLYPH_HEIGHT_def Let_def pixel_format_from_u32_def
      pixel_format_as_u32_def)

definition demo_pixels :: pixels where
  "demo_pixels a = [0x99, 0x33, 0x00, 0x00] ! (unat a mod 4)"

lemma demo_cleared: "cleared demo_console demo_pixels"
proof -
  have ok: "console_ok demo_console" by (rule console_new_Some(1) [OF demo_console_new])
  have "load32 demo_pixels (px_addr demo_console i) = 0x3399" if "i < co_total demo_console" for i
  proof -
    have p: "unat (px_addr demo_console i) = 4096 + 4 * i"
      using px_addr_unat [OF ok that] by (simp add: demo_console_def demo_fb_def frame_buffer_info_new_def)
    have "i < 640"
      using that by (simp add: co_total_def co_stride_def co_height_def demo_console_def demo_fb_def
          frame_buffer_info_new_def)
    then have *: "unat (px_addr demo_console i + of_nat j) = 4 * (1024 + i) + j" if "j < 4" for j
      using that p unat_add_small [of "px_addr demo_console i" "of_nat j"] by (simp add: unat_of_nat)
    have "demo_pixels (px_addr demo_console i + of_nat j) = [0x99, 0x33, 0x00, 0x00] ! j" if "j < 4" for j
      unfolding demo_pixels_def *[OF that] using that by (simp add: mod_add_left_eq [symmetric])
    from this [of 0] this [of 1] this [of 2] this [of 3] show ?thesis
      by (simp add: load32_def)
  qed
  moreover have "co_background demo_console = 0x3399" by (simp add: demo_console_def pack_def)
  moreover have "co_width demo_console \<le> co_stride demo_console" using ok by (simp add: console_ok_def)
  ultimately show ?thesis using index_bound [of _ demo_console] by (simp add: cleared_def at_def)
qed

text \<open>
  C18. Refinement: on a cleared screen, writing any byte string to an initialised console returns,
  and the visible pixels are then exactly the glyphs of the grid a terminal of width/8 columns and
  height/16 rows holds after the same bytes - wrapping at the right edge, starting a new line on a
  newline, ignoring carriage returns, and scrolling at the bottom - with the cursor where the
  terminal has it.
\<close>

theorem console_refines_terminal:
  assumes "console_new fb = Some c" and "cleared c m"
  shows "\<exists>c' m'. write_bytes_screen bs \<lparr>sc_CONSOLE = Some c, sc_pixels = m\<rparr> =
      Some \<lparr>sc_CONSOLE = Some c', sc_pixels = m'\<rparr> \<and>
    console_shows c' m'
      (fold (tm_write (unat (fb_width fb) div 8) (unat (fb_height fb) div 16)) bs blank_terminal)"
  using write_bytes_act [OF console_new_Some(1) [OF assms(1)], of bs m] cleared_shows_blank [OF assms]
  unfolding console_new_size [OF assms(1)] acts_as_def by force

theorem console_refines_terminal_witness:
  "\<exists>c' m'. write_bytes_screen [0x48, 0x0a, 0x69]
      \<lparr>sc_CONSOLE = Some demo_console, sc_pixels = demo_pixels\<rparr> =
      Some \<lparr>sc_CONSOLE = Some c', sc_pixels = m'\<rparr> \<and>
    console_shows c' m' (fold (tm_write (unat (fb_width demo_fb) div 8) (unat (fb_height demo_fb) div 16))
      [0x48, 0x0a, 0x69] blank_terminal)"
  by (rule console_refines_terminal [OF demo_console_new demo_cleared])

text \<open>
  C19. Safety: once \<open>Console::new\<close> has accepted a framebuffer description, no byte string, on no
  screen contents, makes the console panic, write outside the framebuffer's reported bytes, or
  read outside them: the one routine that reads video memory is the scroll's copy, which has a
  result only when its source and destination lie in those bytes (\<open>copy_pixels\<close>).
\<close>

theorem console_stays_in_framebuffer:
  assumes "console_new fb = Some c"
  shows "\<exists>c' m'. write_bytes_screen bs \<lparr>sc_CONSOLE = Some c, sc_pixels = m\<rparr> =
      Some \<lparr>sc_CONSOLE = Some c', sc_pixels = m'\<rparr> \<and>
    (\<forall>a. m' a = m a \<or> (unat (fb_addr fb) \<le> unat a \<and> unat a < unat (fb_addr fb) + unat (fb_size fb)))"
proof -
  note ok = console_new_Some [OF assms]
  obtain c' m' where r: "write_bytes_screen bs \<lparr>sc_CONSOLE = Some c, sc_pixels = m\<rparr> =
      Some \<lparr>sc_CONSOLE = Some c', sc_pixels = m'\<rparr>" and f: "confined c m m'"
    using write_bytes_act [OF ok(1), of bs m] by (auto simp: acts_as_def)
  have "m' a = m a \<or> (unat (fb_addr fb) \<le> unat a \<and> unat a < unat (fb_addr fb) + unat (fb_size fb))" for a
    using confined_span [OF ok(1) f] unfolding ok(2) by blast
  then show ?thesis using r by blast
qed

theorem console_stays_in_framebuffer_witness:
  "\<exists>c' m'. write_bytes_screen [0x48, 0x0a, 0x69, 0x0a]
      \<lparr>sc_CONSOLE = Some demo_console, sc_pixels = \<lambda>_. 7\<rparr> =
      Some \<lparr>sc_CONSOLE = Some c', sc_pixels = m'\<rparr> \<and>
    (\<forall>a. m' a = 7 \<or> (unat (fb_addr demo_fb) \<le> unat a \<and>
      unat a < unat (fb_addr demo_fb) + unat (fb_size demo_fb)))"
  by (rule console_stays_in_framebuffer [OF demo_console_new])

text \<open>
  The validation in \<open>Console::new\<close> is exact: it accepts a description precisely when the pixel
  format is known, the address is a non-null multiple of four, a pixel is four bytes, a scanline
  holds the width, at least one character cell fits, and all stride * height pixels fit in the
  reported size and below the end of the address space; overflow of the products never slips
  through.
\<close>

theorem console_new_accepts:
  "(\<exists>c. console_new fb = Some c) \<longleftrightarrow>
     fb_pixel_format fb \<noteq> None \<and> fb_addr fb \<noteq> 0 \<and> 4 dvd unat (fb_addr fb) \<and>
     fb_bytes_per_pixel fb = 4 \<and> fb_width fb \<le> fb_stride fb \<and>
     8 \<le> fb_width fb \<and> 16 \<le> fb_height fb \<and>
     4 * (unat (fb_stride fb) * unat (fb_height fb)) \<le> unat (fb_size fb) \<and>
     unat (fb_addr fb) + 4 * (unat (fb_stride fb) * unat (fb_height fb)) < 2 ^ 64"
proof -
  let ?s = "unat (fb_stride fb) * unat (fb_height fb)"
  have "usize_val s = Some s \<and> usize_val (s * 4) = Some (s * 4)" if "4 * s \<le> unat (fb_size fb)" for s
    using le_less_trans [OF that unat_u64_bound] by (simp add: usize_val_def)
  moreover have "usize_val ?s \<noteq> None \<Longrightarrow> usize_val ?s = Some ?s"
    and "usize_val (?s * 4) \<noteq> None \<Longrightarrow> usize_val (?s * 4) = Some (?s * 4)"
    by (auto simp: usize_val_Some)
  ultimately show ?thesis
    by (cases "fb_pixel_format fb"; cases "usize_val ?s"; cases "usize_val (?s * 4)")
      (auto simp: console_new_def Let_def GLYPH_WIDTH_def GLYPH_HEIGHT_def to_nat
        mod_eq_0_unat dvd_eq_mod_eq_0 mult.commute)
qed

end
