(* ===== verification/Serial.thy ===== *)
theory Serial
  imports Ports Kernel_Heap Console_Props
begin

unbundle bit_operations_syntax

text \<open>
  The COM1 driver and the kernel's print path (kernel/src/serial.rs). \<open>_print\<close> is modelled on the
  bytes its formatted arguments come to; the state is the processor flags, the UART behind the
  ports and the screen.
\<close>

section \<open>Model\<close>

record 'd kernel_io = heap_state +
  ki_dev :: 'd
  ki_screen :: screen

definition COM1 :: u16 where "COM1 = 0x3F8"
definition DATA :: u16 where "DATA = 0"
definition INTERRUPT_ENABLE :: u16 where "INTERRUPT_ENABLE = 1"
definition FIFO_CONTROL :: u16 where "FIFO_CONTROL = 2"
definition LINE_CONTROL :: u16 where "LINE_CONTROL = 3"
definition MODEM_CONTROL :: u16 where "MODEM_CONTROL = 4"
definition LINE_STATUS :: u16 where "LINE_STATUS = 5"
definition LINE_STATUS_THR_EMPTY :: u8 where "LINE_STATUS_THR_EMPTY = 0x20"

definition serial_init :: "'d ports \<Rightarrow> 'd \<Rightarrow> 'd" where
  "serial_init p d =
     (let d = outb p (COM1 + INTERRUPT_ENABLE) 0x00 d;
          d = outb p (COM1 + LINE_CONTROL) 0x80 d;
          d = outb p (COM1 + DATA) 0x03 d;
          d = outb p (COM1 + INTERRUPT_ENABLE) 0x00 d;
          d = outb p (COM1 + LINE_CONTROL) 0x03 d;
          d = outb p (COM1 + FIFO_CONTROL) 0xC7 d
      in outb p (COM1 + MODEM_CONTROL) 0x0B d)"

text \<open>The busy-wait may never end, so the writer is a partial function.\<close>

partial_function (option) uart_write :: "'d ports \<Rightarrow> u8 \<Rightarrow> 'd \<Rightarrow> 'd option" where
  "uart_write p byte d =
     (let (status, d') = inb p (COM1 + LINE_STATUS) d in
      if status AND LINE_STATUS_THR_EMPTY = 0 then uart_write p byte d'
      else Some (outb p (COM1 + DATA) byte d'))"

declare uart_write.simps [code]

text \<open>One character on both channels, and \<open>write_str\<close>.\<close>

definition put_both :: "'d ports \<Rightarrow> u8 \<Rightarrow> 'd \<times> screen \<Rightarrow> ('d \<times> screen) run" where
  "put_both p byte = (\<lambda>(d, scr). do {
     d' \<leftarrow> uart_write p byte d;
     scr' \<leftarrow> write_byte byte scr;
     Some (d', scr')
   })"

fun write_str :: "'d ports \<Rightarrow> u8 list \<Rightarrow> 'd \<times> screen \<Rightarrow> ('d \<times> screen) run" where
  "write_str p [] s = Some s"
| "write_str p (byte # s) st = do {
     st1 \<leftarrow> (if byte = 0x0a then put_both p 0x0d st else Some st);
     st2 \<leftarrow> put_both p byte st1;
     write_str p s st2
   }"

definition print :: "'d ports \<Rightarrow> u8 list \<Rightarrow> ('d, 'a) kernel_io_scheme \<Rightarrow> ('d, 'a) kernel_io_scheme run" where
  "print p args s = do {
     (_, s') \<leftarrow> without_interrupts (\<lambda>s. do {
       (d, scr) \<leftarrow> write_str p args (ki_dev s, ki_screen s);
       Some ((), s\<lparr>ki_dev := d, ki_screen := scr\<rparr>)
     }) s;
     Some s'
   }"

definition kprintln :: "'d ports \<Rightarrow> u8 list \<Rightarrow> ('d, 'a) kernel_io_scheme \<Rightarrow> ('d, 'a) kernel_io_scheme run" where
  "kprintln p args = print p (args @ [0x0a])"

section \<open>The chip\<close>

text \<open>
  The 16550 as the driver uses it. With DLAB set the first two registers are the divisor; writing
  the FIFO control register with bit 1 and 2 empties the FIFOs; \<open>ua_busy\<close> is how many more polls of
  the line status answer that the transmitter is busy.
\<close>

record uart =
  ua_dlab :: bool
  ua_line :: u8
  ua_divisor_low :: u8
  ua_divisor_high :: u8
  ua_interrupts :: u8
  ua_fifo :: u8
  ua_modem :: u8
  ua_sent :: "u8 list"
  ua_busy :: nat

definition uart_reg :: "u16 \<Rightarrow> u8 \<Rightarrow> uart \<Rightarrow> uart" where
  "uart_reg r v u =
     (if r = 0 then (if ua_dlab u then u\<lparr>ua_divisor_low := v\<rparr> else u\<lparr>ua_sent := ua_sent u @ [v]\<rparr>)
      else if r = 1 then (if ua_dlab u then u\<lparr>ua_divisor_high := v\<rparr> else u\<lparr>ua_interrupts := v\<rparr>)
      else if r = 2 then u\<lparr>ua_fifo := v\<rparr>
      else if r = 3 then u\<lparr>ua_dlab := (v AND 0x80 \<noteq> 0), ua_line := v AND 0x7f\<rparr>
      else if r = 4 then u\<lparr>ua_modem := v\<rparr>
      else u)"

text \<open>
  \<open>is_16550 p view\<close>: every register write acts on the viewed chip, whatever that does to how long
  it is busy; a poll answers whether it is, and brings it closer to ready.
\<close>

definition is_16550 :: "'d ports \<Rightarrow> ('d \<Rightarrow> uart) \<Rightarrow> bool" where
  "is_16550 p view \<longleftrightarrow>
     (\<forall>r v d. r < 8 \<longrightarrow> (\<exists>n. view (port_out p (0x3F8 + r) v d) = (uart_reg r v (view d))\<lparr>ua_busy := n\<rparr>)) \<and>
     (\<forall>d. view (snd (port_in p 0x3FD d)) = (view d)\<lparr>ua_busy := ua_busy (view d) - 1\<rparr> \<and>
       (fst (port_in p 0x3FD d) AND 0x20 = 0 \<longleftrightarrow> 0 < ua_busy (view d)))"

lemmas uart_ports = COM1_def DATA_def INTERRUPT_ENABLE_def FIFO_CONTROL_def LINE_CONTROL_def
  MODEM_CONTROL_def LINE_STATUS_def LINE_STATUS_THR_EMPTY_def

section \<open>Facts\<close>

lemma view_out:
  assumes "is_16550 p view" and "r < 8"
  shows "\<exists>n. view (outb p (0x3F8 + r) v d) = (uart_reg r v (view d))\<lparr>ua_busy := n\<rparr>"
  using assms by (simp add: is_16550_def outb_def)

text \<open>What a register write does to everything but the busy count.\<close>

definition idle :: "uart \<Rightarrow> uart" where
  "idle u = u\<lparr>ua_busy := 0\<rparr>"

lemma idle_simps [simp]:
  "ua_dlab (idle u) = ua_dlab u" "ua_sent (idle u) = ua_sent u" "ua_interrupts (idle u) = ua_interrupts u"
  by (simp_all add: idle_def)

lemma idle_out:
  assumes "is_16550 p view" and "r < 8"
  shows "idle (view (outb p (0x3F8 + r) v d)) = uart_reg r v (idle (view d))"
proof -
  obtain n where "view (outb p (0x3F8 + r) v d) = (uart_reg r v (view d))\<lparr>ua_busy := n\<rparr>"
    using view_out [OF assms] by blast
  then show ?thesis by (simp add: idle_def uart_reg_def)
qed

text \<open>The chip has sent these bytes more and is otherwise as it was.\<close>

definition sent_more :: "uart \<Rightarrow> u8 list \<Rightarrow> uart \<Rightarrow> bool" where
  "sent_more u ws u' \<longleftrightarrow> idle u' = idle (u\<lparr>ua_sent := ua_sent u @ ws\<rparr>)"

lemma sent_more_refl [simp]: "sent_more u [] u"
  by (simp add: sent_more_def)

lemma sent_more_trans: "sent_more u a v \<Longrightarrow> sent_more v b w \<Longrightarrow> sent_more u (a @ b) w"
  by (cases u; cases v; cases w) (simp add: sent_more_def idle_def)

lemma sent_more_sent: "sent_more u a v \<Longrightarrow> ua_sent v = ua_sent u @ a"
  by (cases u; cases v) (simp add: sent_more_def idle_def)

lemma sent_more_dlab: "sent_more u a v \<Longrightarrow> ua_dlab v = ua_dlab u"
  by (cases u; cases v) (simp add: sent_more_def idle_def)

lemma uart_write_sends:
  assumes "is_16550 p view" and "\<not> ua_dlab (view d)"
  shows "\<exists>d'. uart_write p b d = Some d' \<and> sent_more (view d) [b] (view d')"
  using assms(2)
proof (induction "ua_busy (view d)" arbitrary: d)
  case 0
  then have ready: "fst (port_in p 0x3FD d) AND 0x20 \<noteq> 0"
    and same: "idle (view (snd (port_in p 0x3FD d))) = idle (view d)"
    using assms(1) by (simp_all add: is_16550_def idle_def)
  let ?d = "snd (port_in p 0x3FD d)"
  have "uart_write p b d = Some (outb p 0x3F8 b ?d)"
    using ready by (subst uart_write.simps) (simp add: inb_def uart_ports Let_def split_beta)
  moreover have "sent_more (view d) [b] (view (outb p 0x3F8 b ?d))"
    unfolding sent_more_def idle_out [OF assms(1), of 0, simplified] same
    using 0 by (simp add: uart_reg_def idle_def)
  ultimately show ?case by blast
next
  case (Suc n)
  let ?d = "snd (port_in p 0x3FD d)"
  have busy: "fst (port_in p 0x3FD d) AND 0x20 = 0"
    and v: "view ?d = (view d)\<lparr>ua_busy := ua_busy (view d) - 1\<rparr>"
    using assms(1) Suc.hyps(2) unfolding is_16550_def by (metis zero_less_Suc, metis)
  have "n = ua_busy (view ?d)" "\<not> ua_dlab (view ?d)" using v Suc.hyps(2) Suc.prems by auto
  then obtain d' where "uart_write p b ?d = Some d'"
    "sent_more (view ?d) [b] (view d')"
    using Suc.hyps(1) by blast
  moreover have "uart_write p b d = uart_write p b ?d"
    using busy by (subst uart_write.simps) (simp add: inb_def uart_ports Let_def split_beta)
  ultimately show ?case using v by (auto simp: sent_more_def idle_def)
qed

lemma write_byte_cr [simp]: "write_byte 0x0d scr = Some scr"
  by (auto simp: write_byte_def console_write_byte_def split: option.splits)

definition crlf :: "u8 list \<Rightarrow> u8 list" where
  "crlf s = concat (map (\<lambda>b. if b = 0x0a then [0x0d, 0x0a] else [b]) s)"

definition screen_ok :: "screen \<Rightarrow> bool" where
  "screen_ok scr \<longleftrightarrow> (case sc_CONSOLE scr of None \<Rightarrow> True | Some c \<Rightarrow> console_ok c)"

lemma write_byte_ok:
  assumes "screen_ok scr"
  shows "\<exists>scr'. write_byte b scr = Some scr' \<and> screen_ok scr'"
proof (cases "sc_CONSOLE scr")
  case None
  then show ?thesis using assms by (simp add: write_byte_def)
next
  case (Some c)
  then have "console_ok c" using assms by (simp add: screen_ok_def)
  from write_byte_acts [OF this, of b "sc_pixels scr"] show ?thesis
    using Some by (auto simp: write_byte_def screen_ok_def acts_as_def)
qed

lemma put_both_spec:
  assumes "is_16550 p view" and "\<not> ua_dlab (view d)" and "write_byte b scr = Some scr'"
  shows "\<exists>d'. put_both p b (d, scr) = Some (d', scr') \<and>
    sent_more (view d) [b] (view d')"
  using uart_write_sends [OF assms(1,2), of b] assms(3) by (auto simp: put_both_def)

lemma crlf_Cons: "crlf (b # s) = (if b = 0x0a then [0x0d] else []) @ [b] @ crlf s"
  by (simp add: crlf_def)

lemma write_str_spec:
  assumes "is_16550 p view" and "\<not> ua_dlab (view d)" and "screen_ok scr"
  shows "\<exists>d' scr'. write_str p s (d, scr) = Some (d', scr') \<and> write_bytes_screen s scr = Some scr' \<and>
    screen_ok scr' \<and> sent_more (view d) (crlf s) (view d')"
  using assms(2,3)
proof (induction s arbitrary: d scr)
  case Nil
  then show ?case by (simp add: crlf_def)
next
  case (Cons b s)
  obtain d1 where d1: "(if b = 0x0a then put_both p 0x0d (d, scr) else Some (d, scr)) = Some (d1, scr)"
    "sent_more (view d) (if b = 0x0a then [0x0d] else []) (view d1)"
    using put_both_spec [OF assms(1) Cons.prems(1) write_byte_cr, of scr] that
    by (cases "b = 0x0a") auto
  obtain scr2 where scr2: "write_byte b scr = Some scr2" "screen_ok scr2"
    using write_byte_ok [OF Cons.prems(2)] by blast
  have dlab1: "\<not> ua_dlab (view d1)" using sent_more_dlab [OF d1(2)] Cons.prems(1) by simp
  obtain d2 where d2: "put_both p b (d1, scr) = Some (d2, scr2)" "sent_more (view d1) [b] (view d2)"
    using put_both_spec [OF assms(1) dlab1 scr2(1)] by blast
  have dlab2: "\<not> ua_dlab (view d2)" using sent_more_dlab [OF d2(2)] dlab1 by simp
  obtain d' scr' where r: "write_str p s (d2, scr2) = Some (d', scr')"
    "write_bytes_screen s scr2 = Some scr'" "screen_ok scr'" "sent_more (view d2) (crlf s) (view d')"
    using Cons.IH [OF dlab2 scr2(2)] by blast
  have "sent_more (view d) (crlf (b # s)) (view d')"
    unfolding crlf_Cons by (rule sent_more_trans [OF d1(2) sent_more_trans [OF d2(2) r(4)]])
  then show ?case using d1(1) d2(1) scr2(1) r by auto
qed

lemma print_spec:
  assumes "is_16550 p view" and "\<not> ua_dlab (view (ki_dev s))" and "screen_ok (ki_screen s)"
  shows "\<exists>d' scr'. print p args s = Some (s\<lparr>ki_dev := d', ki_screen := scr'\<rparr>) \<and>
    write_bytes_screen args (ki_screen s) = Some scr' \<and> screen_ok scr' \<and>
    sent_more (view (ki_dev s)) (crlf args) (view d')"
proof -
  have e: "ki_dev (cli s) = ki_dev s" "ki_screen (cli s) = ki_screen s" by (simp_all add: cli_def)
  obtain d' scr' where r: "write_str p args (ki_dev s, ki_screen s) = Some (d', scr')"
    "write_bytes_screen args (ki_screen s) = Some scr'" "screen_ok scr'"
    "sent_more (view (ki_dev s)) (crlf args) (view d')"
    using write_str_spec [OF assms] by blast
  have "without_interrupts (\<lambda>s. do {
       (d, scr) \<leftarrow> write_str p args (ki_dev s, ki_screen s);
       Some ((), s\<lparr>ki_dev := d, ki_screen := scr\<rparr>)
     }) s = Some ((), (cli s\<lparr>ki_dev := d', ki_screen := scr'\<rparr>)\<lparr>rflags := rflags s\<rparr>)"
    by (rule without_interrupts_returns) (simp_all add: e r(1))
  then have "print p args s = Some (s\<lparr>ki_dev := d', ki_screen := scr'\<rparr>)"
    by (simp add: print_def cli_def)
  then show ?thesis using r by blast
qed

lemma serial_init_registers:
  assumes "is_16550 p view"
  shows "idle (view (serial_init p d)) = (idle (view d))\<lparr>ua_dlab := False, ua_line := 3,
      ua_divisor_low := 3, ua_divisor_high := 0,
      ua_interrupts := (if ua_dlab (view d) then ua_interrupts (view d) else 0),
      ua_fifo := 0xC7, ua_modem := 0x0B\<rparr>"
proof -
  have out: "idle (view (outb p 0x3F8 v d)) = uart_reg 0 v (idle (view d))"
    "idle (view (outb p 0x3F9 v d)) = uart_reg 1 v (idle (view d))"
    "idle (view (outb p 0x3FA v d)) = uart_reg 2 v (idle (view d))"
    "idle (view (outb p 0x3FB v d)) = uart_reg 3 v (idle (view d))"
    "idle (view (outb p 0x3FC v d)) = uart_reg 4 v (idle (view d))" for v d
    using idle_out [OF assms, of 0] idle_out [OF assms, of 1] idle_out [OF assms, of 2]
      idle_out [OF assms, of 3] idle_out [OF assms, of 4] by simp_all
  show ?thesis by (simp add: serial_init_def Let_def uart_ports out uart_reg_def)
qed

lemma serial_init_closes:
  assumes "is_16550 p view"
  shows "\<not> ua_dlab (view (serial_init p d))"
proof -
  have "ua_dlab (idle (view (serial_init p d))) = False"
    unfolding serial_init_registers [OF assms] by simp
  then show ?thesis by (simp add: idle_def)
qed

section \<open>Properties\<close>

text \<open>
  C37. \<open>serial::init\<close> leaves the UART, from whatever state the firmware left it in, at divisor 3
  (38400 baud), 8N1 with the divisor latch closed again, FIFOs enabled, and DTR, RTS and OUT2
  asserted, and transmits nothing. The UART's interrupts are masked when the latch was closed at
  entry; when the firmware left it open, both writes meant for the interrupt enable register land
  in the divisor and its old contents stay.
\<close>

theorem serial_init_configures:
  assumes "is_16550 p view"
  shows "\<exists>n. view (serial_init p d) = (view d)\<lparr>ua_dlab := False, ua_line := 3, ua_divisor_low := 3,
    ua_divisor_high := 0, ua_interrupts := (if ua_dlab (view d) then ua_interrupts (view d) else 0),
    ua_fifo := 0xC7, ua_modem := 0x0B, ua_busy := n\<rparr>"
proof -
  have "idle (view (serial_init p d)) = (idle (view d))\<lparr>ua_dlab := False, ua_line := 3,
      ua_divisor_low := 3, ua_divisor_high := 0,
      ua_interrupts := (if ua_dlab (view d) then ua_interrupts (view d) else 0),
      ua_fifo := 0xC7, ua_modem := 0x0B\<rparr>"
    by (rule serial_init_registers [OF assms])
  then show ?thesis
    by (intro exI [of _ "ua_busy (view (serial_init p d))"])
      (cases "view (serial_init p d)"; cases "view d"; simp add: idle_def)
qed

definition demo_uart :: "uart ports" where
  "demo_uart = \<lparr>port_in = (\<lambda>port u.
       if port = 0x3FD then (if ua_busy u = 0 then 0x60 else 0x40, u\<lparr>ua_busy := ua_busy u - 1\<rparr>) else (0, u)),
     port_out = (\<lambda>port v u.
       if 0x3F8 \<le> port \<and> port < 0x400 then (uart_reg (port - 0x3F8) v u)\<lparr>ua_busy := 3\<rparr> else u),
     port_out32 = (\<lambda>_ _ u. u)\<rparr>"

lemma demo_uart_ok: "is_16550 demo_uart (\<lambda>u. u)"
proof -
  have "0x3F8 \<le> 0x3F8 + r \<and> 0x3F8 + r < 0x400" if "r < 8" for r :: u16
  proof -
    have "unat (0x3F8 + r) = 0x3F8 + unat r"
      using that unat_add_small [of "0x3F8 :: u16" r] by (simp add: word_less_nat_alt)
    then show ?thesis using that by (simp add: word_less_nat_alt word_le_nat_alt)
  qed
  then show ?thesis by (auto simp: is_16550_def demo_uart_def)
qed

definition uart_junk :: uart where
  "uart_junk = \<lparr>ua_dlab = True, ua_line = 0x1b, ua_divisor_low = 1, ua_divisor_high = 0,
     ua_interrupts = 0x0f, ua_fifo = 0, ua_modem = 0, ua_sent = [], ua_busy = 5\<rparr>"

theorem serial_init_configures_witness:
  "\<exists>n. serial_init demo_uart uart_junk = uart_junk\<lparr>ua_dlab := False, ua_line := 3,
    ua_divisor_low := 3, ua_divisor_high := 0, ua_interrupts := 0x0f, ua_fifo := 0xC7,
    ua_modem := 0x0B, ua_busy := n\<rparr>"
  using serial_init_configures [OF demo_uart_ok, of uart_junk] by (simp add: uart_junk_def)

text \<open>The device after \<open>n\<close> polls, and what the next poll answers.\<close>

definition poll :: "'d ports \<Rightarrow> 'd \<Rightarrow> 'd" where
  "poll p d = snd (inb p (COM1 + LINE_STATUS) d)"

definition polled :: "'d ports \<Rightarrow> nat \<Rightarrow> 'd \<Rightarrow> 'd" where
  "polled p n d = (poll p ^^ n) d"

definition thr_empty :: "'d ports \<Rightarrow> 'd \<Rightarrow> bool" where
  "thr_empty p d \<longleftrightarrow> fst (inb p (COM1 + LINE_STATUS) d) AND LINE_STATUS_THR_EMPTY \<noteq> 0"

lemma polled_simps: "polled p 0 d = d" "polled p (Suc n) d = polled p n (poll p d)"
  by (simp_all add: polled_def funpow_swap1)

lemma uart_write_step:
  "uart_write p b d =
     (if thr_empty p d then Some (outb p (COM1 + DATA) b (poll p d)) else uart_write p b (poll p d))"
  by (subst uart_write.simps) (simp add: thr_empty_def poll_def split_beta Let_def)

lemma uart_write_waits:
  assumes "thr_empty p (polled p n d)" and "\<forall>k < n. \<not> thr_empty p (polled p k d)"
  shows "uart_write p b d = Some (outb p (COM1 + DATA) b (polled p (Suc n) d))"
  using assms
proof (induction n arbitrary: d)
  case 0
  then show ?case by (subst uart_write_step) (simp add: polled_simps)
next
  case (Suc n)
  have busy: "\<not> thr_empty p d" using Suc.prems(2) by (auto simp: polled_simps(1) dest: spec [of _ 0])
  have "\<forall>k < n. \<not> thr_empty p (polled p (Suc k) d)" using Suc.prems(2) by simp
  then have "\<forall>k < n. \<not> thr_empty p (polled p k (poll p d))" by (simp only: polled_simps(2))
  moreover have "thr_empty p (polled p n (poll p d))"
    using Suc.prems(1) by (simp only: polled_simps(2))
  ultimately have "uart_write p b (poll p d) =
      Some (outb p (COM1 + DATA) b (polled p (Suc n) (poll p d)))"
    by (intro Suc.IH)
  then show ?case using busy uart_write_step [of p b d] by (simp only: polled_simps(2) [of p "Suc n" d] if_False)
qed

lemma uart_write_returns:
  assumes "uart_write p b d = Some d'"
  shows "\<exists>n. thr_empty p (polled p n d)"
proof (rule uart_write.raw_induct [where P = "\<lambda>p b d d'. \<exists>n. thr_empty p (polled p n d)", OF _ assms])
  fix rec :: "'a ports \<Rightarrow> u8 \<Rightarrow> 'a \<Rightarrow> 'a option" and p b d r
  assume ih: "\<And>p b d r. rec p b d = Some r \<Longrightarrow> \<exists>n. thr_empty p (polled p n d)"
    and run: "(let (status, d') = inb p (COM1 + LINE_STATUS) d in
      if status AND LINE_STATUS_THR_EMPTY = 0 then rec p b d'
      else Some (outb p (COM1 + DATA) b d')) = Some r"
  show "\<exists>n. thr_empty p (polled p n d)"
  proof (cases "thr_empty p d")
    case True
    then show ?thesis by (metis polled_simps(1))
  next
    case False
    then have "rec p b (poll p d) = Some r"
      using run by (simp add: thr_empty_def poll_def split_beta Let_def)
    then show ?thesis using ih by (metis polled_simps(2))
  qed
qed

text \<open>
  Termination of the busy-wait: writing a byte returns exactly when some poll of the line status
  answers that the transmit holding register is empty, and then the byte is written after the
  first such poll; on a UART that never becomes ready it spins for ever.
\<close>

theorem uart_write_returns_iff:
  "uart_write p byte d =
     (if \<exists>n. thr_empty p (polled p n d)
      then Some (outb p (COM1 + DATA) byte (polled p (Suc (LEAST n. thr_empty p (polled p n d))) d))
      else None)"
proof (cases "\<exists>n. thr_empty p (polled p n d)")
  case True
  then have "thr_empty p (polled p (LEAST n. thr_empty p (polled p n d)) d)" by (rule LeastI_ex)
  then show ?thesis using True uart_write_waits not_less_Least by fastforce
next
  case False
  then show ?thesis using uart_write_returns [of p byte d] by (cases "uart_write p byte d") auto
qed

text \<open>
  C36. \<open>_print\<close> on an initialised UART returns, however long the transmitter is busy before each byte:
  the line carries the text with every newline preceded by a carriage return, the screen is
  what writing the text to the console alone makes of it, the caller's flags come back, and
  nothing else of the kernel's state changes.
\<close>

theorem print_reaches_both:
  assumes "is_16550 p view" and "\<not> ua_dlab (view (ki_dev s))" and "screen_ok (ki_screen s)"
  shows "\<exists>d scr. print p args s = Some (s\<lparr>ki_dev := d, ki_screen := scr\<rparr>) \<and>
    write_bytes_screen args (ki_screen s) = Some scr \<and>
    ua_sent (view d) = ua_sent (view (ki_dev s)) @
      concat (map (\<lambda>b. if b = 0x0a then [0x0d, 0x0a] else [b]) args)"
  using print_spec [OF assms, of args] sent_more_sent unfolding crlf_def by blast

definition demo_io :: "uart kernel_io" where
  "demo_io = \<lparr>rflags = 0x202, st_phys = (\<lambda>_. \<lparr>ff_next = None\<rparr>), st_FRAMES = None, st_heap = (\<lambda>_. \<lparr>hb_size = 0, hb_next = 0\<rparr>), st_HEAP = 0,
     ki_dev = serial_init demo_uart uart_junk,
     ki_screen = \<lparr>sc_CONSOLE = Some demo_console, sc_pixels = demo_pixels\<rparr>\<rparr>"

theorem print_reaches_both_witness:
  "\<exists>d scr. print demo_uart [0x48, 0x0a] demo_io = Some (demo_io\<lparr>ki_dev := d, ki_screen := scr\<rparr>) \<and>
    write_bytes_screen [0x48, 0x0a] (ki_screen demo_io) = Some scr \<and>
    ua_sent d = [0x48, 0x0d, 0x0a]"
proof -
  have "\<not> ua_dlab (ki_dev demo_io)" and "ua_sent (ki_dev demo_io) = []"
    by (simp_all add: demo_io_def serial_init_def Let_def uart_ports demo_uart_def uart_reg_def
        outb_def uart_junk_def)
  moreover have "screen_ok (ki_screen demo_io)"
    using console_new_Some(1) [OF demo_console_new] by (simp add: demo_io_def screen_ok_def)
  ultimately show ?thesis
    using print_reaches_both [OF demo_uart_ok, of demo_io "[0x48, 0x0a]"] by simp
qed

end
