(* ===== verification/Ps2.thy ===== *)
theory Ps2
  imports Serial
begin

unbundle bit_operations_syntax

text \<open>
  The 8042 PS/2 controller (kernel/src/ps2.rs). Every wait is bounded by \<open>SPIN_BUDGET\<close>; a wait that
  runs out prints which step failed and leaves the rest of the initialisation undone.
\<close>

section \<open>Model\<close>

definition PS2_DATA :: u16 where "PS2_DATA = 0x60"
definition PS2_COMMAND :: u16 where "PS2_COMMAND = 0x64"
definition STATUS :: u16 where "STATUS = 0x64"
definition STATUS_OUTPUT_FULL :: u8 where "STATUS_OUTPUT_FULL = 0x01"
definition STATUS_INPUT_FULL :: u8 where "STATUS_INPUT_FULL = 0x02"
definition CMD_READ_CONFIG :: u8 where "CMD_READ_CONFIG = 0x20"
definition CMD_WRITE_CONFIG :: u8 where "CMD_WRITE_CONFIG = 0x60"
definition CMD_ENABLE_FIRST_PORT :: u8 where "CMD_ENABLE_FIRST_PORT = 0xAE"
definition CONFIG_FIRST_PORT_INTERRUPT :: u8 where "CONFIG_FIRST_PORT_INTERRUPT = 0x01"
definition CONFIG_FIRST_PORT_CLOCK_DISABLED :: u8 where "CONFIG_FIRST_PORT_CLOCK_DISABLED = 0x10"
definition SPIN_BUDGET :: nat where "SPIN_BUDGET = 200000"

text \<open>The bounded loops, on what is left of the budget.\<close>

fun wait_writable :: "'d ports \<Rightarrow> nat \<Rightarrow> 'd \<Rightarrow> bool \<times> 'd" where
  "wait_writable p 0 d = (False, d)"
| "wait_writable p (Suc n) d =
     (let (status, d) = inb p STATUS d in
      if status AND STATUS_INPUT_FULL = 0 then (True, d) else wait_writable p n d)"

fun wait_readable :: "'d ports \<Rightarrow> nat \<Rightarrow> 'd \<Rightarrow> bool \<times> 'd" where
  "wait_readable p 0 d = (False, d)"
| "wait_readable p (Suc n) d =
     (let (status, d) = inb p STATUS d in
      if status AND STATUS_OUTPUT_FULL \<noteq> 0 then (True, d) else wait_readable p n d)"

fun drain_output :: "'d ports \<Rightarrow> nat \<Rightarrow> 'd \<Rightarrow> bool \<times> 'd" where
  "drain_output p 0 d = (False, d)"
| "drain_output p (Suc n) d =
     (let (status, d) = inb p STATUS d in
      if status AND STATUS_OUTPUT_FULL = 0 then (True, d)
      else drain_output p n (snd (inb p PS2_DATA d)))"

text \<open>The steps of \<open>init\<close>: \<open>Inl\<close> is the message of the wait that ran out, \<open>Inr\<close> the completed sequence.\<close>

definition ascii :: "string \<Rightarrow> u8 list" where
  "ascii s = map of_char s"

definition step_or :: "string \<Rightarrow> bool \<times> 'd \<Rightarrow> ('d \<Rightarrow> (string + unit) \<times> 'd) \<Rightarrow> (string + unit) \<times> 'd" where
  "step_or msg r k = (case r of (ok, d) \<Rightarrow> if ok then k d else (Inl msg, d))"

definition ps2_config :: "u8 \<Rightarrow> u8" where
  "ps2_config config =
     (let config = config OR CONFIG_FIRST_PORT_INTERRUPT
      in config AND NOT CONFIG_FIRST_PORT_CLOCK_DISABLED)"

definition ps2_sequence :: "'d ports \<Rightarrow> 'd \<Rightarrow> (string + unit) \<times> 'd" where
  "ps2_sequence p d =
     step_or ''ps2: timed out draining the output buffer; no 8042 present?'' (drain_output p SPIN_BUDGET d) (\<lambda>d.
     step_or ''ps2: timed out waiting to enable the first port'' (wait_writable p SPIN_BUDGET d) (\<lambda>d.
     let d = outb p PS2_COMMAND CMD_ENABLE_FIRST_PORT d in
     step_or ''ps2: timed out waiting to request the config byte'' (wait_writable p SPIN_BUDGET d) (\<lambda>d.
     let d = outb p PS2_COMMAND CMD_READ_CONFIG d in
     step_or ''ps2: timed out waiting to read the config byte'' (wait_readable p SPIN_BUDGET d) (\<lambda>d.
     let (config, d) = inb p PS2_DATA d; config = ps2_config config in
     step_or ''ps2: timed out waiting to write the config byte command'' (wait_writable p SPIN_BUDGET d) (\<lambda>d.
     let d = outb p PS2_COMMAND CMD_WRITE_CONFIG d in
     step_or ''ps2: timed out waiting to write the config byte'' (wait_writable p SPIN_BUDGET d) (\<lambda>d.
     (Inr (), outb p PS2_DATA config d)))))))"

definition ps2_init :: "'d ports \<Rightarrow> ('d, 'a) kernel_io_scheme \<Rightarrow> ('d, 'a) kernel_io_scheme run" where
  "ps2_init p s =
     (let (r, d) = ps2_sequence p (ki_dev s); s = s\<lparr>ki_dev := d\<rparr> in
      case r of Inl msg \<Rightarrow> kprintln p (ascii msg) s | Inr _ \<Rightarrow> Some s)"

section \<open>The chip\<close>

text \<open>
  The controller as the driver uses it: the bytes waiting to be read, how many more polls the input
  buffer stays full, the configuration byte, whether the first port is enabled, and whether the
  next data byte is the configuration.
\<close>

record i8042 =
  kb_output :: "u8 list"
  kb_busy :: nat
  kb_config :: u8
  kb_enabled :: bool
  kb_awaits :: bool

definition kb_command :: "u8 \<Rightarrow> i8042 \<Rightarrow> i8042" where
  "kb_command v k =
     (if v = 0x20 then k\<lparr>kb_output := kb_output k @ [kb_config k]\<rparr>
      else if v = 0x60 then k\<lparr>kb_awaits := True\<rparr>
      else if v = 0xAE then k\<lparr>kb_enabled := True\<rparr>
      else k)"

definition kb_data :: "u8 \<Rightarrow> i8042 \<Rightarrow> i8042" where
  "kb_data v k = (if kb_awaits k then k\<lparr>kb_config := v, kb_awaits := False\<rparr> else k)"

text \<open>
  \<open>is_8042 p view latency\<close>: a write, allowed only while the input buffer is empty, takes effect and
  keeps the buffer full for at most \<open>latency\<close> polls; a status read answers both bits; a data read
  takes the next byte.
\<close>

definition is_8042 :: "'d ports \<Rightarrow> ('d \<Rightarrow> i8042) \<Rightarrow> nat \<Rightarrow> bool" where
  "is_8042 p view latency \<longleftrightarrow>
     (\<forall>d. (fst (port_in p 0x64 d) AND 1 = 0 \<longleftrightarrow> kb_output (view d) = []) \<and>
       (fst (port_in p 0x64 d) AND 2 = 0 \<longleftrightarrow> kb_busy (view d) = 0) \<and>
       view (snd (port_in p 0x64 d)) = (view d)\<lparr>kb_busy := kb_busy (view d) - 1\<rparr>) \<and>
     (\<forall>d b bs. kb_output (view d) = b # bs \<longrightarrow>
       fst (port_in p 0x60 d) = b \<and> view (snd (port_in p 0x60 d)) = (view d)\<lparr>kb_output := bs\<rparr>) \<and>
     (\<forall>v d. kb_busy (view d) = 0 \<longrightarrow>
       (\<exists>n \<le> latency. view (port_out p 0x64 v d) = (kb_command v (view d))\<lparr>kb_busy := n\<rparr>) \<and>
       (\<exists>n \<le> latency. view (port_out p 0x60 v d) = (kb_data v (view d))\<lparr>kb_busy := n\<rparr>))"

lemmas ps2_ports = PS2_DATA_def PS2_COMMAND_def STATUS_def STATUS_OUTPUT_FULL_def
  STATUS_INPUT_FULL_def CMD_READ_CONFIG_def CMD_WRITE_CONFIG_def CMD_ENABLE_FIRST_PORT_def

section \<open>Facts\<close>

lemma wait_writable_ok:
  assumes "is_8042 p view latency" and "kb_busy (view d) < n"
  shows "\<exists>d'. wait_writable p n d = (True, d') \<and> view d' = (view d)\<lparr>kb_busy := 0\<rparr>"
  using assms(2)
proof (induction n arbitrary: d)
  case (Suc n)
  let ?d = "snd (port_in p 0x64 d)"
  have st: "fst (port_in p 0x64 d) AND 2 = 0 \<longleftrightarrow> kb_busy (view d) = 0"
    "view ?d = (view d)\<lparr>kb_busy := kb_busy (view d) - 1\<rparr>"
    using assms(1) by (auto simp: is_8042_def)
  show ?case
  proof (cases "kb_busy (view d) = 0")
    case True
    then show ?thesis using st by (simp add: inb_def ps2_ports split_beta Let_def)
  next
    case False
    then have "kb_busy (view ?d) < n" using st(2) Suc.prems by simp
    then obtain d' where "wait_writable p n ?d = (True, d')" "view d' = (view ?d)\<lparr>kb_busy := 0\<rparr>"
      using Suc.IH by blast
    then show ?thesis using False st by (simp add: inb_def ps2_ports split_beta Let_def)
  qed
qed simp

lemma wait_readable_ok:
  assumes "is_8042 p view latency" and "kb_output (view d) \<noteq> []" and "0 < n"
  shows "\<exists>d'. wait_readable p n d = (True, d') \<and> view d' = (view d)\<lparr>kb_busy := kb_busy (view d) - 1\<rparr>"
  using assms by (cases n) (auto simp: is_8042_def inb_def ps2_ports split_beta Let_def)

lemma drain_output_ok:
  assumes "is_8042 p view latency" and "length (kb_output (view d)) < n"
  shows "\<exists>d'. drain_output p n d = (True, d') \<and>
    (\<exists>b \<le> kb_busy (view d). view d' = (view d)\<lparr>kb_output := [], kb_busy := b\<rparr>)"
  using assms(2)
proof (induction n arbitrary: d)
  case (Suc n)
  let ?d = "snd (port_in p 0x64 d)"
  have st: "fst (port_in p 0x64 d) AND 1 = 0 \<longleftrightarrow> kb_output (view d) = []"
    "view ?d = (view d)\<lparr>kb_busy := kb_busy (view d) - 1\<rparr>"
    using assms(1) by (auto simp: is_8042_def)
  show ?case
  proof (cases "kb_output (view d)")
    case Nil
    then show ?thesis using st
      by (auto simp: inb_def ps2_ports split_beta Let_def intro!: exI [of _ "kb_busy (view d) - 1"])
  next
    case (Cons b bs)
    let ?d2 = "snd (port_in p 0x60 ?d)"
    have v2: "view ?d2 = (view ?d)\<lparr>kb_output := bs\<rparr>"
      using assms(1) Cons st(2) unfolding is_8042_def by simp
    then have "length (kb_output (view ?d2)) < n" using Suc.prems Cons by simp
    then obtain d' k where "drain_output p n ?d2 = (True, d')" "k \<le> kb_busy (view ?d2)"
      "view d' = (view ?d2)\<lparr>kb_output := [], kb_busy := k\<rparr>"
      using Suc.IH [of ?d2] by blast
    then show ?thesis using Cons st v2
      by (intro exI [of _ d'] conjI exI [of _ k])
        (simp_all add: inb_def ps2_ports split_beta Let_def)
  qed
qed simp

text \<open>Any device: how many port accesses a loop makes, on a meter every access moves by at most one.\<close>

definition metered :: "'d ports \<Rightarrow> ('d \<Rightarrow> nat) \<Rightarrow> bool" where
  "metered p meter \<longleftrightarrow> (\<forall>port d. meter (snd (port_in p port d)) \<le> Suc (meter d)) \<and>
     (\<forall>port v d. meter (port_out p port v d) \<le> Suc (meter d))"

lemma metered_out: "metered p meter \<Longrightarrow> meter (outb p port v d) \<le> Suc (meter d)"
  by (simp add: metered_def outb_def)

lemma metered_in: "metered p meter \<Longrightarrow> meter (snd (inb p port d)) \<le> Suc (meter d)"
  by (simp add: metered_def inb_def)

lemma wait_writable_meter: "metered p meter \<Longrightarrow> meter (snd (wait_writable p n d)) \<le> meter d + n"
proof (induction n arbitrary: d)
  case (Suc n)
  show ?case
    using Suc.IH [OF Suc.prems, of "snd (inb p STATUS d)"] metered_in [OF Suc.prems, of STATUS d]
    by (auto simp: split_beta Let_def)
qed simp

lemma wait_readable_meter: "metered p meter \<Longrightarrow> meter (snd (wait_readable p n d)) \<le> meter d + n"
proof (induction n arbitrary: d)
  case (Suc n)
  show ?case
    using Suc.IH [OF Suc.prems, of "snd (inb p STATUS d)"] metered_in [OF Suc.prems, of STATUS d]
    by (auto simp: split_beta Let_def)
qed simp

lemma drain_output_meter: "metered p meter \<Longrightarrow> meter (snd (drain_output p n d)) \<le> meter d + 2 * n"
proof (induction n arbitrary: d)
  case (Suc n)
  let ?d = "snd (inb p STATUS d)"
  show ?case
    using Suc.IH [OF Suc.prems, of "snd (inb p PS2_DATA ?d)"] metered_in [OF Suc.prems, of STATUS d]
      metered_in [OF Suc.prems, of PS2_DATA ?d]
    by (auto simp: split_beta Let_def)
qed simp

lemma step_or_meter:
  assumes "meter (snd r) \<le> m + a" and "\<And>d. meter (snd (f d)) \<le> meter d + b"
  shows "meter (snd (step_or msg r f)) \<le> m + (a + b :: nat)"
proof (cases r)
  case (Pair ok d)
  then show ?thesis using assms(1) assms(2) [of d] by (cases ok) (auto simp: step_or_def)
qed

section \<open>Properties\<close>

text \<open>
  Bounded initialisation: whatever the hardware answers, \<open>ps2::init\<close> makes at most
  7 * SPIN_BUDGET + 5 port accesses before it is done or gives up; no controller can make it spin
  for ever.
\<close>

theorem ps2_init_bounded:
  assumes "\<forall>port d. meter (snd (port_in p port d)) \<le> Suc (meter d)"
    and "\<forall>port v d. meter (port_out p port v d) \<le> Suc (meter d)"
  shows "meter (snd (ps2_sequence p d)) \<le> meter d + 7 * SPIN_BUDGET + 5"
proof -
  let ?B = SPIN_BUDGET
  have m: "metered p meter" using assms by (simp add: metered_def)
  have w: "meter (snd (wait_writable p ?B d)) \<le> meter d + ?B" for d
    by (rule wait_writable_meter [OF m])
  have wo: "meter (snd (wait_writable p ?B (outb p port v d))) \<le> meter d + Suc ?B" for port v d
    using wait_writable_meter [OF m, of ?B "outb p port v d"] metered_out [OF m, of port v d] by linarith
  have wi: "meter (snd (wait_writable p ?B (snd (inb p port d)))) \<le> meter d + Suc ?B" for port d
    using wait_writable_meter [OF m, of ?B "snd (inb p port d)"] metered_in [OF m, of port d] by linarith
  have ro: "meter (snd (wait_readable p ?B (outb p port v d))) \<le> meter d + Suc ?B" for port v d
    using wait_readable_meter [OF m, of ?B "outb p port v d"] metered_out [OF m, of port v d] by linarith
  have last: "meter (snd (r, outb p port v d)) \<le> meter d + 1" for r :: "string + unit" and port v d
    using metered_out [OF m, of port v d] by simp
  have "meter (snd (ps2_sequence p d)) \<le>
      meter d + (2 * ?B + (?B + (Suc ?B + (Suc ?B + (Suc ?B + (Suc ?B + 1))))))"
    unfolding ps2_sequence_def Let_def split_beta
    by (rule step_or_meter, rule drain_output_meter [OF m], rule step_or_meter, rule w,
        rule step_or_meter, rule wo, rule step_or_meter, rule ro, rule step_or_meter, rule wi,
        rule step_or_meter, rule wo, rule last)
  then show ?thesis by simp
qed

definition absent_8042 :: "nat ports" where
  "absent_8042 = \<lparr>port_in = (\<lambda>_ n. (0xFF, Suc n)), port_out = (\<lambda>_ _ n. Suc n), port_out32 = (\<lambda>_ _ n. n)\<rparr>"

theorem ps2_init_bounded_witness:
  "snd (ps2_sequence absent_8042 0) \<le> 7 * SPIN_BUDGET + 5"
  using ps2_init_bounded [of "\<lambda>n. n" absent_8042 0] by (simp add: absent_8042_def)

definition absent_io :: "nat kernel_io" where
  "absent_io = \<lparr>rflags = 2, st_phys = (\<lambda>_. \<lparr>ff_next = None\<rparr>), st_FRAMES = None,
     st_heap = (\<lambda>_. \<lparr>hb_size = 0, hb_next = 0\<rparr>), st_HEAP = 0, ki_dev = 0,
     ki_screen = \<lparr>sc_CONSOLE = None, sc_pixels = \<lambda>_. 0\<rparr>\<rparr>"

text \<open>
  A machine without an 8042, whose status port reads all ones, is reported, not hung on: the drain
  runs out of budget having consumed what the data port gives, nothing is written to any
  controller port, and the reason is printed.
\<close>

theorem ps2_init_absent:
  assumes "\<forall>d. fst (port_in p 0x64 d) = 0xFF"
  shows "ps2_init p s =
    kprintln p (ascii ''ps2: timed out draining the output buffer; no 8042 present?'')
      (s\<lparr>ki_dev := ((\<lambda>d. snd (port_in p 0x60 (snd (port_in p 0x64 d)))) ^^ SPIN_BUDGET) (ki_dev s)\<rparr>)"
proof -
  let ?f = "\<lambda>d. snd (port_in p 0x60 (snd (port_in p 0x64 d)))"
  have "drain_output p n d = (False, (?f ^^ n) d)" for n d
  proof (induction n arbitrary: d)
    case (Suc n)
    have "drain_output p (Suc n) d = drain_output p n (?f d)"
      by (simp add: assms inb_def ps2_ports split_beta Let_def)
    also have "\<dots> = (False, (?f ^^ Suc n) d)" unfolding Suc.IH using funpow_swap1 [of ?f n d] by simp
    finally show ?case .
  qed simp
  then show ?thesis by (simp add: ps2_init_def ps2_sequence_def step_or_def)
qed

theorem ps2_init_absent_witness:
  "ps2_init absent_8042 absent_io =
    kprintln absent_8042 (ascii ''ps2: timed out draining the output buffer; no 8042 present?'')
      (absent_io\<lparr>ki_dev := ((\<lambda>n. Suc (Suc n)) ^^ SPIN_BUDGET) 0\<rparr>)"
  using ps2_init_absent [of absent_8042 absent_io] by (simp add: absent_8042_def absent_io_def)

lemma ps2_sequence_ok:
  assumes "is_8042 p view latency" and "latency < SPIN_BUDGET" and "kb_busy (view d) < SPIN_BUDGET"
    and "length (kb_output (view d)) < SPIN_BUDGET"
  shows "\<exists>d' n. ps2_sequence p d = (Inr (), d') \<and>
    view d' = \<lparr>kb_output = [], kb_busy = n, kb_config = (kb_config (view d) OR 1) AND NOT 0x10,
      kb_enabled = True, kb_awaits = False\<rparr>"
proof -
  note chip = assms(1)
  note lat = assms(2)
  have wr: "\<exists>e n. port_out p port v d = e \<and> n < SPIN_BUDGET \<and> view e =
      (if port = 0x64 then kb_command v (view d) else kb_data v (view d))\<lparr>kb_busy := n\<rparr>"
    if "kb_busy (view d) = 0" "port = 0x64 \<or> port = 0x60" for port v d
  proof -
    have "\<exists>n \<le> latency. view (port_out p 0x64 v d) = (kb_command v (view d))\<lparr>kb_busy := n\<rparr>"
      and "\<exists>n \<le> latency. view (port_out p 0x60 v d) = (kb_data v (view d))\<lparr>kb_busy := n\<rparr>"
      using chip that(1) by (auto simp: is_8042_def)
    then show ?thesis using that(2) le_less_trans [OF _ lat] by (elim disjE) auto
  qed
  obtain d0 b where d0: "drain_output p SPIN_BUDGET d = (True, d0)" "b < SPIN_BUDGET"
    "view d0 = (view d)\<lparr>kb_output := [], kb_busy := b\<rparr>"
    using drain_output_ok [OF chip assms(4)] assms(3) by (meson le_less_trans)
  obtain d1 where d1: "wait_writable p SPIN_BUDGET d0 = (True, d1)" "view d1 = (view d0)\<lparr>kb_busy := 0\<rparr>"
    using wait_writable_ok [OF chip, of d0 SPIN_BUDGET] d0 by auto
  obtain d2 n2 where d2: "port_out p 0x64 0xAE d1 = d2" "n2 < SPIN_BUDGET"
    "view d2 = (kb_command 0xAE (view d1))\<lparr>kb_busy := n2\<rparr>"
    using wr [of d1 "0x64" "0xAE"] d1 by auto
  obtain d3 where d3: "wait_writable p SPIN_BUDGET d2 = (True, d3)" "view d3 = (view d2)\<lparr>kb_busy := 0\<rparr>"
    using wait_writable_ok [OF chip, of d2 SPIN_BUDGET] d2 by auto
  obtain d4 n4 where d4: "port_out p 0x64 0x20 d3 = d4" "n4 < SPIN_BUDGET"
    "view d4 = (kb_command 0x20 (view d3))\<lparr>kb_busy := n4\<rparr>"
    using wr [of d3 "0x64" "0x20"] d3 by auto
  have out4: "kb_output (view d4) = [kb_config (view d)]"
    using d4(3) d3(2) d2(3) d1(2) d0(3) by (simp add: kb_command_def)
  obtain d5 where d5: "wait_readable p SPIN_BUDGET d4 = (True, d5)"
    "view d5 = (view d4)\<lparr>kb_busy := kb_busy (view d4) - 1\<rparr>"
    using wait_readable_ok [OF chip, of d4 SPIN_BUDGET] out4 by (auto simp: SPIN_BUDGET_def)
  let ?d6 = "snd (port_in p 0x60 d5)" and ?cfg = "kb_config (view d)"
  have d6: "fst (port_in p 0x60 d5) = ?cfg" "view ?d6 = (view d5)\<lparr>kb_output := []\<rparr>"
    using chip out4 d5(2) unfolding is_8042_def by simp_all
  have "kb_busy (view ?d6) < SPIN_BUDGET" using d6(2) d5(2) d4 by simp
  then obtain d7 where d7: "wait_writable p SPIN_BUDGET ?d6 = (True, d7)" "view d7 = (view ?d6)\<lparr>kb_busy := 0\<rparr>"
    using wait_writable_ok [OF chip] by blast
  obtain d8 n8 where d8: "port_out p 0x64 0x60 d7 = d8" "n8 < SPIN_BUDGET"
    "view d8 = (kb_command 0x60 (view d7))\<lparr>kb_busy := n8\<rparr>"
    using wr [of d7 "0x64" "0x60"] d7 by auto
  obtain d9 where d9: "wait_writable p SPIN_BUDGET d8 = (True, d9)" "view d9 = (view d8)\<lparr>kb_busy := 0\<rparr>"
    using wait_writable_ok [OF chip, of d8 SPIN_BUDGET] d8 by auto
  obtain d10 n10 where d10: "port_out p 0x60 (ps2_config ?cfg) d9 = d10"
    "view d10 = (kb_data (ps2_config ?cfg) (view d9))\<lparr>kb_busy := n10\<rparr>"
    using wr [of d9 "0x60" "ps2_config ?cfg"] d9 by auto
  have "ps2_sequence p d = (Inr (), d10)"
    using d0 d1 d2 d3 d4 d5 d6 d7 d8 d9 d10
    by (simp add: ps2_sequence_def step_or_def outb_def inb_def Let_def split_beta ps2_ports)
  moreover have "view d10 = \<lparr>kb_output = [], kb_busy = n10, kb_config = (?cfg OR 1) AND NOT 0x10,
      kb_enabled = True, kb_awaits = False\<rparr>"
    unfolding d10(2) d9(2) d8(3) d7(2) d6(2) d5(2) d4(3) d3(2) d2(3) d1(2) d0(3)
    by (simp add: kb_command_def kb_data_def ps2_config_def Let_def
        CONFIG_FIRST_PORT_INTERRUPT_def CONFIG_FIRST_PORT_CLOCK_DISABLED_def)
  ultimately show ?thesis by blast
qed

text \<open>
  C38. On a working controller - one whose input buffer empties and whose output buffer drains within the
  budget - the initialisation completes: stale bytes are gone, the first port is enabled, and the
  configuration has its interrupt bit set, its clock-disable bit clear and every other bit kept.
\<close>

theorem ps2_init_enables:
  assumes "is_8042 p view latency" and "latency < SPIN_BUDGET" and "kb_busy (view (ki_dev s)) < SPIN_BUDGET"
    and "length (kb_output (view (ki_dev s))) < SPIN_BUDGET"
  shows "\<exists>d n. ps2_init p s = Some (s\<lparr>ki_dev := d\<rparr>) \<and>
    view d = \<lparr>kb_output = [], kb_busy = n,
      kb_config = (kb_config (view (ki_dev s)) OR 1) AND NOT 0x10, kb_enabled = True, kb_awaits = False\<rparr>"
  using ps2_sequence_ok [OF assms] by (auto simp: ps2_init_def)

definition demo_8042 :: "i8042 ports" where
  "demo_8042 = \<lparr>port_in = (\<lambda>port k.
       if port = 0x64 then
         ((if kb_output k = [] then (if kb_busy k = 0 then 0 else 2) else (if kb_busy k = 0 then 1 else 3)),
          k\<lparr>kb_busy := kb_busy k - 1\<rparr>)
       else (case kb_output k of [] \<Rightarrow> (0, k) | b # bs \<Rightarrow> (b, k\<lparr>kb_output := bs\<rparr>))),
     port_out = (\<lambda>port v k.
       if port = 0x64 then (kb_command v k)\<lparr>kb_busy := 4\<rparr>
       else if port = 0x60 then (kb_data v k)\<lparr>kb_busy := 4\<rparr> else k),
     port_out32 = (\<lambda>_ _ k. k)\<rparr>"

lemma demo_8042_ok: "is_8042 demo_8042 (\<lambda>k. k) 4"
  by (auto simp: is_8042_def demo_8042_def)

definition kb_junk :: i8042 where
  "kb_junk = \<lparr>kb_output = [0xFA, 0x1C], kb_busy = 7, kb_config = 0x74, kb_enabled = False, kb_awaits = False\<rparr>"

definition kb_io :: "i8042 kernel_io" where
  "kb_io = \<lparr>rflags = 2, st_phys = (\<lambda>_. \<lparr>ff_next = None\<rparr>), st_FRAMES = None,
     st_heap = (\<lambda>_. \<lparr>hb_size = 0, hb_next = 0\<rparr>), st_HEAP = 0, ki_dev = kb_junk,
     ki_screen = \<lparr>sc_CONSOLE = None, sc_pixels = \<lambda>_. 0\<rparr>\<rparr>"

theorem ps2_init_enables_witness:
  "\<exists>n. ps2_init demo_8042 kb_io = Some (kb_io\<lparr>ki_dev := \<lparr>kb_output = [], kb_busy = n,
      kb_config = 0x65, kb_enabled = True, kb_awaits = False\<rparr>\<rparr>)"
  using ps2_init_enables [OF demo_8042_ok, of kb_io] by (auto simp: kb_io_def kb_junk_def SPIN_BUDGET_def)

end
