(* ===== verification/Irq.thy ===== *)
theory Irq
  imports Idt Keyboard Ps2
begin

unbundle bit_operations_syntax

text \<open>
  The interrupt handlers (kernel/src/idt.rs) and the state they share with the main path: the tick
  and key counters, the tables, and what the console and serial port need. An interrupt is
  delivered through the installed table: an absent gate is a fault the kernel does not survive.
\<close>

section \<open>Text\<close>

text \<open>What the formatting machinery makes of the values the kernel prints.\<close>

definition digit :: "nat \<Rightarrow> u8" where
  "digit k = (if k < 10 then of_nat (48 + k) else of_nat (87 + k))"

function digits :: "nat \<Rightarrow> nat \<Rightarrow> u8 list" where
  "digits b n = (if b < 2 \<or> n < b then [digit n] else digits b (n div b) @ [digit (n mod b)])"
  by pat_completeness auto
termination
  by (relation "measure snd") (auto intro: div_less_dividend)

declare digits.simps [simp del]

definition show_dec :: "u64 \<Rightarrow> u8 list" where
  "show_dec v = digits 10 (unat v)"

definition show_hex :: "u64 \<Rightarrow> u8 list" where
  "show_hex v = ascii ''0x'' @ digits 16 (unat v)"

text \<open>\<open>{:?}\<close> of a byte below 128 as a character: the keys the keyboard driver translates.\<close>

definition show_char :: "u8 \<Rightarrow> u8 list" where
  "show_char b =
     (let body = (if b = 0x09 then [0x5c, 0x74] else if b = 0x0a then [0x5c, 0x6e]
        else if b = 0x0d then [0x5c, 0x72] else if b = 0x00 then [0x5c, 0x30]
        else if b = 0x27 \<or> b = 0x5c then [0x5c, b]
        else if b < 0x20 \<or> b = 0x7f then [0x5c, 0x75, 0x7b] @ digits 16 (unat b) @ [0x7d]
        else [b])
      in [0x27] @ body @ [0x27])"

section \<open>State\<close>

record 'd kernel = "'d kernel_io" +
  ks_TICKS :: u64
  ks_KEY_EVENTS_SEEN :: u64
  ks_IDT :: "idt_entry list"
  ks_tables :: descriptor_state

record stack_frame =
  sf_instruction_pointer :: u64
  sf_code_segment :: u64
  sf_cpu_flags :: u64
  sf_stack_pointer :: u64
  sf_stack_segment :: u64

definition ticks :: "('d, 'a) kernel_scheme \<Rightarrow> (u64 \<times> ('d, 'a) kernel_scheme) run" where
  "ticks = without_interrupts (\<lambda>s. Some (ks_TICKS s, s))"

definition key_events_seen :: "('d, 'a) kernel_scheme \<Rightarrow> (u64 \<times> ('d, 'a) kernel_scheme) run" where
  "key_events_seen = without_interrupts (\<lambda>s. Some (ks_KEY_EVENTS_SEEN s, s))"

section \<open>Handlers that return\<close>

definition breakpoint_handler ::
    "'d ports \<Rightarrow> stack_frame \<Rightarrow> ('d, 'a) kernel_scheme \<Rightarrow> ('d, 'a) kernel_scheme run" where
  "breakpoint_handler p frame s =
     kprintln p (ascii ''EXCEPTION: breakpoint at '' @ show_hex (sf_instruction_pointer frame)
       @ ascii '' (execution will resume)'') s"

definition unhandled_irq_handler :: "'d ports \<Rightarrow> ('d, 'a) kernel_scheme \<Rightarrow> ('d, 'a) kernel_scheme run" where
  "unhandled_irq_handler p s = do {
     v \<leftarrow> checked_add PIC2_OFFSET 7;
     Some (s\<lparr>ki_dev := end_of_interrupt p v (ki_dev s)\<rparr>)
   }"

definition timer_handler :: "'d ports \<Rightarrow> ('d, 'a) kernel_scheme \<Rightarrow> ('d, 'a) kernel_scheme run" where
  "timer_handler p s = do {
     n \<leftarrow> checked_add (ks_TICKS s) 1;
     let s1 = s\<lparr>ks_TICKS := n\<rparr>;
     Some (s1\<lparr>ki_dev := end_of_interrupt p TIMER_VECTOR (ki_dev s1)\<rparr>)
   }"

definition keyboard_handler :: "'d ports \<Rightarrow> ('d, 'a) kernel_scheme \<Rightarrow> ('d, 'a) kernel_scheme run" where
  "keyboard_handler p s = do {
     (key, d) \<leftarrow> read_key p (ki_dev s);
     let s1 = s\<lparr>ki_dev := d\<rparr>;
     s2 \<leftarrow> (case key of
       None \<Rightarrow> Some s1
     | Some ascii_byte \<Rightarrow> do {
         n \<leftarrow> checked_add (ks_KEY_EVENTS_SEEN s1) 1;
         kprintln p (ascii ''key: '' @ show_char ascii_byte) (s1\<lparr>ks_KEY_EVENTS_SEEN := n\<rparr>)
       });
     Some (s2\<lparr>ki_dev := end_of_interrupt p KEYBOARD_VECTOR (ki_dev s2)\<rparr>)
   }"

section \<open>Handlers that do not\<close>

text \<open>The run of prints; each keeps the state of the one before.\<close>

fun print_lines :: "'d ports \<Rightarrow> u8 list list \<Rightarrow> ('d, 'a) kernel_io_scheme \<Rightarrow> ('d, 'a) kernel_io_scheme run" where
  "print_lines p [] s = Some s"
| "print_lines p (l # ls) s = do { s1 \<leftarrow> kprintln p l s; print_lines p ls s1 }"

text \<open>\<open>exit\<close> on the kernel's state. Nothing runs after it.\<close>

definition exit_kernel :: "'d ports \<Rightarrow> exit_code \<Rightarrow> ('d, 'a) kernel_io_scheme \<Rightarrow> ('d, 'a) kernel_io_scheme" where
  "exit_kernel p code s = s\<lparr>ki_dev := exit_write p code (ki_dev s)\<rparr>"

definition report_fault ::
    "'d ports \<Rightarrow> u8 list \<Rightarrow> stack_frame \<Rightarrow> u64 option \<Rightarrow> u64 option \<Rightarrow> ('d, 'a) kernel_scheme \<Rightarrow>
     ('d, 'a) kernel_scheme run" where
  "report_fault p name frame error_code cr2 s = do {
     s \<leftarrow> print_lines p [[], ascii ''EXCEPTION: '' @ name] s;
     s \<leftarrow> (case cr2 of
       Some addr \<Rightarrow> kprintln p (ascii ''  faulting address (CR2): '' @ show_hex addr) s
     | None \<Rightarrow> Some s);
     s \<leftarrow> print_lines p
       [ascii ''  instruction pointer: '' @ show_hex (sf_instruction_pointer frame),
        ascii ''  code segment:        '' @ show_hex (sf_code_segment frame),
        ascii ''  cpu flags:           '' @ show_hex (sf_cpu_flags frame),
        ascii ''  stack pointer:       '' @ show_hex (sf_stack_pointer frame)] s;
     s \<leftarrow> (case error_code of
       Some code \<Rightarrow> kprintln p (ascii ''  error code:          '' @ show_hex code) s
     | None \<Rightarrow> Some s);
     s \<leftarrow> kprintln p (ascii ''  unrecoverable - halting'') s;
     Some (exit_kernel p Failed s)
   }"

definition divide_error_handler ::
    "'d ports \<Rightarrow> stack_frame \<Rightarrow> ('d, 'a) kernel_scheme \<Rightarrow> ('d, 'a) kernel_scheme run" where
  "divide_error_handler p frame = report_fault p (ascii ''divide error (#DE)'') frame None None"

definition invalid_opcode_handler ::
    "'d ports \<Rightarrow> stack_frame \<Rightarrow> ('d, 'a) kernel_scheme \<Rightarrow> ('d, 'a) kernel_scheme run" where
  "invalid_opcode_handler p frame = report_fault p (ascii ''invalid opcode (#UD)'') frame None None"

definition general_protection_handler ::
    "'d ports \<Rightarrow> stack_frame \<Rightarrow> u64 \<Rightarrow> ('d, 'a) kernel_scheme \<Rightarrow> ('d, 'a) kernel_scheme run" where
  "general_protection_handler p frame error_code =
     report_fault p (ascii ''general protection fault (#GP)'') frame (Some error_code) None"

text \<open>The \<open>cr2\<close> register is an argument.\<close>

definition page_fault_handler ::
    "'d ports \<Rightarrow> u64 \<Rightarrow> stack_frame \<Rightarrow> u64 \<Rightarrow> ('d, 'a) kernel_scheme \<Rightarrow> ('d, 'a) kernel_scheme run" where
  "page_fault_handler p cr2 frame error_code =
     report_fault p (ascii ''page fault (#PF)'') frame (Some error_code) (Some cr2)"

definition double_fault_handler ::
    "'d ports \<Rightarrow> statics \<Rightarrow> u64 \<Rightarrow> stack_frame \<Rightarrow> ('d, 'a) kernel_scheme \<Rightarrow> ('d, 'a) kernel_scheme run" where
  "double_fault_handler p a handler_rsp frame s = do {
     (fault_lo, fault_hi) \<leftarrow> fault_stack_range a;
     s \<leftarrow> print_lines p
       [ascii ''EXCEPTION: double fault'',
        ascii ''  faulting instruction: '' @ show_hex (sf_instruction_pointer frame),
        ascii ''  interrupted stack:    '' @ show_hex (sf_stack_pointer frame),
        ascii ''  handler stack:        '' @ show_hex handler_rsp,
        ascii ''  fault stack spans:    '' @ show_hex fault_lo @ ascii ''..'' @ show_hex fault_hi] s;
     s \<leftarrow> (if fault_lo \<le> handler_rsp \<and> handler_rsp < fault_hi then
        kprintln p (ascii ''  handler ran on the IST stack - the machine did not reset'') s
      else
        kprintln p (ascii ''  WARNING: handler is NOT on the IST stack; the switch did not happen'') s);
     Some (exit_kernel p Failed s)
   }"

section \<open>Delivery\<close>

text \<open>
  What the processor does with an interrupt gate: IF is clear while the handler runs, and \<open>iretq\<close>
  restores the interrupted flags.
\<close>

definition deliver ::
    "(('d, 'a) kernel_scheme \<Rightarrow> ('d, 'a) kernel_scheme run) \<Rightarrow> ('d, 'a) kernel_scheme \<Rightarrow> ('d, 'a) kernel_scheme run" where
  "deliver handler s = do {
     s' \<leftarrow> handler (cli s);
     Some (s'\<lparr>rflags := rflags s\<rparr>)
   }"

text \<open>A vector whose handler returns, through the table; anything else does not come back.\<close>

definition dispatch ::
    "'d ports \<Rightarrow> handlers \<Rightarrow> stack_frame \<Rightarrow> u8 \<Rightarrow> ('d, 'a) kernel_scheme \<Rightarrow> ('d, 'a) kernel_scheme run" where
  "dispatch p h frame v s =
     (case read_gate (ks_IDT s ! unat v) of
        None \<Rightarrow> None
      | Some g \<Rightarrow>
          if gt_target g = ha_breakpoint h then deliver (breakpoint_handler p frame) s
          else if gt_target g = ha_timer h then deliver (timer_handler p) s
          else if gt_target g = ha_keyboard h then deliver (keyboard_handler p) s
          else if gt_target g = ha_unhandled_irq h then deliver (unhandled_irq_handler p) s
          else None)"

text \<open>
  A processor exception. Its gate names the stack: the interrupted one, or a slot of the IST that
  the task register's TSS holds. Aligned down to 16 bytes, it takes the five words of the frame and
  an error code; where that memory cannot be written the delivery itself faults, with #SS for an
  address that is not canonical and #PF for a page that is not there. Both the page bounds and the
  bounds of the canonical addresses are multiples of 16, so a stack that takes five words there
  takes six.
\<close>

record exception =
  ex_vector :: u8
  ex_code :: u64
  ex_cr2 :: u64

datatype push_fault = Stack_Segment u64 | Stack_Page u64 u64

text \<open>
  What the processor has at hand when it delivers: the frame of the interrupted code, the frame it
  saves for a double fault (whose saved address is not defined), what the double fault handler's
  prologue takes below it, and how a push onto a stack with a given top ends.
\<close>

record cpu_context =
  cx_frame :: stack_frame
  cx_abort_frame :: stack_frame
  cx_depth :: u64
  cx_push :: "u64 \<Rightarrow> push_fault option"

definition entry_top :: "gate \<Rightarrow> descriptor_state \<Rightarrow> stack_frame \<Rightarrow> u64" where
  "entry_top g t frame =
     (case gt_ist g of
        None \<Rightarrow> sf_stack_pointer frame
      | Some i \<Rightarrow> ts_interrupt_stack_table (ds_TSS t) ! i) AND NOT (mask 4)"

definition entry_rsp :: "gate \<Rightarrow> descriptor_state \<Rightarrow> stack_frame \<Rightarrow> u64" where
  "entry_rsp g t frame = entry_top g t frame - 48"

text \<open>
  The classes of exceptions, and what a second one during the delivery of a first makes of the two:
  one is delivered after the other, or both become a double fault, or the processor shuts down.
\<close>

definition contributory :: "u8 \<Rightarrow> bool" where
  "contributory v \<longleftrightarrow> v = 0 \<or> v = 10 \<or> v = 11 \<or> v = 12 \<or> v = 13 \<or> v = 21"

definition page_class :: "u8 \<Rightarrow> bool" where
  "page_class v \<longleftrightarrow> v = 14 \<or> v = 20"

definition second_fault :: "exception \<Rightarrow> exception \<Rightarrow> exception option" where
  "second_fault e e2 =
     (if ex_vector e = 8 then None
      else if contributory (ex_vector e) \<and> contributory (ex_vector e2) \<or>
        page_class (ex_vector e) \<and> (contributory (ex_vector e2) \<or> page_class (ex_vector e2))
      then Some \<lparr>ex_vector = 8, ex_code = 0, ex_cr2 = ex_cr2 e2\<rparr>
      else Some e2)"

text \<open>
  What delivering an exception once comes to: the gate is entered, or a second exception is raised.
  An absent gate raises #GP, whose error code names the vector, with the flags for the table and
  for an event that is not an instruction of the program.
\<close>

definition try_gate ::
    "idt_entry list \<Rightarrow> descriptor_state \<Rightarrow> cpu_context \<Rightarrow> exception \<Rightarrow> exception + gate" where
  "try_gate idt t cx e =
     (case read_gate (idt ! unat (ex_vector e)) of
        None \<Rightarrow> Inl \<lparr>ex_vector = 13, ex_code = 8 * ucast (ex_vector e) + 3, ex_cr2 = ex_cr2 e\<rparr>
      | Some g \<Rightarrow> (case cx_push cx (entry_top g t (cx_frame cx)) of
            None \<Rightarrow> Inr g
          | Some (Stack_Segment code) \<Rightarrow> Inl \<lparr>ex_vector = 12, ex_code = code, ex_cr2 = ex_cr2 e\<rparr>
          | Some (Stack_Page code addr) \<Rightarrow> Inl \<lparr>ex_vector = 14, ex_code = code, ex_cr2 = addr\<rparr>))"

lemma try_gate_vector: "try_gate idt t cx e = Inl e2 \<Longrightarrow> ex_vector e2 = 12 \<or> ex_vector e2 = 13 \<or> ex_vector e2 = 14"
  by (auto simp: try_gate_def split: option.splits push_fault.splits)

definition fault_rank :: "u8 \<Rightarrow> nat" where
  "fault_rank v = (if v = 8 then 0 else if page_class v then 1 else if contributory v then 2 else 3)"

lemma class_of_second [simp]:
  "contributory 12" "contributory 13" "\<not> contributory 14" "\<not> page_class 12" "\<not> page_class 13" "page_class 14"
  by (simp_all add: contributory_def page_class_def)

lemma fault_rank_cases:
  "fault_rank 8 = 0" "fault_rank 12 = 2" "fault_rank 13 = 2" "fault_rank 14 = 1"
  "v \<noteq> 8 \<Longrightarrow> 0 < fault_rank v" "v \<noteq> 8 \<Longrightarrow> \<not> page_class v \<Longrightarrow> 1 < fault_rank v"
  "v \<noteq> 8 \<Longrightarrow> \<not> page_class v \<Longrightarrow> \<not> contributory v \<Longrightarrow> fault_rank v = 3"
  by (simp_all add: fault_rank_def)

lemma second_fault_rank:
  assumes "try_gate idt t cx e = Inl e2" and "second_fault e e2 = Some e3"
  shows "fault_rank (ex_vector e3) < fault_rank (ex_vector e)"
proof -
  have first: "ex_vector e \<noteq> 8" using assms(2) by (simp add: second_fault_def split: if_split_asm)
  consider "ex_vector e3 = 8"
    | "e3 = e2" "\<not> (contributory (ex_vector e) \<and> contributory (ex_vector e2))"
      "\<not> (page_class (ex_vector e) \<and> (contributory (ex_vector e2) \<or> page_class (ex_vector e2)))"
    using assms(2) first unfolding second_fault_def by (auto split: if_split_asm)
  then show ?thesis
  proof cases
    case 1
    then show ?thesis using fault_rank_cases(5) [OF first] by (simp add: fault_rank_cases)
  next
    case 2
    show ?thesis
      using try_gate_vector [OF assms(1)] 2 fault_rank_cases(6,7) [OF first]
      by (elim disjE) (simp_all add: fault_rank_cases)
  qed
qed

text \<open>The exception that is delivered in the end and the gate it enters; or the machine resets.\<close>

function enter_gate ::
    "idt_entry list \<Rightarrow> descriptor_state \<Rightarrow> cpu_context \<Rightarrow> exception \<Rightarrow> (exception \<times> gate) option" where
  "enter_gate idt t cx e =
     (case try_gate idt t cx e of
        Inr g \<Rightarrow> Some (e, g)
      | Inl e2 \<Rightarrow> (case second_fault e e2 of
            None \<Rightarrow> None
          | Some e3 \<Rightarrow> enter_gate idt t cx e3))"
  by pat_completeness auto
termination
  by (relation "measure (\<lambda>(idt, t, cx, e). fault_rank (ex_vector e))") (simp_all add: second_fault_rank)

declare enter_gate.simps [simp del]

text \<open>
  The handler behind the gate. IF is clear, and none of these handlers returns. The double fault's
  is the one that reads \<open>rsp\<close>.
\<close>

definition raise_fault ::
    "'d ports \<Rightarrow> handlers \<Rightarrow> statics \<Rightarrow> cpu_context \<Rightarrow> exception \<Rightarrow> gate \<Rightarrow>
     ('d, 'a) kernel_scheme \<Rightarrow> ('d, 'a) kernel_scheme run" where
  "raise_fault p h a cx e g s =
     (let frame = (if ex_vector e = 8 then cx_abort_frame cx else cx_frame cx) in
      if gt_target g = ha_divide_error h then divide_error_handler p frame (cli s)
      else if gt_target g = ha_invalid_opcode h then invalid_opcode_handler p frame (cli s)
      else if gt_target g = ha_general_protection h then general_protection_handler p frame (ex_code e) (cli s)
      else if gt_target g = ha_page_fault h then page_fault_handler p (ex_cr2 e) frame (ex_code e) (cli s)
      else if gt_target g = ha_double_fault h then
        double_fault_handler p a (entry_rsp g (ks_tables s) (cx_frame cx) - cx_depth cx) frame (cli s)
      else None)"

definition cpu_exception ::
    "'d ports \<Rightarrow> handlers \<Rightarrow> statics \<Rightarrow> cpu_context \<Rightarrow> exception \<Rightarrow>
     ('d, 'a) kernel_scheme \<Rightarrow> ('d, 'a) kernel_scheme run" where
  "cpu_exception p h a cx e s = do {
     (e', g) \<leftarrow> enter_gate (ks_IDT s) (ks_tables s) cx e;
     raise_fault p h a cx e' g s
   }"

end
