(* ===== verification/Boot_Handoff.thy ===== *)
theory Boot_Handoff
  imports Boot_Info Elf_Loader
begin

text \<open>
  The bootloader around the ELF loader: reading the kernel file (bootloader/src/file.rs),
  describing the framebuffer (graphics.rs), allocating the memory-map array (memory.rs) and the
  kernel stack, leaving boot services and jumping (handoff.rs), and \<open>main\<close> (main.rs).

  UEFI is not in this repository: its services are the record \<open>uefi\<close>, functions on a firmware
  state \<open>'w\<close> that answer each call with a status or a value. \<open>main\<close> ends in a \<open>boot_outcome\<close>:
  the failure code written to the exit device, or the state the kernel is entered with.
\<close>

section \<open>The firmware\<close>

datatype status = END_OF_FILE | INVALID_PARAMETER | UNSUPPORTED | Firmware_status nat

datatype gop_format = Gop_Rgb | Gop_Bgr | Gop_Bitmask | Gop_BltOnly

record gop_mode =
  gop_width :: usize
  gop_height :: usize
  gop_stride :: usize
  gop_format :: gop_format
  gop_addr :: u64
  gop_size :: u64

record memory_descriptor =
  md_phys_start :: u64
  md_page_count :: u64
  md_ty :: u32

record 'w uefi =
  uf_init :: "'w \<Rightarrow> bool \<times> 'w"
  uf_image_fs :: "'w \<Rightarrow> (status + unit) \<times> 'w"
  uf_open_volume :: "'w \<Rightarrow> (status + unit) \<times> 'w"
  uf_open :: "'w \<Rightarrow> (status + bool) \<times> 'w"
  uf_file_size :: "'w \<Rightarrow> (status + nat) \<times> 'w"
  uf_read :: "nat \<Rightarrow> 'w \<Rightarrow> (status + u8 list) \<times> 'w"
  uf_gop_handle :: "'w \<Rightarrow> (status + unit) \<times> 'w"
  uf_gop_open :: "'w \<Rightarrow> (status + gop_mode) \<times> 'w"
  uf_any_pages :: "usize \<Rightarrow> 'w \<Rightarrow> (status + u64) \<times> 'w"
  uf_exit_boot_services :: "'w \<Rightarrow> memory_descriptor list"

text \<open>The \<open>?\<close> operator on a firmware call.\<close>

definition try_fw ::
    "('e + 'a) \<times> 'w \<Rightarrow> ('a \<Rightarrow> 'w \<Rightarrow> ('e + 'b) \<times> 'w) \<Rightarrow> ('e + 'b) \<times> 'w" where
  "try_fw r f = (case r of (Inl e, w) \<Rightarrow> (Inl e, w) | (Inr v, w) \<Rightarrow> f v w)"

section \<open>Reading the kernel file\<close>

text \<open>
  The loop of \<open>read_file\<close>: \<open>uf_read n\<close> is a read into a slice of \<open>n\<close> bytes and answers with the
  bytes it stored.
\<close>

function read_loop ::
    "'w uefi \<Rightarrow> nat \<Rightarrow> u8 list \<Rightarrow> nat \<Rightarrow> 'w \<Rightarrow> (status + u8 list) \<times> 'w" where
  "read_loop u len buffer filled w =
     (if filled < len then
        case uf_read u (len - filled) w of
          (Inl e, w') \<Rightarrow> (Inl e, w')
        | (Inr chunk, w') \<Rightarrow>
            if length chunk = 0 then (Inl END_OF_FILE, w')
            else
              read_loop u len
                (take filled buffer @ chunk @ drop (filled + length chunk) buffer)
                (filled + length chunk) w'
      else (Inr buffer, w))"
  by pat_completeness auto
termination
  by (relation "measure (\<lambda>(u, len, buffer, filled, w). len - filled)")
    (auto intro!: diff_less_mono2)

declare read_loop.simps [simp del]

definition read_file :: "'w uefi \<Rightarrow> 'w \<Rightarrow> (status + u8 list) \<times> 'w" where
  "read_file u w =
     try_fw (uf_image_fs u w) (\<lambda>_ w.
     try_fw (uf_open_volume u w) (\<lambda>_ w.
     try_fw (uf_open u w) (\<lambda>regular w.
     if \<not> regular then (Inl INVALID_PARAMETER, w)
     else
       try_fw (uf_file_size u w) (\<lambda>len w.
       read_loop u len (replicate len 0) 0 w))))"

section \<open>The framebuffer\<close>

definition open_framebuffer :: "'w uefi \<Rightarrow> 'w \<Rightarrow> (status + frame_buffer_info) \<times> 'w" where
  "open_framebuffer u w =
     try_fw (uf_gop_handle u w) (\<lambda>_ w.
     try_fw (uf_gop_open u w) (\<lambda>mode w.
     let info = (\<lambda>format. frame_buffer_info_new (gop_addr mode) (gop_size mode) (ucast (gop_width mode))
       (ucast (gop_height mode)) (ucast (gop_stride mode)) 4 format) in
     (case gop_format mode of
        Gop_Rgb \<Rightarrow> (Inr (info Rgb), w)
      | Gop_Bgr \<Rightarrow> (Inr (info Bgr), w)
      | Gop_Bitmask \<Rightarrow> (Inl UNSUPPORTED, w)
      | Gop_BltOnly \<Rightarrow> (Inl UNSUPPORTED, w))))"

section \<open>Memory for the kernel\<close>

definition BOOT_PAGE_SIZE :: usize where "BOOT_PAGE_SIZE = 4096"
definition KERNEL_STACK_PAGES :: usize where "KERNEL_STACK_PAGES = 16"
definition REGION_CAPACITY :: usize where "REGION_CAPACITY = 256"

text \<open>\<open>size_of::<MemoryRegion>()\<close>, asserted in boot_info/src/lib.rs.\<close>

definition MEMORY_REGION_SIZE :: usize where "MEMORY_REGION_SIZE = 24"

definition allocate_region_array ::
    "'w uefi \<Rightarrow> usize \<Rightarrow> 'w \<Rightarrow> ((status + (u64 \<times> usize)) \<times> 'w) run" where
  "allocate_region_array u capacity w = do {
     bytes \<leftarrow> checked_mul capacity MEMORY_REGION_SIZE;
     let pages = div_ceil bytes BOOT_PAGE_SIZE;
     (case uf_any_pages u pages w of
        (Inl e, w') \<Rightarrow> Some (Inl e, w')
      | (Inr p, w') \<Rightarrow> do {
          span \<leftarrow> checked_mul pages BOOT_PAGE_SIZE;
          Some (Inr (p, span div MEMORY_REGION_SIZE), w')
        })
   }"

definition allocate_kernel_stack :: "'w uefi \<Rightarrow> 'w \<Rightarrow> ((status + u64) \<times> 'w) run" where
  "allocate_kernel_stack u w =
     (case uf_any_pages u KERNEL_STACK_PAGES w of
        (Inl e, w') \<Rightarrow> Some (Inl e, w')
      | (Inr bottom, w') \<Rightarrow> do {
          len \<leftarrow> checked_mul KERNEL_STACK_PAGES BOOT_PAGE_SIZE;
          top \<leftarrow> checked_add bottom len;
          rsp \<leftarrow> checked_sub (top AND NOT 0xf) 8;
          Some (Inr rsp, w')
        })"

section \<open>The jump\<close>

text \<open>The state the kernel's first instruction runs in.\<close>

record handoff =
  ho_rip :: u64
  ho_rsp :: u64
  ho_rbp :: u64
  ho_rdi :: u64
  ho_interrupts :: bool
  ho_boot_info :: boot_info
  ho_regions :: "memory_region list"

text \<open>The copy loop of \<open>exit_and_jump\<close>: the regions written and how many.\<close>

fun copy_regions :: "usize \<Rightarrow> usize \<Rightarrow> memory_descriptor list \<Rightarrow> (memory_region list \<times> usize) run" where
  "copy_regions capacity count [] = Some ([], count)"
| "copy_regions capacity count (d # ds) =
     (if capacity \<le> count then Some ([], count)
      else do {
        count' \<leftarrow> checked_add count 1;
        (rs, n) \<leftarrow> copy_regions capacity count' ds;
        Some (memory_region_new (md_phys_start d) (md_page_count d) (md_ty d) # rs, n)
      })"

definition exit_and_jump ::
    "'w uefi \<Rightarrow> u64 \<Rightarrow> boot_info \<Rightarrow> usize \<Rightarrow> u64 \<Rightarrow> u64 \<Rightarrow> 'w \<Rightarrow> handoff run" where
  "exit_and_jump u boot_info_ptr info regions_capacity entry stack_top w = do {
     (regions, count) \<leftarrow> copy_regions regions_capacity 0 (uf_exit_boot_services u w);
     Some \<lparr>ho_rip = entry, ho_rsp = stack_top, ho_rbp = 0, ho_rdi = boot_info_ptr,
       ho_interrupts = False, ho_boot_info = info\<lparr>bi_memory_regions_len := count\<rparr>,
       ho_regions = regions\<rparr>
   }"

section \<open>main\<close>

datatype qemu_exit_code = Success | Failed

definition qemu_exit_value :: "qemu_exit_code \<Rightarrow> u32" where
  "qemu_exit_value c = (case c of Success \<Rightarrow> 0x10 | Failed \<Rightarrow> 0x11)"

datatype boot_outcome = Exit qemu_exit_code | Jump handoff

definition boot_main ::
    "'w uefi \<Rightarrow> firmware \<Rightarrow> 'w \<Rightarrow> load_state \<Rightarrow> (boot_outcome \<times> load_state) run" where
  "boot_main u grants w st =
     (let (ok, w) = uf_init u w in
      if \<not> ok then Some (Exit Failed, st)
      else
        (case read_file u w of
           (Inl _, w) \<Rightarrow> Some (Exit Failed, st)
         | (Inr kernel_image, w) \<Rightarrow> do {
             (r, st) \<leftarrow> load_kernel grants kernel_image st;
             (case r of
                Inl _ \<Rightarrow> Some (Exit Failed, st)
              | Inr loaded \<Rightarrow>
                  (case open_framebuffer u w of
                     (Inl _, w) \<Rightarrow> Some (Exit Failed, st)
                   | (Inr framebuffer, w) \<Rightarrow> do {
                       (r, w) \<leftarrow> allocate_region_array u REGION_CAPACITY w;
                       (case r of
                          Inl _ \<Rightarrow> Some (Exit Failed, st)
                        | Inr (regions_ptr, regions_capacity) \<Rightarrow> do {
                            (r, w) \<leftarrow> allocate_kernel_stack u w;
                            (case r of
                               Inl _ \<Rightarrow> Some (Exit Failed, st)
                             | Inr stack_top \<Rightarrow>
                                 (case uf_any_pages u 1 w of
                                    (Inl _, w) \<Rightarrow> Some (Exit Failed, st)
                                  | (Inr boot_info_ptr, w) \<Rightarrow> do {
                                      let info = boot_info_new framebuffer regions_ptr 0
                                        (lk_base loaded) (lk_size loaded);
                                      h \<leftarrow> exit_and_jump u boot_info_ptr info regions_capacity
                                        (lk_entry loaded) stack_top w;
                                      Some (Jump h, st)
                                    }))
                          })
                     }))
           }))"

end
