(* ===== verification/Xtask.thy ===== *)
theory Xtask
  imports Screen_Check Irq Boot_Handoff
begin

text \<open>
  The test harness (xtask/src/main.rs): it builds and stages the image, boots it in QEMU, captures
  the screen, types into the guest, and judges the exit code. Files, processes, the monitor socket,
  the clock and threads are the operating system's: the record \<open>host\<close> holds one function per call
  on a state \<open>'w\<close>. What \<open>main\<close> prints is a value of \<open>report\<close>, an error message a constructor
  with the values the message shows.
\<close>

section \<open>The host\<close>

record io_error =
  io_not_found :: bool
  io_text :: "u8 list"

type_synonym path = "u8 list"

datatype xtask_error =
    No_Capture path io_error
  | Bad_Capture screen_error
  | No_Monitor
  | Remove_Failed path io_error
  | Request_Failed io_error
  | No_Text nat xtask_error
  | Launch_Failed io_error
  | Poll_Failed io_error
  | Timed_Out nat
  | Cargo_Not_Run io_error
  | Cargo_Failed
  | Kernel_Cargo_Not_Run io_error
  | Kernel_Cargo_Failed
  | Esp_Dirs io_error
  | Copy_Bootloader io_error
  | Copy_Kernel io_error
  | Copy_Vars io_error
  | Read_Kernel io_error
  | Too_Small
  | Write_Corrupted io_error
  | Restore_Failed io_error

datatype report =
    Say_Fail xtask_error
  | Say_Internal_Failure
  | Say_Unexpected int int
  | Say_Signal
  | Say_Corrupt_Accepted
  | Say_Pass_Run
  | Say_Pass_Test
  | Say_Corrupted
  | Say_Restored
  | Say_No_Keys
  | Say_Unknown "u8 list"
  | Say_Usage

record 'w host =
  ho_manifest_parent :: "path option"
  ho_pid :: nat
  ho_read :: "path \<Rightarrow> 'w \<Rightarrow> (io_error + u8 list) \<times> 'w"
  ho_write :: "path \<Rightarrow> u8 list \<Rightarrow> 'w \<Rightarrow> (io_error + unit) \<times> 'w"
  ho_remove :: "path \<Rightarrow> 'w \<Rightarrow> (io_error + unit) \<times> 'w"
  ho_create_dirs :: "path \<Rightarrow> 'w \<Rightarrow> (io_error + unit) \<times> 'w"
  ho_copy :: "path \<Rightarrow> path \<Rightarrow> 'w \<Rightarrow> (io_error + unit) \<times> 'w"
  ho_cargo :: "u8 list list \<Rightarrow> path \<Rightarrow> 'w \<Rightarrow> (io_error + bool) \<times> 'w"
  ho_spawn :: "u8 list list \<Rightarrow> 'w \<Rightarrow> (io_error + unit) \<times> 'w"
  ho_try_wait :: "'w \<Rightarrow> (io_error + int option option) \<times> 'w"
  ho_kill :: "'w \<Rightarrow> 'w"
  ho_wait :: "'w \<Rightarrow> 'w option"
  ho_connect :: "path \<Rightarrow> 'w \<Rightarrow> bool \<times> 'w"
  ho_send :: "u8 list \<Rightarrow> 'w \<Rightarrow> (io_error + unit) \<times> 'w"
  ho_thread :: "('w \<Rightarrow> 'w) \<Rightarrow> 'w \<Rightarrow> 'w"
  ho_sleep :: "nat \<Rightarrow> 'w \<Rightarrow> 'w"
  ho_now :: "'w \<Rightarrow> nat"
  ho_env_set :: "u8 list \<Rightarrow> 'w \<Rightarrow> bool"
  ho_say :: "report \<Rightarrow> 'w \<Rightarrow> 'w"

text \<open>
  \<open>Child::wait\<close> blocks until the child has exited: on a child that never does, \<open>ho_wait\<close> is \<open>None\<close>. The
  results of \<open>kill\<close> and \<open>wait\<close> are dropped by the code and left out. \<open>map_err\<close>; the \<open>?\<close> operator is \<open>try_fw\<close>.
\<close>

definition map_err :: "('e \<Rightarrow> 'f) \<Rightarrow> ('e + 'a) \<times> 'w \<Rightarrow> ('f + 'a) \<times> 'w" where
  "map_err g r = (case r of (Inl e, w) \<Rightarrow> (Inl (g e), w) | (Inr a, w) \<Rightarrow> (Inr a, w))"

section \<open>Constants and paths\<close>

definition OVMF_CODE :: path where "OVMF_CODE = ascii ''/usr/share/OVMF/OVMF_CODE_4M.fd''"
definition OVMF_VARS_SRC :: path where "OVMF_VARS_SRC = ascii ''/usr/share/OVMF/OVMF_VARS_4M.fd''"
definition EXPECTED_EXIT_CODE :: int where "EXPECTED_EXIT_CODE = 33"
definition FAILURE_EXIT_CODE :: int where "FAILURE_EXIT_CODE = 35"

text \<open>Durations in milliseconds.\<close>

definition QEMU_TIMEOUT :: nat where "QEMU_TIMEOUT = 60 * 1000"
definition SCREEN_CAPTURE_TIMEOUT :: nat where "SCREEN_CAPTURE_TIMEOUT = 30 * 1000"
definition SCREEN_CAPTURE_POLL_INTERVAL :: nat where "SCREEN_CAPTURE_POLL_INTERVAL = 250"

definition screenshot_path :: "'w host \<Rightarrow> path" where
  "screenshot_path h = ascii ''/tmp/rust_bl_screen_'' @ digits 10 (ho_pid h) @ ascii ''.ppm''"

definition monitor_socket_path :: "'w host \<Rightarrow> path" where
  "monitor_socket_path h = ascii ''/tmp/rust_bl_monitor_'' @ digits 10 (ho_pid h) @ ascii ''.sock''"

text \<open>\<open>None\<close> is the panic of \<open>expect\<close>.\<close>

definition workspace_root :: "'w host \<Rightarrow> path run" where
  "workspace_root h = ho_manifest_parent h"

definition path_join :: "path \<Rightarrow> string \<Rightarrow> path" where
  "path_join root p = root @ [0x2f] @ ascii p"

section \<open>Building and staging\<close>

record staged =
  sg_esp_dir :: path
  sg_vars_copy :: path

definition build_bootloader :: "'w host \<Rightarrow> path \<Rightarrow> 'w \<Rightarrow> (xtask_error + unit) \<times> 'w" where
  "build_bootloader h root w =
     try_fw (map_err Cargo_Not_Run (ho_cargo h
         (map ascii [''build'', ''-p'', ''bootloader'', ''--target'', ''x86_64-unknown-uefi'']) root w))
       (\<lambda>success w. (ensure success Cargo_Failed, w))"

definition build_kernel :: "'w host \<Rightarrow> path \<Rightarrow> 'w \<Rightarrow> (xtask_error + unit) \<times> 'w" where
  "build_kernel h root w =
     try_fw (map_err Kernel_Cargo_Not_Run (ho_cargo h
         (map ascii [''build'', ''-p'', ''kernel'', ''--target'', ''x86_64-unknown-none'']) root w))
       (\<lambda>success w. (ensure success Kernel_Cargo_Failed, w))"

definition stage_esp :: "'w host \<Rightarrow> path \<Rightarrow> 'w \<Rightarrow> (xtask_error + path) \<times> 'w" where
  "stage_esp h root w =
     (let esp_boot_dir = path_join root ''target/esp/EFI/BOOT'' in
      try_fw (map_err Esp_Dirs (ho_create_dirs h esp_boot_dir w)) (\<lambda>_ w.
      try_fw (map_err Copy_Bootloader (ho_copy h
          (path_join root ''target/x86_64-unknown-uefi/debug/bootloader.efi'')
          (path_join esp_boot_dir ''BOOTX64.EFI'') w)) (\<lambda>_ w.
      try_fw (map_err Copy_Kernel (ho_copy h
          (path_join root ''target/x86_64-unknown-none/debug/kernel'')
          (path_join root ''target/esp/kernel.elf'') w)) (\<lambda>_ w.
      (Inr (path_join root ''target/esp''), w)))))"

definition copy_ovmf_vars :: "'w host \<Rightarrow> path \<Rightarrow> 'w \<Rightarrow> (xtask_error + path) \<times> 'w" where
  "copy_ovmf_vars h root w =
     (let dest = path_join root ''target/OVMF_VARS.fd'' in
      try_fw (map_err Copy_Vars (ho_copy h OVMF_VARS_SRC dest w)) (\<lambda>_ w. (Inr dest, w)))"

definition build_and_stage :: "'w host \<Rightarrow> path \<Rightarrow> 'w \<Rightarrow> (xtask_error + staged) \<times> 'w" where
  "build_and_stage h root w =
     try_fw (build_bootloader h root w) (\<lambda>_ w.
     try_fw (build_kernel h root w) (\<lambda>_ w.
     try_fw (stage_esp h root w) (\<lambda>esp_dir w.
     try_fw (copy_ovmf_vars h root w) (\<lambda>vars_copy w.
     (Inr \<lparr>sg_esp_dir = esp_dir, sg_vars_copy = vars_copy\<rparr>, w)))))"

section \<open>The screen and the keyboard\<close>

definition check_screen_has_text :: "'w host \<Rightarrow> path \<Rightarrow> 'w \<Rightarrow> (xtask_error + unit) \<times> 'w" where
  "check_screen_has_text h screenshot w =
     try_fw (map_err (No_Capture screenshot) (ho_read h screenshot w)) (\<lambda>data w.
     map_err Bad_Capture (check_capture data, w))"

fun connect_loop :: "'w host \<Rightarrow> path \<Rightarrow> nat \<Rightarrow> 'w \<Rightarrow> bool \<times> 'w" where
  "connect_loop h socket_path 0 w = (False, w)"
| "connect_loop h socket_path (Suc n) w =
     (case ho_connect h socket_path (ho_sleep h 100 w) of
        (True, w) \<Rightarrow> (True, w)
      | (False, w) \<Rightarrow> connect_loop h socket_path n w)"

fun send_keys :: "'w host \<Rightarrow> nat \<Rightarrow> 'w \<Rightarrow> 'w" where
  "send_keys h 0 w = w"
| "send_keys h (Suc n) w =
     (case ho_send h (ascii ''sendkey a'' @ [0x0a]) (ho_sleep h 500 w) of
        (Inl _, w) \<Rightarrow> w
      | (Inr _, w) \<Rightarrow> send_keys h n w)"

text \<open>A file that was not there counts as removed.\<close>

definition removed :: "path \<Rightarrow> (io_error + unit) \<times> 'w \<Rightarrow> (xtask_error + unit) \<times> 'w" where
  "removed screenshot r =
     (case r of
        (Inr _, w) \<Rightarrow> (Inr (), w)
      | (Inl e, w) \<Rightarrow> if io_not_found e then (Inr (), w) else (Inl (Remove_Failed screenshot e), w))"

text \<open>One pass of the capture loop: the check's result, or an error that ends the loop.\<close>

definition capture_once ::
    "'w host \<Rightarrow> path \<Rightarrow> 'w \<Rightarrow> (xtask_error + (xtask_error + unit)) \<times> 'w" where
  "capture_once h screenshot w =
     try_fw (removed screenshot (ho_remove h screenshot w)) (\<lambda>_ w.
     try_fw (map_err Request_Failed (ho_send h (ascii ''screendump '' @ screenshot @ [0x0a]) w)) (\<lambda>_ w.
     (case check_screen_has_text h screenshot (ho_sleep h SCREEN_CAPTURE_POLL_INTERVAL w) of
        (r, w) \<Rightarrow> (Inr r, w))))"

partial_function (option) capture_loop ::
    "'w host \<Rightarrow> path \<Rightarrow> nat \<Rightarrow> 'w \<Rightarrow> ((xtask_error + unit) \<times> 'w) run" where
  "capture_loop h screenshot deadline w =
     (case capture_once h screenshot w of
        (Inl e, w) \<Rightarrow> Some (Inl e, w)
      | (Inr (Inr _), w) \<Rightarrow> Some (Inr (), w)
      | (Inr (Inl msg), w) \<Rightarrow>
          if deadline \<le> ho_now h w then Some (Inl (No_Text (SCREEN_CAPTURE_TIMEOUT div 1000) msg), w)
          else capture_loop h screenshot deadline w)"

definition inject_keystrokes :: "'w host \<Rightarrow> path \<Rightarrow> path \<Rightarrow> 'w \<Rightarrow> ((xtask_error + unit) \<times> 'w) run" where
  "inject_keystrokes h socket_path screenshot w =
     (if ho_env_set h (ascii ''XTASK_NO_KEYS'') w then Some (Inr (), ho_say h Say_No_Keys w)
      else
        (case connect_loop h socket_path 100 w of
           (False, w) \<Rightarrow> Some (Inl No_Monitor, w)
         | (True, w) \<Rightarrow> do {
             (r, w) \<leftarrow> capture_loop h screenshot (ho_now h w + SCREEN_CAPTURE_TIMEOUT) w;
             (case r of
                Inl e \<Rightarrow> Some (Inl e, w)
              | Inr _ \<Rightarrow> Some (Inr (), ho_thread h (send_keys h 40) w))
           }))"

section \<open>QEMU\<close>

definition qemu_args :: "'w host \<Rightarrow> staged \<Rightarrow> u8 list list" where
  "qemu_args h st =
     [ascii ''-drive'', ascii ''if=pflash,format=raw,readonly=on,file='' @ OVMF_CODE,
      ascii ''-drive'', ascii ''if=pflash,format=raw,file='' @ sg_vars_copy st,
      ascii ''-drive'', ascii ''format=raw,file=fat:rw:'' @ sg_esp_dir st,
      ascii ''-device'', ascii ''isa-debug-exit,iobase=0xf4,iosize=0x04'',
      ascii ''-no-reboot'', ascii ''-m'', ascii ''256M'', ascii ''-display'', ascii ''none'',
      ascii ''-serial'', ascii ''stdio'',
      ascii ''-monitor'', ascii ''unix:'' @ monitor_socket_path h @ ascii '',server,nowait'']"

text \<open>\<open>None\<close> in the result: the deadline passed.\<close>

partial_function (option) wait_child ::
    "'w host \<Rightarrow> nat \<Rightarrow> 'w \<Rightarrow> ((xtask_error + int option option) \<times> 'w) run" where
  "wait_child h deadline w =
     (case ho_try_wait h w of
        (Inl e, w) \<Rightarrow> Some (Inl (Poll_Failed e), w)
      | (Inr (Some code), w) \<Rightarrow> Some (Inr (Some code), w)
      | (Inr None, w) \<Rightarrow>
          if deadline \<le> ho_now h w then Some (Inr None, w)
          else wait_child h deadline (ho_sleep h 100 w))"

definition boot_qemu ::
    "'w host \<Rightarrow> staged \<Rightarrow> bool \<Rightarrow> path \<Rightarrow> 'w \<Rightarrow> ((xtask_error + int option) \<times> 'w) run" where
  "boot_qemu h st inject screenshot w =
     (let socket_path = monitor_socket_path h;
          w = snd (ho_remove h socket_path w) in
      case map_err Launch_Failed (ho_spawn h (qemu_args h st) w) of
        (Inl e, w) \<Rightarrow> Some (Inl e, w)
      | (Inr _, w) \<Rightarrow> do {
          (r, w) \<leftarrow> (if inject then inject_keystrokes h socket_path screenshot w else Some (Inr (), w));
          (case r of
             Inl msg \<Rightarrow> do {
               w \<leftarrow> ho_wait h (ho_kill h w);
               Some (Inl msg, w)
             }
           | Inr _ \<Rightarrow> do {
               (r, w) \<leftarrow> wait_child h (ho_now h w + QEMU_TIMEOUT) w;
               (case r of
                  Inl e \<Rightarrow> Some (Inl e, w)
                | Inr (Some code) \<Rightarrow> Some (Inr code, w)
                | Inr None \<Rightarrow> do {
                    w \<leftarrow> ho_wait h (ho_kill h w);
                    Some (Inl (Timed_Out (QEMU_TIMEOUT div 1000)), w)
                  })
             })
        })"

section \<open>The two commands\<close>

datatype exit_status = SUCCESS | FAILURE

definition report_failure :: "'w host \<Rightarrow> xtask_error \<Rightarrow> 'w \<Rightarrow> exit_status \<times> 'w" where
  "report_failure h e w = (FAILURE, ho_say h (Say_Fail e) w)"

definition run_verdict :: "'w host \<Rightarrow> path \<Rightarrow> int option \<Rightarrow> 'w \<Rightarrow> exit_status \<times> 'w" where
  "run_verdict h screenshot observed w =
     (case observed of
        Some code \<Rightarrow>
          if code = EXPECTED_EXIT_CODE then
            (case check_screen_has_text h screenshot w of
               (Inl msg, w) \<Rightarrow> report_failure h msg w
             | (Inr _, w) \<Rightarrow> (SUCCESS, ho_say h Say_Pass_Run w))
          else if code = FAILURE_EXIT_CODE then (FAILURE, ho_say h Say_Internal_Failure w)
          else (FAILURE, ho_say h (Say_Unexpected EXPECTED_EXIT_CODE code) w)
      | None \<Rightarrow> (FAILURE, ho_say h Say_Signal w))"

definition xtask_run :: "'w host \<Rightarrow> 'w \<Rightarrow> (exit_status \<times> 'w) run" where
  "xtask_run h w = do {
     root \<leftarrow> workspace_root h;
     (case build_and_stage h root w of
        (Inl msg, w) \<Rightarrow> Some (report_failure h msg w)
      | (Inr st, w) \<Rightarrow> do {
          let screenshot = screenshot_path h;
          (r, w) \<leftarrow> boot_qemu h st True screenshot w;
          (case r of
             Inl msg \<Rightarrow> Some (report_failure h msg w)
           | Inr observed \<Rightarrow> Some (run_verdict h screenshot observed w))
        })
   }"

definition test_verdict :: "'w host \<Rightarrow> int option \<Rightarrow> 'w \<Rightarrow> exit_status \<times> 'w" where
  "test_verdict h observed w =
     (case observed of
        Some code \<Rightarrow>
          if code = FAILURE_EXIT_CODE then (SUCCESS, ho_say h Say_Pass_Test w)
          else if code = EXPECTED_EXIT_CODE then (FAILURE, ho_say h Say_Corrupt_Accepted w)
          else (FAILURE, ho_say h (Say_Unexpected FAILURE_EXIT_CODE code) w)
      | None \<Rightarrow> (FAILURE, ho_say h Say_Signal w))"

text \<open>\<open>corrupted[..4].copy_from_slice(b"XXXX")\<close>.\<close>

definition corrupt :: "u8 list \<Rightarrow> u8 list" where
  "corrupt bytes = ascii ''XXXX'' @ drop 4 bytes"

definition xtask_test :: "'w host \<Rightarrow> 'w \<Rightarrow> (exit_status \<times> 'w) run" where
  "xtask_test h w = do {
     root \<leftarrow> workspace_root h;
     (case build_and_stage h root w of
        (Inl msg, w) \<Rightarrow> Some (report_failure h msg w)
      | (Inr st, w) \<Rightarrow>
          let kernel = path_join root ''target/esp/kernel.elf'' in
          (case ho_read h kernel w of
             (Inl e, w) \<Rightarrow> Some (report_failure h (Read_Kernel e) w)
           | (Inr pristine, w) \<Rightarrow>
               if length pristine < 4 then Some (report_failure h Too_Small w)
               else
                 (case ho_write h kernel (corrupt pristine) w of
                    (Inl e, w) \<Rightarrow> Some (report_failure h (Write_Corrupted e) w)
                  | (Inr _, w) \<Rightarrow> do {
                      (observed, w) \<leftarrow> boot_qemu h st False (screenshot_path h) (ho_say h Say_Corrupted w);
                      (case ho_write h kernel pristine w of
                         (Inl e, w) \<Rightarrow> Some (report_failure h (Restore_Failed e) w)
                       | (Inr _, w) \<Rightarrow>
                           let w = ho_say h Say_Restored w in
                           (case observed of
                              Inl msg \<Rightarrow> Some (report_failure h msg w)
                            | Inr code \<Rightarrow> Some (test_verdict h code w)))
                    })))
   }"

definition xtask_main :: "'w host \<Rightarrow> u8 list list \<Rightarrow> 'w \<Rightarrow> (exit_status \<times> 'w) run" where
  "xtask_main h args w =
     (if length args \<le> 1 then Some (FAILURE, ho_say h Say_Usage w)
      else if args ! 1 = ascii ''run'' then xtask_run h w
      else if args ! 1 = ascii ''test'' then xtask_test h w
      else Some (FAILURE, ho_say h (Say_Unknown (args ! 1)) w))"

end
