(* ===== verification/Elf_Props.thy ===== *)
theory Elf_Props
  imports Elf_Loader
begin

text \<open>
  Correctness of the ELF loader: what the parser accepts, where the loader writes, and what
  memory holds once it has returned a kernel. \<open>fw_ok\<close> is what the loader relies on of
  \<open>allocate_pages\<close>; everything else holds for every image, well formed or not.
\<close>

section \<open>Bytes\<close>

fun to_le_bytes :: "nat \<Rightarrow> 'a::len word \<Rightarrow> u8 list" where
  "to_le_bytes 0 w = []"
| "to_le_bytes (Suc n) w = ucast w # to_le_bytes n (drop_bit 8 w)"

lemma length_to_le_bytes [simp]: "length (to_le_bytes n w) = n"
  by (induction n arbitrary: w) auto

lemma from_to_le_bytes: "from_le_bytes (to_le_bytes n w) = take_bit (8 * n) w"
proof (induction n arbitrary: w)
  case (Suc n)
  show ?case
    by (rule bit_word_eqI) (auto simp: Suc bit_simps ac_simps dest: bit_imp_le_length)
qed simp

lemma from_to_le_bytes_u16 [simp]: "from_le_bytes (to_le_bytes 2 w) = (w :: u16)"
  and from_to_le_bytes_u32 [simp]: "from_le_bytes (to_le_bytes 4 v) = (v :: u32)"
  and from_to_le_bytes_u64 [simp]: "from_le_bytes (to_le_bytes 8 x) = (x :: u64)"
  by (simp_all add: from_to_le_bytes take_bit_word_eq_self)

text \<open>The bytes at an offset, read little-endian, when they are there.\<close>

definition le_at :: "u8 list \<Rightarrow> nat \<Rightarrow> nat \<Rightarrow> 'a::len word" where
  "le_at img off n = from_le_bytes (take n (drop off img))"

lemma get_slice_eq:
  "get_slice img a b = Some bs \<longleftrightarrow>
     unat a \<le> unat b \<and> unat b \<le> length img \<and> bs = take (unat b - unat a) (drop (unat a) img)"
  by (auto simp: get_slice_def word_le_nat_alt)

lemma read_eq:
  assumes "length img < 2 ^ 63"
  shows "read_u16 img a = (if unat a + 2 \<le> length img then Some (le_at img (unat a) 2) else None)"
    and "read_u32 img a = (if unat a + 4 \<le> length img then Some (le_at img (unat a) 4) else None)"
    and "read_u64 img a = (if unat a + 8 \<le> length img then Some (le_at img (unat a) 8) else None)"
proof -
  have slice: "(do { stop \<leftarrow> checked_add a k; bs \<leftarrow> get_slice img a stop; Some (g bs) }) =
      (if unat a + unat k \<le> length img then Some (g (take (unat k) (drop (unat a) img))) else None)"
    for k and g :: "u8 list \<Rightarrow> 'b"
  proof (cases "checked_add a k")
    case None
    then have "\<not> unat a + unat k \<le> length img" using assms by simp
    then show ?thesis using None by (simp del: checked_add_None_iff)
  next
    case (Some stop)
    then have "unat stop = unat a + unat k" by simp
    then show ?thesis using Some
      by (auto simp: get_slice_def word_le_nat_alt simp del: checked_add_Some_iff)
  qed
  show "read_u16 img a = (if unat a + 2 \<le> length img then Some (le_at img (unat a) 2) else None)"
    using slice [of 2 "from_le_bytes :: u8 list \<Rightarrow> u16"] by (simp add: read_u16_def le_at_def)
  show "read_u32 img a = (if unat a + 4 \<le> length img then Some (le_at img (unat a) 4) else None)"
    using slice [of 4 "from_le_bytes :: u8 list \<Rightarrow> u32"] by (simp add: read_u32_def le_at_def)
  show "read_u64 img a = (if unat a + 8 \<le> length img then Some (le_at img (unat a) 8) else None)"
    using slice [of 8 "from_le_bytes :: u8 list \<Rightarrow> u64"] by (simp add: read_u64_def le_at_def)
qed

lemma try_with_simps [simp]: "try_with (Inl e) f = Inl e" "try_with (Inr v) f = f v"
  by (simp_all add: try_with_def)

lemma ok_or_simps [simp]: "ok_or None e = Inl e" "ok_or (Some v) e = Inr v"
  by (simp_all add: ok_or_def)

lemma try_with_Inr: "try_with r f = Inr x \<longleftrightarrow> (\<exists>v. r = Inr v \<and> f v = Inr x)"
  by (cases r) auto

lemma ok_or_Inr: "ok_or x e = Inr v \<longleftrightarrow> x = Some v"
  by (cases x) auto

section \<open>The header\<close>

lemma parse_header_Inr:
  assumes "length img < 2 ^ 63"
  shows "parse_header img = Inr (entry, phoff, phentsize, phnum) \<longleftrightarrow>
    64 \<le> length img \<and> take 4 img = [0x7f, 0x45, 0x4c, 0x46] \<and> img ! 4 = 2 \<and> img ! 5 = 1 \<and>
    le_at img 16 2 = (2 :: u16) \<and> le_at img 18 2 = (0x3e :: u16) \<and>
    entry = le_at img 24 8 \<and> phoff = le_at img 32 8 \<and> phentsize = le_at img 54 2 \<and>
    phentsize = 56 \<and> phnum = le_at img 56 2"
proof -
  have w: "unat (le_at img 54 2 :: u16) = 56 \<longleftrightarrow> (le_at img 54 2 :: u16) = 56"
    by (simp add: word_unat_eq_iff)
  show ?thesis
    using read_eq [OF assms]
    by (auto simp: parse_header_def EHDR_SIZE_def PHDR_SIZE_def ELF_MAGIC_def EI_CLASS_def EI_DATA_def
        ELFCLASS64_def ELFDATA2LSB_def ET_EXEC_def EM_X86_64_def w not_less)
qed

section \<open>Page rounding\<close>

lemma unat_align_down: "unat (align_down v) = round_down (unat v) 4096"
  using unat_and_not_mask [of v 12]
  by (simp add: align_down_def ELF_PAGE_SIZE_def mask_eq_exp_minus_1 round_down_def minus_mod_eq_div_mult)

lemma round_up_down: "round_up a 4096 = round_down (a + 4095) 4096"
proof (rule antisym)
  have "round_up a 4096 \<le> a + 4095" using round_up_less [of 4096 a] by simp
  then show "round_up a 4096 \<le> round_down (a + 4095) 4096"
    by (intro round_down_greatest) (simp_all add: round_up_dvd)
  show "round_down (a + 4095) 4096 \<le> round_up a 4096"
  proof (rule ccontr)
    assume "\<not> ?thesis"
    then have "round_up a 4096 + 4096 \<le> round_down (a + 4095) 4096"
      by (intro dvd_step) (simp_all add: round_up_dvd round_down_dvd)
    then show False using round_up_ge [of a 4096] round_down_le [of "a + 4095" 4096] by linarith
  qed
qed

lemma align_up_eq:
  "align_up v = Some w \<longleftrightarrow> unat v + 4095 < 2 ^ 64 \<and> unat w = round_up (unat v) 4096"
proof (cases "checked_add v (ELF_PAGE_SIZE - 1)")
  case None
  then show ?thesis by (simp add: align_up_def ELF_PAGE_SIZE_def del: checked_add_None_iff) simp
next
  case (Some x)
  then have x: "unat x = unat v + 4095" by (simp add: ELF_PAGE_SIZE_def)
  then have "unat v + 4095 < 2 ^ 64" using unat_u64_bound [of x] by simp
  moreover have "align_up v = Some (align_down x)"
    using Some by (simp add: align_up_def align_down_def del: checked_add_Some_iff)
  moreover have "unat (align_down x) = round_up (unat v) 4096"
    unfolding unat_align_down x round_up_down ..
  ultimately show ?thesis by (metis option.inject word_unat_eq_iff)
qed

lemma unat_div_ceil: "4096 * unat (div_ceil v ELF_PAGE_SIZE) = round_up (unat v) 4096"
proof -
  have m: "v mod ELF_PAGE_SIZE = 0 \<longleftrightarrow> unat v mod 4096 = 0" and d: "unat (v div ELF_PAGE_SIZE) = unat v div 4096"
    by (simp_all add: ELF_PAGE_SIZE_def mod_eq_0_unat unat_div_distrib)
  have "unat v div 4096 < 2 ^ 52"
    using unat_u64_bound [of v] by (simp add: less_mult_imp_div_less)
  then have "unat (v div ELF_PAGE_SIZE + 1) = unat v div 4096 + 1"
    using d by (simp add: unat_add_small)
  then show ?thesis
    using m d minus_mod_eq_mult_div [of "unat v" 4096] mod_less_divisor [of 4096 "unat v"]
    by (auto simp: div_ceil_def round_up_def)
qed

lemma word_in_range:
  assumes "unat p + unat n \<le> 2 ^ 64"
  shows "(a :: u64) - p < n \<longleftrightarrow> unat p \<le> unat a \<and> unat a < unat p + unat n"
proof (cases "p \<le> a")
  case True
  then have "unat (a - p) = unat a - unat p" by (simp add: unat_sub_le word_le_nat_alt)
  then show ?thesis using True by (auto simp: word_less_nat_alt word_le_nat_alt)
next
  case False
  then have "unat (a - p) = unat a + 18446744073709551616 - unat p"
    by (simp add: unat_sub_if' word_le_nat_alt)
  then have "unat (a - p) + unat p = unat a + 18446744073709551616" using unat_u64_bound [of p] by linarith
  then show ?thesis using False assms by (auto simp: word_less_nat_alt word_le_nat_alt)
qed

section \<open>One segment\<close>

fun page_bytes :: "page_range \<Rightarrow> nat set" where
  "page_bytes (p, n) = {unat p..<unat p + 4096 * unat n}"

definition ranges :: "page_range list \<Rightarrow> nat set" where
  "ranges gs = (\<Union>g \<in> set gs. page_bytes g)"

lemma ranges_simps [simp]:
  "ranges [] = {}" "ranges (g # gs) = page_bytes g \<union> ranges gs" "ranges (as @ bs) = ranges as \<union> ranges bs"
  by (simp_all add: ranges_def)

text \<open>
  The firmware hands out pages below the last page of the address space, and never pages it has
  handed out before.
\<close>

definition fw_ok :: "firmware \<Rightarrow> bool" where
  "fw_ok grants \<longleftrightarrow> (\<forall>h p n. grants h p n \<longrightarrow>
     unat p + 4096 * unat n < 2 ^ 64 \<and> page_bytes (p, n) \<inter> ranges h = {})"

definition seg_bytes :: "load_segment \<Rightarrow> nat set" where
  "seg_bytes seg = {unat (ls_vaddr seg)..<unat (ls_vaddr seg) + unat (ls_memsz seg)}"

text \<open>The file part of the segment is in memory at its address, the rest of it is zero.\<close>

definition seg_loaded :: "u8 list \<Rightarrow> load_segment \<Rightarrow> byte_memory \<Rightarrow> bool" where
  "seg_loaded img seg m \<longleftrightarrow>
     (\<forall>a. unat a \<in> seg_bytes seg \<longrightarrow>
        m a = (let i = unat a - unat (ls_vaddr seg) in
               if i < unat (ls_filesz seg) then img ! (unat (ls_offset seg) + i) else 0))"

definition seg_ok :: "u8 list \<Rightarrow> load_segment \<Rightarrow> bool" where
  "seg_ok img seg \<longleftrightarrow> ls_filesz seg \<le> ls_memsz seg \<and>
     unat (ls_offset seg) + unat (ls_filesz seg) \<le> length img \<and>
     unat (ls_vaddr seg) + unat (ls_memsz seg) < 2 ^ 64"

lemma load_segment_spec:
  assumes fw: "fw_ok grants" and ok: "seg_ok img seg"
  shows "load_segment_into grants img seg st = Some (Inl AllocationFailed, st) \<or>
    (\<exists>st' new. load_segment_into grants img seg st = Some (Inr (), st') \<and>
      ld_granted st' = ld_granted st @ new \<and> ranges new \<inter> ranges (ld_granted st) = {} \<and>
      (\<forall>a. unat a \<notin> ranges new \<longrightarrow> ld_mem st' a = ld_mem st a) \<and>
      seg_loaded img seg (ld_mem st') \<and> seg_bytes seg \<subseteq> ranges new \<and>
      ranges new \<subseteq> {round_down (unat (ls_vaddr seg)) 4096..<
        round_up (unat (ls_vaddr seg) + unat (ls_memsz seg)) 4096} \<and>
      unat (ls_vaddr seg) + unat (ls_memsz seg) + 4095 < 2 ^ 64)"
proof -
  define v where "v = unat (ls_vaddr seg)"
  define k where "k = unat (ls_memsz seg)"
  define d where "d = round_down v 4096"
  let ?ps = "align_down (ls_vaddr seg)"
  have ps: "unat ?ps = d" by (simp add: d_def v_def unat_align_down)
  have dv: "d \<le> v" "4096 dvd d" "v < d + 4096"
    by (simp_all add: d_def round_down_dvd round_down_greater)
  have vk: "v + k < 2 ^ 64" and fk: "unat (ls_filesz seg) \<le> k"
    using ok by (simp_all add: seg_ok_def v_def k_def word_le_nat_alt)
  have pad: "checked_sub (ls_vaddr seg) ?ps = Some (ls_vaddr seg - ?ps)"
    "unat (ls_vaddr seg - ?ps) = v - d"
    using dv(1) ps by (auto simp: checked_sub_def word_le_nat_alt unat_sub_le v_def)
  have "v - d + k < 2 ^ 64" using vk dv(1) by linarith
  then have "checked_add (ls_vaddr seg - ?ps) (ls_memsz seg) \<noteq> None" using pad(2) by (simp add: k_def)
  then obtain span where span: "checked_add (ls_vaddr seg - ?ps) (ls_memsz seg) = Some span" by blast
  then have su: "unat span = v - d + k" using pad(2) by (simp add: k_def)
  let ?pages = "div_ceil span ELF_PAGE_SIZE"
  have pg: "d + 4096 * unat ?pages = round_up (v + k) 4096"
  proof -
    obtain q where q: "d = 4096 * q" using dv(2) by blast
    have "v + k = 4096 * q + unat span" using su dv(1) q by simp
    then show ?thesis unfolding unat_div_ceil by (simp add: q round_up_def add.assoc)
  qed
  have step: "load_segment_into grants img seg st =
      (if span = 0 then Some (Inr (), st)
       else if \<not> grants (ld_granted st) ?ps ?pages then Some (Inl AllocationFailed, st)
       else do {
         n \<leftarrow> checked_mul ?pages ELF_PAGE_SIZE;
         Some (Inr (), \<lparr>ld_mem = copy_from img (ls_offset seg) (ls_vaddr seg) (ls_filesz seg)
             (write_bytes ?ps 0 n (ld_mem st)),
           ld_granted = ld_granted st @ [(?ps, ?pages)]\<rparr>)
       })"
    using pad(1) span by (simp add: load_segment_into_def Let_def del: checked_add_Some_iff checked_sub_Some_iff)
  consider "span = 0" | "span \<noteq> 0" "\<not> grants (ld_granted st) ?ps ?pages"
    | "span \<noteq> 0" "grants (ld_granted st) ?ps ?pages" by blast
  then show ?thesis
  proof cases
    case 1
    then have "k = 0" "v = d" using su dv(1) by auto
    moreover have "v + 4095 < 2 ^ 64"
    proof -
      have "v < 2 ^ 64" "4096 dvd (2 :: nat) ^ 64" using vk by simp_all
      then have "v + 4096 \<le> 2 ^ 64" using dvd_step [of 4096 v "2 ^ 64"] dv(2) \<open>v = d\<close> by blast
      then show ?thesis by linarith
    qed
    ultimately show ?thesis using step 1
      by (intro disjI2 exI [of _ st] exI [of _ "[]"]) (simp add: seg_loaded_def seg_bytes_def v_def k_def)
  next
    case 2
    then show ?thesis using step by simp
  next
    case 3
    have "d + 4096 * unat ?pages < 2 ^ 64" and fresh: "page_bytes (?ps, ?pages) \<inter> ranges (ld_granted st) = {}"
      using fw 3(2) ps by (auto simp: fw_ok_def)
    then have lt: "d + 4096 * unat ?pages < 2 ^ 64" by blast
    then have "checked_mul ?pages ELF_PAGE_SIZE \<noteq> None" by (simp add: ELF_PAGE_SIZE_def)
    then obtain n where n: "checked_mul ?pages ELF_PAGE_SIZE = Some n" by blast
    then have nu: "unat n = 4096 * unat ?pages" by (simp add: ELF_PAGE_SIZE_def)
    let ?m = "copy_from img (ls_offset seg) (ls_vaddr seg) (ls_filesz seg) (write_bytes ?ps 0 n (ld_mem st))"
    have hi: "v + k \<le> d + 4096 * unat ?pages" using pg by simp
    have page: "a - ?ps < n \<longleftrightarrow> unat a \<in> page_bytes (?ps, ?pages)" for a
      using word_in_range [of ?ps n a] lt nu ps by simp
    have fil: "a - ls_vaddr seg < ls_filesz seg \<longleftrightarrow> v \<le> unat a \<and> unat a < v + unat (ls_filesz seg)" for a
      using word_in_range [of "ls_vaddr seg" "ls_filesz seg" a] vk fk by (simp add: v_def)
    have sb: "seg_bytes seg \<subseteq> page_bytes (?ps, ?pages)"
      using hi dv(1) ps by (auto simp: seg_bytes_def v_def k_def)
    have "?m a = ld_mem st a" if "unat a \<notin> page_bytes (?ps, ?pages)" for a
      using that page [of a] fil [of a] sb fk
      by (auto simp: copy_from_def write_bytes_def seg_bytes_def v_def k_def)
    moreover have "seg_loaded img seg ?m"
      unfolding seg_loaded_def
    proof (intro allI impI)
      fix a :: u64 assume a: "unat a \<in> seg_bytes seg"
      then have va: "v \<le> unat a" by (simp add: seg_bytes_def v_def)
      then have i: "unat (a - ls_vaddr seg) = unat a - v" by (simp add: unat_sub_le v_def)
      have "a - ?ps < n" using a page [of a] sb by blast
      then have "?m a = (if a - ls_vaddr seg < ls_filesz seg
          then img ! (unat (ls_offset seg) + (unat a - v)) else 0)"
        by (simp add: copy_from_def write_bytes_def i)
      moreover have "a - ls_vaddr seg < ls_filesz seg \<longleftrightarrow> unat a - v < unat (ls_filesz seg)"
        unfolding word_less_nat_alt i ..
      ultimately show "?m a = (let i = unat a - unat (ls_vaddr seg) in
          if i < unat (ls_filesz seg) then img ! (unat (ls_offset seg) + i) else 0)"
        by (simp add: Let_def v_def)
    qed
    moreover have "v + k + 4095 < 2 ^ 64"
    proof -
      have "4096 dvd d + 4096 * unat ?pages" using dv(2) by simp
      moreover have "4096 dvd (2 :: nat) ^ 64" by simp
      ultimately have "d + 4096 * unat ?pages + 4096 \<le> 2 ^ 64" using dvd_step lt by blast
      then show ?thesis using hi by linarith
    qed
    moreover have "page_bytes (?ps, ?pages) = {d..<round_up (v + k) 4096}" using pg ps by simp
    ultimately show ?thesis using step 3 n fresh sb
      by (intro disjI2 exI [of _ "\<lparr>ld_mem = ?m, ld_granted = ld_granted st @ [(?ps, ?pages)]\<rparr>"]
          exI [of _ "[(?ps, ?pages)]"]) (simp add: v_def k_def d_def del: checked_mul_Some_iff page_bytes.simps)
  qed
qed

section \<open>The program headers\<close>

text \<open>The loadable segments of a program header table, field by field from the ELF64 layout.\<close>

definition segment_at :: "u8 list \<Rightarrow> nat \<Rightarrow> load_segment" where
  "segment_at img off = \<lparr>ls_offset = le_at img (off + 8) 8, ls_vaddr = le_at img (off + 16) 8,
     ls_filesz = le_at img (off + 32) 8, ls_memsz = le_at img (off + 40) 8\<rparr>"

definition loadable :: "u8 list \<Rightarrow> nat \<Rightarrow> nat \<Rightarrow> nat \<Rightarrow> load_segment list" where
  "loadable img phoff i n =
     map (\<lambda>j. segment_at img (phoff + 56 * j))
       (filter (\<lambda>j. le_at img (phoff + 56 * j) 4 = (1 :: u32)) [i..<i + n])"

lemma loadable_0 [simp]: "loadable img phoff i 0 = []"
  by (simp add: loadable_def)

lemma loadable_Suc:
  "loadable img phoff i (Suc n) =
     (if le_at img (phoff + 56 * i) 4 = (1 :: u32) then [segment_at img (phoff + 56 * i)] else []) @
     loadable img phoff (Suc i) n"
  by (simp add: loadable_def upt_conv_Cons del: upt_Suc)

lemma seg_checks:
  fixes v m :: u64
  shows "(if m < f then Inl e1
    else try_with (ok_or (checked_add off f) e2) (\<lambda>file_end.
      if L < unat file_end then Inl e2
      else try_with (ok_or (checked_add v m) e2) (\<lambda>seg_end. Inr (Some (g, w, seg_end))))) = Inr x \<Longrightarrow>
   f \<le> m \<and> unat off + unat f \<le> L \<and> unat v + unat m < 2 ^ 64 \<and>
   (\<exists>stop. unat stop = unat v + unat m \<and> x = Some (g, w, stop))"
  by (auto simp: try_with_Inr ok_or_Inr not_less split: if_splits) (metis unat_u64_bound)

lemma read_segment_Inr:
  assumes len: "length img < 2 ^ 63" and "read_segment img phoff 56 index = Inr x"
  defines "off \<equiv> unat phoff + 56 * unat index"
  shows "off + 56 \<le> length img \<and>
    (if le_at img off 4 = (1 :: u32)
     then seg_ok img (segment_at img off) \<and>
       (\<exists>stop. unat stop = unat (ls_vaddr (segment_at img off)) + unat (ls_memsz (segment_at img off)) \<and>
         x = Some (segment_at img off, align_down (ls_vaddr (segment_at img off)), stop))
     else x = None)"
proof -
  from assms(2) obtain skip base stop where
    skip: "checked_mul index (ucast (56 :: u16)) = Some skip" and
    base: "checked_add phoff skip = Some base" and
    stop: "checked_add base (of_nat PHDR_SIZE) = Some stop"
    and all: "(if length img < unat stop then Inl BadProgramHeaders
     else try_with (ok_or (read_u32 img base) BadProgramHeaders) (\<lambda>p_type.
       if p_type \<noteq> PT_LOAD then Inr None
       else
         try_with (ok_or (read_u64 img (base + 8)) BadProgramHeaders) (\<lambda>offset.
         try_with (ok_or (read_u64 img (base + 16)) BadProgramHeaders) (\<lambda>vaddr.
         try_with (ok_or (read_u64 img (base + 32)) BadProgramHeaders) (\<lambda>filesz.
         try_with (ok_or (read_u64 img (base + 40)) BadProgramHeaders) (\<lambda>memsz.
         if memsz < filesz then Inl SegmentTooLarge
         else
           try_with (ok_or (checked_add offset filesz) SegmentOutOfBounds) (\<lambda>file_end.
           if length img < unat file_end then Inl SegmentOutOfBounds
           else
             try_with (ok_or (checked_add vaddr memsz) SegmentOutOfBounds) (\<lambda>seg_end.
             Inr (Some (\<lparr>ls_offset = offset, ls_vaddr = vaddr, ls_filesz = filesz,
               ls_memsz = memsz\<rparr>, align_down vaddr, seg_end)))))))))) = Inr x"
    unfolding read_segment_def try_with_Inr ok_or_Inr by (elim exE conjE)
  have "\<not> length img < unat stop" using all by (cases "length img < unat stop") simp_all
  note rest = all [unfolded if_not_P [OF this]]
  have b: "unat base = off" using skip base by (simp add: off_def mult.commute)
  have s: "unat base + 56 \<le> length img"
    using stop \<open>\<not> length img < unat stop\<close> by (simp add: PHDR_SIZE_def)
  then have far: "unat base + k < 2 ^ 64" if "k \<le> 56" for k using len that by simp
  have off: "unat (base + 8) = off + 8" "unat (base + 16) = off + 16" "unat (base + 32) = off + 32"
    "unat (base + 40) = off + 40"
    using far [of 8] far [of 16] far [of 32] far [of 40] b by (simp_all add: unat_add_small)
  show ?thesis
  proof (cases "le_at img off 4 = (1 :: u32)")
    case False
    then show ?thesis using rest s unfolding read_eq [OF len] off b by (simp add: PT_LOAD_def)
  next
    case True
    then show ?thesis using rest s unfolding read_eq [OF len] off b
      by (auto simp: PT_LOAD_def segment_at_def seg_ok_def dest!: seg_checks)
  qed
qed

fun widen :: "u64 \<times> u64 \<times> bool \<Rightarrow> load_segment \<Rightarrow> u64 \<times> u64 \<times> bool" where
  "widen (lowest, highest, loaded_any) seg =
     (min lowest (align_down (ls_vaddr seg)), max highest (ls_vaddr seg + ls_memsz seg), True)"

definition seg_good :: "u8 list \<Rightarrow> byte_memory \<Rightarrow> page_range list \<Rightarrow> load_segment \<Rightarrow> bool" where
  "seg_good img m gs seg \<longleftrightarrow> seg_ok img seg \<and> seg_loaded img seg m \<and> seg_bytes seg \<subseteq> ranges gs \<and>
     unat (ls_vaddr seg) + unat (ls_memsz seg) + 4095 < 2 ^ 64"

lemma seg_loaded_cong:
  "seg_loaded img seg m \<Longrightarrow> (\<And>a. unat a \<in> seg_bytes seg \<Longrightarrow> m' a = m a) \<Longrightarrow> seg_loaded img seg m'"
  by (auto simp: seg_loaded_def)

lemma load_headers_spec:
  assumes fw: "fw_ok grants" and len: "length img < 2 ^ 63"
  shows "unat index + n < 2 ^ 64 \<Longrightarrow>
    \<exists>r st' new. load_headers grants img phoff 56 n index hull st = Some (r, st') \<and>
      ld_granted st' = ld_granted st @ new \<and> ranges new \<inter> ranges (ld_granted st) = {} \<and>
      (\<forall>a. unat a \<notin> ranges new \<longrightarrow> ld_mem st' a = ld_mem st a) \<and>
      (\<forall>h. r = Inr h \<longrightarrow>
        h = foldl widen hull (loadable img (unat phoff) (unat index) n) \<and>
        (\<forall>seg \<in> set (loadable img (unat phoff) (unat index) n). seg_good img (ld_mem st') new seg))"
proof (induction n arbitrary: index hull st)
  case 0
  show ?case by (intro exI [of _ "Inr hull"] exI [of _ st] exI [of _ "[]"]) simp
next
  case (Suc n)
  obtain lo hi any where hull: "hull = (lo, hi, any)" by (cases hull) auto
  let ?off = "unat phoff + 56 * unat index"
  have nxt: "unat (index + 1) = Suc (unat index)" using Suc.prems by (simp add: unat_add_small)
  have room: "unat (index + 1) + n < 2 ^ 64" using Suc.prems nxt by simp
  show ?case
  proof (cases "read_segment img phoff 56 index")
    case (Inl e)
    then show ?thesis unfolding hull
      by (intro exI [of _ "Inl e"] exI [of _ st] exI [of _ "[]"]) simp
  next
    case (Inr x)
    note rd = read_segment_Inr [OF len Inr]
    show ?thesis
    proof (cases "le_at img ?off 4 = (1 :: u32)")
      case False
      then have "x = None" using rd by simp
      then show ?thesis using Suc.IH [OF room, of hull st] Inr False nxt unfolding hull
        by (simp add: loadable_Suc)
    next
      case True
      let ?seg = "segment_at img ?off"
      obtain stop where x: "x = Some (?seg, align_down (ls_vaddr ?seg), stop)" and ok: "seg_ok img ?seg"
        and stop: "unat stop = unat (ls_vaddr ?seg) + unat (ls_memsz ?seg)"
        using rd True by auto
      have stop': "stop = ls_vaddr ?seg + ls_memsz ?seg"
        using stop ok by (simp add: seg_ok_def word_unat_eq_iff unat_add_small)
      let ?hull = "widen hull ?seg"
      from load_segment_spec [OF fw ok, of st]
      consider "load_segment_into grants img ?seg st = Some (Inl AllocationFailed, st)"
        | st1 new1 where "load_segment_into grants img ?seg st = Some (Inr (), st1)"
          "ld_granted st1 = ld_granted st @ new1" "ranges new1 \<inter> ranges (ld_granted st) = {}"
          "\<forall>a. unat a \<notin> ranges new1 \<longrightarrow> ld_mem st1 a = ld_mem st a" "seg_loaded img ?seg (ld_mem st1)"
          "seg_bytes ?seg \<subseteq> ranges new1" "unat (ls_vaddr ?seg) + unat (ls_memsz ?seg) + 4095 < 2 ^ 64"
        by blast
      then show ?thesis
      proof cases
        case 1
        then show ?thesis using Inr x unfolding hull
          by (intro exI [of _ "Inl AllocationFailed"] exI [of _ st] exI [of _ "[]"]) simp
      next
        case (2 st1 new1)
        obtain r st' new2 where ih: "load_headers grants img phoff 56 n (index + 1) ?hull st1 = Some (r, st')"
          "ld_granted st' = ld_granted st1 @ new2" "ranges new2 \<inter> ranges (ld_granted st1) = {}"
          "\<forall>a. unat a \<notin> ranges new2 \<longrightarrow> ld_mem st' a = ld_mem st1 a"
          "\<forall>h. r = Inr h \<longrightarrow>
            h = foldl widen ?hull (loadable img (unat phoff) (unat (index + 1)) n) \<and>
            (\<forall>seg \<in> set (loadable img (unat phoff) (unat (index + 1)) n). seg_good img (ld_mem st') new2 seg)"
          using Suc.IH [OF room, of ?hull st1] by (elim exE conjE)
        have run: "load_headers grants img phoff 56 (Suc n) index hull st = Some (r, st')"
          using Inr x 2(1) ih(1) stop' unfolding hull by simp
        have apart: "ranges (new1 @ new2) \<inter> ranges (ld_granted st) = {}"
          "ranges new2 \<inter> ranges new1 = {}"
          using ih(3) 2(2,3) by auto
        have same: "\<forall>a. unat a \<notin> ranges (new1 @ new2) \<longrightarrow> ld_mem st' a = ld_mem st a"
          using ih(4) 2(4) by simp
        have "seg_loaded img ?seg (ld_mem st')"
          using 2(5) by (rule seg_loaded_cong) (use ih(4) 2(6) apart(2) in blast)
        then have this_seg: "seg_good img (ld_mem st') (new1 @ new2) ?seg"
          using ok 2(6,7) by (auto simp: seg_good_def)
        have mono: "seg_good img (ld_mem st') new2 seg \<Longrightarrow> seg_good img (ld_mem st') (new1 @ new2) seg" for seg
          by (auto simp: seg_good_def)
        have segs: "loadable img (unat phoff) (unat index) (Suc n) =
            ?seg # loadable img (unat phoff) (unat (index + 1)) n"
          using True nxt by (simp add: loadable_Suc)
        have "\<forall>h. r = Inr h \<longrightarrow>
            h = foldl widen hull (loadable img (unat phoff) (unat index) (Suc n)) \<and>
            (\<forall>seg \<in> set (loadable img (unat phoff) (unat index) (Suc n)).
              seg_good img (ld_mem st') (new1 @ new2) seg)"
          unfolding segs using ih(5) this_seg mono by auto
        then show ?thesis using run ih(2) 2(2) apart(1) same
          by (intro exI [of _ r] exI [of _ st'] exI [of _ "new1 @ new2"] conjI) auto
      qed
    qed
  qed
qed

section \<open>The whole loader\<close>

lemma foldl_widen:
  "foldl widen (lo0, hi0, any0) segs = (lo, hi, any) \<Longrightarrow>
   lo \<le> lo0 \<and> hi0 \<le> hi \<and> (any \<longleftrightarrow> any0 \<or> segs \<noteq> []) \<and>
   (\<forall>seg \<in> set segs. lo \<le> align_down (ls_vaddr seg) \<and> ls_vaddr seg + ls_memsz seg \<le> hi) \<and>
   (lo = lo0 \<or> (\<exists>seg \<in> set segs. lo = align_down (ls_vaddr seg))) \<and>
   (hi = hi0 \<or> (\<exists>seg \<in> set segs. hi = ls_vaddr seg + ls_memsz seg))"
proof (induction segs arbitrary: lo0 hi0 any0)
  case (Cons seg segs)
  let ?lo = "min lo0 (align_down (ls_vaddr seg))" and ?hi = "max hi0 (ls_vaddr seg + ls_memsz seg)"
  from Cons.prems have "foldl widen (?lo, ?hi, True) segs = (lo, hi, any)" by simp
  note ih = Cons.IH [OF this]
  have "lo \<le> lo0" "lo \<le> align_down (ls_vaddr seg)" "hi0 \<le> hi" "ls_vaddr seg + ls_memsz seg \<le> hi"
    using ih by auto
  moreover have "lo = lo0 \<or> (\<exists>seg' \<in> set (seg # segs). lo = align_down (ls_vaddr seg'))"
    using ih by (auto simp: min_def split: if_splits)
  moreover have "hi = hi0 \<or> (\<exists>seg' \<in> set (seg # segs). hi = ls_vaddr seg' + ls_memsz seg')"
    using ih by (auto simp: max_def split: if_splits)
  ultimately show ?case using ih by simp
qed simp

lemma seg_end_unat: "seg_ok img seg \<Longrightarrow>
    unat (ls_vaddr seg + ls_memsz seg) = unat (ls_vaddr seg) + unat (ls_memsz seg)"
  by (simp add: seg_ok_def unat_add_small)

text \<open>The loop of \<open>load_kernel\<close> on an image whose header was accepted.\<close>

lemma load_kernel_loop:
  assumes "fw_ok grants" and "length img < 2 ^ 63" and "parse_header img = Inr (entry, phoff, phentsize, phnum)"
  obtains r st' new where
    "load_headers grants img phoff phentsize (unat phnum) 0 (-1, 0, False) st = Some (r, st')"
    and "ld_granted st' = ld_granted st @ new" and "ranges new \<inter> ranges (ld_granted st) = {}"
    and "\<forall>a. unat a \<notin> ranges new \<longrightarrow> ld_mem st' a = ld_mem st a"
    and "\<forall>h. r = Inr h \<longrightarrow> h = foldl widen (-1, 0, False) (loadable img (unat phoff) 0 (unat phnum)) \<and>
      (\<forall>seg \<in> set (loadable img (unat phoff) 0 (unat phnum)). seg_good img (ld_mem st') new seg)"
proof -
  have ps: "phentsize = 56" using assms(2,3) parse_header_Inr by blast
  have "unat (0 :: u64) + unat phnum < 2 ^ 64" using unat_bound [of phnum] by simp
  from load_headers_spec [OF assms(1,2) this, of phoff "(-1, 0, False)" st]
  show ?thesis unfolding ps unat_0 using that ps by (elim exE conjE) blast
qed

lemma load_kernel_returns:
  assumes "fw_ok grants" and "length img < 2 ^ 63"
  shows "\<exists>r st' new. load_kernel grants img st = Some (r, st') \<and>
    ld_granted st' = ld_granted st @ new \<and> ranges new \<inter> ranges (ld_granted st) = {} \<and>
    (\<forall>a. unat a \<notin> ranges new \<longrightarrow> ld_mem st' a = ld_mem st a) \<and>
    (\<forall>e. parse_header img = Inl e \<longrightarrow> r = Inl e \<and> new = [] \<and> st' = st) \<and>
    (\<forall>k. r = Inr k \<longrightarrow> (\<exists>entry phoff phnum. parse_header img = Inr (entry, phoff, 56, phnum) \<and>
      lk_entry k = entry \<and> lk_base k \<le> entry \<and> unat entry < unat (lk_base k) + unat (lk_size k) \<and>
      4096 dvd unat (lk_base k) \<and> 4096 dvd unat (lk_size k) \<and>
      loadable img (unat phoff) 0 (unat phnum) \<noteq> [] \<and>
      (\<forall>seg \<in> set (loadable img (unat phoff) 0 (unat phnum)). seg_good img (ld_mem st') new seg \<and>
        seg_bytes seg \<subseteq> {unat (lk_base k)..<unat (lk_base k) + unat (lk_size k)})))"
proof (cases "parse_header img")
  case (Inl e)
  then show ?thesis
    by (intro exI [of _ "Inl e"] exI [of _ st] exI [of _ "[]"]) (simp add: load_kernel_def)
next
  case (Inr x)
  obtain entry phoff phentsize phnum where "x = (entry, phoff, phentsize, phnum)" by (cases x)
  note h = Inr [unfolded this]
  have ps: "phentsize = 56" using h assms(2) parse_header_Inr by blast
  let ?segs = "loadable img (unat phoff) 0 (unat phnum)"
  obtain r st' new where loop:
    "load_headers grants img phoff phentsize (unat phnum) 0 (-1, 0, False) st = Some (r, st')"
    "ld_granted st' = ld_granted st @ new" "ranges new \<inter> ranges (ld_granted st) = {}"
    "\<forall>a. unat a \<notin> ranges new \<longrightarrow> ld_mem st' a = ld_mem st a"
    "\<forall>h. r = Inr h \<longrightarrow> h = foldl widen (-1, 0, False) ?segs \<and>
      (\<forall>seg \<in> set ?segs. seg_good img (ld_mem st') new seg)"
    by (rule load_kernel_loop [OF assms h])
  have fails: "?thesis" if "load_kernel grants img st = Some (Inl e, st')" for e
    using that loop(2-4) h by (intro exI [of _ "Inl e"] exI [of _ st'] exI [of _ new]) simp
  show ?thesis
  proof (cases r)
    case (Inl e)
    then show ?thesis using fails [of e] h loop(1) by (simp add: load_kernel_def)
  next
    case (Inr hull)
    obtain lo hi any where hull: "hull = (lo, hi, any)" by (cases hull)
    from loop(5) Inr hull have fw: "foldl widen (-1, 0, False) ?segs = (lo, hi, any)"
      and good: "\<forall>seg \<in> set ?segs. seg_good img (ld_mem st') new seg" by simp_all
    note w = foldl_widen [OF fw]
    show ?thesis
    proof (cases "any \<and> lo \<le> entry \<and> entry < hi")
      case False
      then show ?thesis
        using fails [of NoLoadableSegments] fails [of EntryOutOfRange] h loop(1) Inr hull
        by (cases any) (auto simp: load_kernel_def not_le not_less)
    next
      case True
      then have ne: "?segs \<noteq> []" "lo \<le> entry" "entry < hi" using w by auto
      have "unat hi + 4095 < 2 ^ 64"
        using w good seg_end_unat by (auto simp: seg_good_def)
      then obtain top where top: "align_up hi = Some top" "unat top = round_up (unat hi) 4096"
        using word_of_unat [where 'a = 64, of "round_up (unat hi) 4096"] round_up_less [of 4096 "unat hi"]
        by (auto simp: align_up_eq)
      have hi_top: "unat hi \<le> unat top" using top(2) by simp
      then have le: "unat lo \<le> unat top" "unat hi \<le> unat top"
        using ne unfolding word_le_nat_alt word_less_nat_alt by linarith+
      let ?k = "\<lparr>lk_entry = entry, lk_base = lo, lk_size = top - lo\<rparr>"
      have sz: "unat lo + unat (top - lo) = unat top" using le(1) by (simp add: unat_sub_le)
      have sub: "checked_sub top lo = Some (top - lo)" using le(1) by (simp add: checked_sub_def word_le_nat_alt)
      have run: "load_kernel grants img st = Some (Inr ?k, st')"
        using h loop(1) Inr hull True top(1) sub
        by (simp add: load_kernel_def not_le not_less del: checked_sub_Some_iff)
      have dvd_lo: "4096 dvd unat lo"
      proof -
        obtain seg where "seg \<in> set ?segs" using ne(1) by (cases ?segs) auto
        then have "lo \<le> align_down (ls_vaddr seg)" using w by blast
        moreover have "4096 dvd unat (align_down (ls_vaddr seg))"
          unfolding unat_align_down by (rule round_down_dvd)
        moreover have "\<not> 4096 dvd unat (-1 :: u64)"
          by (simp add: unsigned_minus_1_eq_mask mask_eq_exp_minus_1)
        ultimately have "align_down (ls_vaddr seg) \<noteq> -1" "lo \<le> align_down (ls_vaddr seg)" by metis+
        then have "lo \<noteq> -1" by (metis word_order.extremum_unique)
        then show ?thesis using w round_down_dvd by (auto simp: unat_align_down)
      qed
      moreover have "4096 dvd unat top" using top(2) by (simp add: round_up_dvd)
      ultimately have dvd_sz: "4096 dvd unat (top - lo)" using sz by (metis dvd_add_right_iff)
      have inside: "seg_bytes seg \<subseteq> {unat lo..<unat lo + unat (top - lo)}" if "seg \<in> set ?segs" for seg
      proof -
        have b: "lo \<le> align_down (ls_vaddr seg)" "ls_vaddr seg + ls_memsz seg \<le> hi" "seg_ok img seg"
          using w that good by (auto simp: seg_good_def)
        have "unat lo \<le> unat (ls_vaddr seg)"
          using b(1) round_down_le [of "unat (ls_vaddr seg)" 4096]
          unfolding word_le_nat_alt unat_align_down by linarith
        moreover have "unat (ls_vaddr seg) + unat (ls_memsz seg) \<le> unat hi"
          using b(2) unfolding word_le_nat_alt seg_end_unat [OF b(3)] .
        ultimately show ?thesis using le(2) sz by (auto simp: seg_bytes_def)
      qed
      have "unat entry < unat lo + unat (top - lo)"
        using ne(3) le(2) sz by (simp add: word_less_nat_alt)
      then show ?thesis using run loop(2-4) h ps good dvd_lo dvd_sz inside ne
        by (intro exI [of _ "Inr ?k"] exI [of _ st'] exI [of _ new]) auto
    qed
  qed
qed

section \<open>Images for the witnesses\<close>

text \<open>The ELF64 file header and program header, encoded as the format's layout says.\<close>

record ehdr =
  eh_ident_rest :: "u8 list"
  eh_type :: u16
  eh_machine :: u16
  eh_version :: u32
  eh_entry :: u64
  eh_phoff :: u64
  eh_shoff :: u64
  eh_flags :: u32
  eh_ehsize :: u16
  eh_phentsize :: u16
  eh_phnum :: u16
  eh_tail :: "u8 list"

definition encode_ehdr :: "ehdr \<Rightarrow> u8 list" where
  "encode_ehdr h = [0x7f, 0x45, 0x4c, 0x46] @ [2, 1] @ eh_ident_rest h @
     to_le_bytes 2 (eh_type h) @ to_le_bytes 2 (eh_machine h) @ to_le_bytes 4 (eh_version h) @
     to_le_bytes 8 (eh_entry h) @ to_le_bytes 8 (eh_phoff h) @ to_le_bytes 8 (eh_shoff h) @
     to_le_bytes 4 (eh_flags h) @ to_le_bytes 2 (eh_ehsize h) @ to_le_bytes 2 (eh_phentsize h) @
     to_le_bytes 2 (eh_phnum h) @ eh_tail h"

definition ehdr_ok :: "ehdr \<Rightarrow> bool" where
  "ehdr_ok h \<longleftrightarrow> length (eh_ident_rest h) = 10 \<and> length (eh_tail h) = 6"

text \<open>Every image that is long enough and starts as an ELF64 little-endian file does is an encoding.\<close>

lemma from_le_bytes_bits: "bit (from_le_bytes bs :: 'a::len word) i \<Longrightarrow> i < 8 * length bs"
proof (induction bs arbitrary: i)
  case (Cons b bs)
  have "i < 8 \<or> bit (from_le_bytes bs :: 'a word) (i - 8)"
    using Cons.prems by (auto simp: bit_simps dest: bit_imp_le_length)
  then show ?case using Cons.IH [of "i - 8"] by auto
qed simp

lemma to_from_le_bytes:
  "8 * length bs \<le> LENGTH('a) \<Longrightarrow> to_le_bytes (length bs) (from_le_bytes bs :: 'a::len word) = bs"
proof (induction bs)
  case (Cons b bs)
  let ?r = "from_le_bytes bs :: 'a word"
  have len: "8 + 8 * length bs \<le> LENGTH('a)" using Cons.prems by simp
  have "ucast (ucast b OR push_bit 8 ?r :: 'a word) = b"
    by (rule bit_word_eqI) (use len in \<open>auto simp: bit_simps\<close>)
  moreover have "drop_bit 8 (ucast b OR push_bit 8 ?r) = ?r"
    by (rule bit_word_eqI) (use len in \<open>auto simp: bit_simps dest: bit_imp_le_length from_le_bytes_bits\<close>)
  ultimately show ?case using Cons.IH len by simp
qed simp

lemma to_le_at:
  "a + n \<le> length img \<Longrightarrow> 8 * n \<le> LENGTH('a) \<Longrightarrow>
   to_le_bytes n (le_at img a n :: 'a::len word) = take n (drop a img)"
  using to_from_le_bytes [where 'a = 'a and bs = "take n (drop a img)"] by (simp add: le_at_def)

lemma take_drop_step: "take n (drop a img) @ drop (a + n) img = drop a img"
  by (metis append_take_drop_id drop_drop add.commute)

definition decode_ehdr :: "u8 list \<Rightarrow> ehdr" where
  "decode_ehdr img = \<lparr>eh_ident_rest = take 10 (drop 6 img), eh_type = le_at img 16 2, eh_machine = le_at img 18 2,
     eh_version = le_at img 20 4, eh_entry = le_at img 24 8, eh_phoff = le_at img 32 8, eh_shoff = le_at img 40 8,
     eh_flags = le_at img 48 4, eh_ehsize = le_at img 52 2, eh_phentsize = le_at img 54 2,
     eh_phnum = le_at img 56 2, eh_tail = take 6 (drop 58 img)\<rparr>"

lemma encode_decode_ehdr:
  assumes "64 \<le> length img" and "take 4 img = [0x7f, 0x45, 0x4c, 0x46]" and "img ! 4 = 2" and "img ! 5 = 1"
  shows "img = encode_ehdr (decode_ehdr img) @ drop 64 img" and "ehdr_ok (decode_ehdr img)"
proof -
  have two: "take 2 (drop 4 img) = [2, 1]"
    using assms(1,3,4) by (simp add: take_Suc_conv_app_nth numeral_2_eq_2)
  note step = take_drop_step [of _ _ img, symmetric]
  have "img = take 4 img @ drop 4 img" by simp
  also have "drop 4 img = take 2 (drop 4 img) @ drop 6 img" using step [of 4 2] by simp
  also have "drop 6 img = take 10 (drop 6 img) @ drop 16 img" using step [of 6 10] by simp
  also have "drop 16 img = take 2 (drop 16 img) @ drop 18 img" using step [of 16 2] by simp
  also have "drop 18 img = take 2 (drop 18 img) @ drop 20 img" using step [of 18 2] by simp
  also have "drop 20 img = take 4 (drop 20 img) @ drop 24 img" using step [of 20 4] by simp
  also have "drop 24 img = take 8 (drop 24 img) @ drop 32 img" using step [of 24 8] by simp
  also have "drop 32 img = take 8 (drop 32 img) @ drop 40 img" using step [of 32 8] by simp
  also have "drop 40 img = take 8 (drop 40 img) @ drop 48 img" using step [of 40 8] by simp
  also have "drop 48 img = take 4 (drop 48 img) @ drop 52 img" using step [of 48 4] by simp
  also have "drop 52 img = take 2 (drop 52 img) @ drop 54 img" using step [of 52 2] by simp
  also have "drop 54 img = take 2 (drop 54 img) @ drop 56 img" using step [of 54 2] by simp
  also have "drop 56 img = take 2 (drop 56 img) @ drop 58 img" using step [of 56 2] by simp
  also have "drop 58 img = take 6 (drop 58 img) @ drop 64 img" using step [of 58 6] by simp
  finally show "img = encode_ehdr (decode_ehdr img) @ drop 64 img"
    using assms(1) unfolding assms(2) two by (simp add: encode_ehdr_def decode_ehdr_def to_le_at)
  show "ehdr_ok (decode_ehdr img)" using assms(1) by (simp add: ehdr_ok_def decode_ehdr_def)
qed

definition encode_phdr :: "u32 \<Rightarrow> load_segment \<Rightarrow> u8 list" where
  "encode_phdr p_type seg = to_le_bytes 4 p_type @ to_le_bytes 4 (5 :: u32) @
     to_le_bytes 8 (ls_offset seg) @ to_le_bytes 8 (ls_vaddr seg) @ to_le_bytes 8 (ls_vaddr seg) @
     to_le_bytes 8 (ls_filesz seg) @ to_le_bytes 8 (ls_memsz seg) @ to_le_bytes 8 (4096 :: u64)"

definition demo_ehdr :: "u64 \<Rightarrow> u16 \<Rightarrow> ehdr" where
  "demo_ehdr entry n = \<lparr>eh_ident_rest = replicate 10 0, eh_type = 2, eh_machine = 0x3e, eh_version = 1,
     eh_entry = entry, eh_phoff = 64, eh_shoff = 0, eh_flags = 0, eh_ehsize = 64, eh_phentsize = 56,
     eh_phnum = n, eh_tail = replicate 6 0\<rparr>"

text \<open>One segment: four bytes of file at 0x200010, twelve of bss behind them.\<close>

definition demo_image :: "u8 list" where
  "demo_image = encode_ehdr (demo_ehdr 0x200012 1) @
     encode_phdr 1 \<lparr>ls_offset = 120, ls_vaddr = 0x200010, ls_filesz = 4, ls_memsz = 16\<rparr> @
     [0x90, 0x90, 0xf4, 0xc3]"

definition demo_fw :: firmware where
  "demo_fw h p n \<longleftrightarrow> h = [] \<and> p = 0x200000 \<and> n = 1"

lemma demo_fw_ok: "fw_ok demo_fw"
  by (simp add: fw_ok_def demo_fw_def)

definition demo_load :: load_state where
  "demo_load = \<lparr>ld_mem = (\<lambda>_. 0xff), ld_granted = []\<rparr>"

definition demo_loaded :: load_state where
  "demo_loaded = snd (the (load_kernel demo_fw demo_image demo_load))"

lemma demo_load_run: "load_kernel demo_fw demo_image demo_load =
    Some (Inr \<lparr>lk_entry = 0x200012, lk_base = 0x200000, lk_size = 0x1000\<rparr>, demo_loaded)"
  unfolding demo_loaded_def by (rule run_result) code_simp

lemma demo_image_short: "length demo_image < 2 ^ 63"
proof -
  have "length demo_image = 124" by code_simp
  then show ?thesis by simp
qed

section \<open>Properties\<close>

text \<open>
  C14. When \<open>load_kernel\<close> returns a kernel, every loadable segment of the image's program header
  table is in memory at its address (file bytes first, zeroes up to \<open>p_memsz\<close>), inside pages the
  firmware granted and inside the reported span; the span is page aligned, a whole number of
  pages, and contains the entry point of the header.
\<close>

theorem elf_load_correct:
  assumes "fw_ok grants" and "length img < 2 ^ 63" and "load_kernel grants img st = Some (Inr k, st')"
  shows "\<exists>entry phoff phnum. parse_header img = Inr (entry, phoff, 56, phnum) \<and>
    lk_entry k = entry \<and> lk_base k \<le> entry \<and> unat entry < unat (lk_base k) + unat (lk_size k) \<and>
    4096 dvd unat (lk_base k) \<and> 4096 dvd unat (lk_size k) \<and>
    loadable img (unat phoff) 0 (unat phnum) \<noteq> [] \<and>
    (\<forall>seg \<in> set (loadable img (unat phoff) 0 (unat phnum)).
       unat (ls_offset seg) + unat (ls_filesz seg) \<le> length img \<and> seg_loaded img seg (ld_mem st') \<and>
       seg_bytes seg \<subseteq> ranges (ld_granted st') \<and>
       seg_bytes seg \<subseteq> {unat (lk_base k)..<unat (lk_base k) + unat (lk_size k)})"
proof -
  obtain r st'' new where h: "load_kernel grants img st = Some (r, st'')" "ld_granted st'' = ld_granted st @ new"
    "\<forall>k. r = Inr k \<longrightarrow> (\<exists>entry phoff phnum. parse_header img = Inr (entry, phoff, 56, phnum) \<and>
      lk_entry k = entry \<and> lk_base k \<le> entry \<and> unat entry < unat (lk_base k) + unat (lk_size k) \<and>
      4096 dvd unat (lk_base k) \<and> 4096 dvd unat (lk_size k) \<and>
      loadable img (unat phoff) 0 (unat phnum) \<noteq> [] \<and>
      (\<forall>seg \<in> set (loadable img (unat phoff) 0 (unat phnum)). seg_good img (ld_mem st'') new seg \<and>
        seg_bytes seg \<subseteq> {unat (lk_base k)..<unat (lk_base k) + unat (lk_size k)}))"
    using load_kernel_returns [OF assms(1,2), of st] by (elim exE conjE)
  then have "r = Inr k" "st'' = st'" using assms(3) by simp_all
  moreover have "seg_good img (ld_mem st') new seg \<Longrightarrow>
      unat (ls_offset seg) + unat (ls_filesz seg) \<le> length img \<and> seg_loaded img seg (ld_mem st') \<and>
      seg_bytes seg \<subseteq> ranges (ld_granted st')" for seg
    using h(2) \<open>st'' = st'\<close> by (auto simp: seg_good_def seg_ok_def)
  ultimately show ?thesis using h(3) by blast
qed

theorem elf_load_correct_witness:
  "\<exists>seg. seg_loaded demo_image seg (ld_mem demo_loaded) \<and>
    seg_bytes seg \<subseteq> {0x200000..<0x200000 + 0x1000} \<and> seg_bytes seg \<subseteq> ranges (ld_granted demo_loaded)"
proof -
  from elf_load_correct [OF demo_fw_ok demo_image_short demo_load_run]
  have "\<exists>phoff phnum. loadable demo_image phoff 0 phnum \<noteq> [] \<and>
      (\<forall>seg \<in> set (loadable demo_image phoff 0 phnum).
        seg_loaded demo_image seg (ld_mem demo_loaded) \<and> seg_bytes seg \<subseteq> ranges (ld_granted demo_loaded) \<and>
        seg_bytes seg \<subseteq> {unat (0x200000 :: u64)..<unat (0x200000 :: u64) + unat (0x1000 :: u64)})"
    unfolding loaded_kernel.simps by blast
  then obtain seg where seg: "seg_loaded demo_image seg (ld_mem demo_loaded)"
    "seg_bytes seg \<subseteq> ranges (ld_granted demo_loaded)"
    "seg_bytes seg \<subseteq> {unat (0x200000 :: u64)..<unat (0x200000 :: u64) + unat (0x1000 :: u64)}"
    by (metis last_in_set)
  then show ?thesis by (intro exI [of _ seg]) simp
qed

text \<open>
  C15. \<open>load_kernel\<close> is safe on every image, however corrupted: it returns (no overflow, no
  out-of-bounds index), and whether it succeeds or fails the only memory it changes is inside
  pages the firmware granted during the call; a header the parser rejects changes nothing.
\<close>

theorem elf_load_safe:
  assumes "fw_ok grants" and "length img < 2 ^ 63"
  shows "\<exists>r st' new. load_kernel grants img st = Some (r, st') \<and>
    ld_granted st' = ld_granted st @ new \<and> ranges new \<inter> ranges (ld_granted st) = {} \<and>
    (\<forall>a. unat a \<notin> ranges new \<longrightarrow> ld_mem st' a = ld_mem st a) \<and>
    (\<forall>e. parse_header img = Inl e \<longrightarrow> r = Inl e \<and> new = [] \<and> st' = st)"
  using load_kernel_returns [OF assms, of st] by (elim exE conjE) (intro exI conjI, assumption+)

theorem elf_load_safe_witness:
  "\<exists>r st'. load_kernel demo_fw [0x7f, 0x45] demo_load = Some (r, st') \<and> st' = demo_load"
proof -
  have "parse_header [0x7f, 0x45] = Inl TooSmall" by code_simp
  then show ?thesis using elf_load_safe [OF demo_fw_ok, of "[0x7f, 0x45]" demo_load] by auto
qed

lemma parse_encoded_header:
  assumes "ehdr_ok h" and "img = encode_ehdr h @ rest" and "length img < 2 ^ 63"
  shows "parse_header img =
    (if eh_type h \<noteq> 2 then Inl NotExecutable
     else if eh_machine h \<noteq> 0x3e then Inl WrongArchitecture
     else if eh_phentsize h \<noteq> 56 then Inl BadProgramHeaders
     else Inr (eh_entry h, eh_phoff h, 56, eh_phnum h))"
proof -
  have at: "le_at img 16 2 = eh_type h" "le_at img 18 2 = eh_machine h" "le_at img 24 8 = eh_entry h"
    "le_at img 32 8 = eh_phoff h" "le_at img 54 2 = eh_phentsize h" "le_at img 56 2 = eh_phnum h"
    using assms(1) by (simp_all add: assms(2) le_at_def encode_ehdr_def ehdr_ok_def)
  have hd: "take 4 img = ELF_MAGIC" "img ! 4 = ELFCLASS64" "img ! 5 = ELFDATA2LSB" "64 \<le> length img"
    using assms(1) by (simp_all add: assms(2) encode_ehdr_def ELF_MAGIC_def ELFCLASS64_def ELFDATA2LSB_def ehdr_ok_def)
  have rd: "read_u16 img 16 = Some (le_at img 16 2)" "read_u16 img 18 = Some (le_at img 18 2)"
    "read_u64 img 24 = Some (le_at img 24 8)" "read_u64 img 32 = Some (le_at img 32 8)"
    "read_u16 img 54 = Some (le_at img 54 2)" "read_u16 img 56 = Some (le_at img 56 2)"
    using hd(4) by (simp_all add: read_eq [OF assms(3)])
  have ps: "unat (eh_phentsize h) = 56 \<longleftrightarrow> eh_phentsize h = 56" by (simp add: word_unat_eq_iff)
  show ?thesis
    using hd(4) unfolding parse_header_def EHDR_SIZE_def PHDR_SIZE_def EI_CLASS_def EI_DATA_def hd(1-3) rd
    by (simp add: at ps ET_EXEC_def EM_X86_64_def)
qed

text \<open>
  C30. The parser accepts exactly the headers the loader can serve and reads their fields back.
  An image that starts with the encoding of an ELF64 little-endian file header is accepted iff it is
  ET_EXEC for x86-64 with 56-byte program headers, and then entry point, table offset, entry size and
  count are those encoded; every image that starts with no such encoding is rejected, with
  the first of its faults: too short, not ELF, not 64-bit, not little-endian.
\<close>

theorem elf_header_roundtrip:
  assumes "length img < 2 ^ 63"
  shows "(\<forall>h rest. ehdr_ok h \<and> img = encode_ehdr h @ rest \<longrightarrow> parse_header img =
      (if eh_type h \<noteq> 2 then Inl NotExecutable
       else if eh_machine h \<noteq> 0x3e then Inl WrongArchitecture
       else if eh_phentsize h \<noteq> 56 then Inl BadProgramHeaders
       else Inr (eh_entry h, eh_phoff h, 56, eh_phnum h))) \<and>
    ((\<nexists>h rest. ehdr_ok h \<and> img = encode_ehdr h @ rest) \<longrightarrow> parse_header img =
      Inl (if length img < 64 then TooSmall
        else if take 4 img \<noteq> [0x7f, 0x45, 0x4c, 0x46] then BadMagic
        else if img ! 4 \<noteq> 2 then Not64Bit
        else NotLittleEndian))"
proof -
  have "parse_header img = Inl (if length img < 64 then TooSmall
        else if take 4 img \<noteq> [0x7f, 0x45, 0x4c, 0x46] then BadMagic
        else if img ! 4 \<noteq> 2 then Not64Bit else NotLittleEndian)"
    if "\<nexists>h rest. ehdr_ok h \<and> img = encode_ehdr h @ rest"
  proof -
    have "\<not> (64 \<le> length img \<and> take 4 img = [0x7f, 0x45, 0x4c, 0x46] \<and> img ! 4 = 2 \<and> img ! 5 = 1)"
      using that encode_decode_ehdr [of img] by blast
    then show ?thesis
      by (auto simp: parse_header_def EHDR_SIZE_def EI_CLASS_def EI_DATA_def ELF_MAGIC_def ELFCLASS64_def ELFDATA2LSB_def)
  qed
  then show ?thesis using parse_encoded_header [OF _ _ assms] by blast
qed

theorem elf_header_roundtrip_witness:
  "parse_header (encode_ehdr (demo_ehdr 0x200012 1)) = Inr (0x200012, 64, 56, 1)"
proof -
  have h: "ehdr_ok (demo_ehdr 0x200012 1)" by (simp add: ehdr_ok_def demo_ehdr_def)
  have "length (encode_ehdr (demo_ehdr 0x200012 1)) < 2 ^ 63" by (simp add: encode_ehdr_def demo_ehdr_def)
  from elf_header_roundtrip [OF this] h show ?thesis
    by (auto simp: demo_ehdr_def dest: spec [of _ "demo_ehdr 0x200012 1"])
qed

text \<open>The hull the loop leaves: from the lowest page that holds a segment to the highest end.\<close>

lemma hull_contains:
  assumes "foldl widen (-1, 0, False) segs = (lo, hi, any)" and "segs \<noteq> []" and "\<forall>seg \<in> set segs. seg_ok img seg"
  shows "lo \<le> entry \<longleftrightarrow> (\<exists>seg \<in> set segs. round_down (unat (ls_vaddr seg)) 4096 \<le> unat entry)"
    and "entry < hi \<longleftrightarrow> (\<exists>seg \<in> set segs. unat entry < unat (ls_vaddr seg) + unat (ls_memsz seg))"
    and any
proof -
  note w = foldl_widen [OF assms(1)]
  have down: "align_down (ls_vaddr seg) \<le> x \<longleftrightarrow> round_down (unat (ls_vaddr seg)) 4096 \<le> unat x" for seg x
    by (simp add: word_le_nat_alt unat_align_down)
  have up: "x < ls_vaddr seg + ls_memsz seg \<longleftrightarrow> unat x < unat (ls_vaddr seg) + unat (ls_memsz seg)"
    if "seg \<in> set segs" for seg x
    using seg_end_unat [of _ seg] assms(3) that by (metis word_less_nat_alt)
  show any using w assms(2) by blast
  obtain seg0 where seg0: "seg0 \<in> set segs" using assms(2) by (cases segs) auto
  have "\<exists>seg \<in> set segs. align_down (ls_vaddr seg) \<le> entry" if "lo \<le> entry"
  proof (cases "lo = -1")
    case True
    then have "entry = -1" using that word_order.extremum_unique by blast
    then show ?thesis using seg0 by auto
  next
    case False
    then show ?thesis using w that by auto
  qed
  moreover have "lo \<le> entry" if "\<exists>seg \<in> set segs. align_down (ls_vaddr seg) \<le> entry"
    using w that by (meson order.trans)
  ultimately show "lo \<le> entry \<longleftrightarrow> (\<exists>seg \<in> set segs. round_down (unat (ls_vaddr seg)) 4096 \<le> unat entry)"
    unfolding down by blast
  have "\<exists>seg \<in> set segs. entry < ls_vaddr seg + ls_memsz seg" if "entry < hi"
    using w that by (metis word_not_simps(1))
  moreover have "entry < hi" if "\<exists>seg \<in> set segs. entry < ls_vaddr seg + ls_memsz seg"
    using w that by (meson less_le_trans)
  ultimately show "entry < hi \<longleftrightarrow> (\<exists>seg \<in> set segs. unat entry < unat (ls_vaddr seg) + unat (ls_memsz seg))"
    using up by blast
qed

text \<open>
  C31. What \<open>EntryOutOfRange\<close> promises is not what is checked. Of an image whose segments all
  loaded, the entry point is accepted exactly when some segment's first page starts at or below it and
  some segment ends above it; so a point that lies in no loaded segment is accepted, whenever
  it falls between two segments (either of which may be empty), or into the padding
  between the start of a page and the segment on it.
\<close>

theorem elf_entry_gap:
  assumes "fw_ok grants" and "length img < 2 ^ 63" and "parse_header img = Inr (entry, phoff, phentsize, phnum)"
    and "load_headers grants img phoff phentsize (unat phnum) 0 (-1, 0, False) st = Some (Inr hull, st')"
    and "segs = loadable img (unat phoff) 0 (unat phnum)" and "segs \<noteq> []"
  shows "(let first = (\<lambda>seg. round_down (unat (ls_vaddr seg)) 4096);
      past = (\<lambda>seg. unat (ls_vaddr seg) + unat (ls_memsz seg));
      accepted = (\<exists>k. load_kernel grants img st = Some (Inr k, st') \<and> lk_entry k = entry) in
    (accepted \<longleftrightarrow> (\<exists>seg \<in> set segs. first seg \<le> unat entry) \<and> (\<exists>seg \<in> set segs. unat entry < past seg)) \<and>
    (\<not> accepted \<longrightarrow> load_kernel grants img st = Some (Inl EntryOutOfRange, st')) \<and>
    (unat entry \<notin> \<Union> (seg_bytes ` set segs) \<longrightarrow>
      ((\<exists>lower \<in> set segs. \<exists>upper \<in> set segs. past lower \<le> unat entry \<and> unat entry < past upper) \<or>
       (\<exists>seg \<in> set segs. first seg \<le> unat entry \<and> unat entry < unat (ls_vaddr seg))) \<longrightarrow> accepted))"
proof -
  let ?first = "\<lambda>seg. round_down (unat (ls_vaddr seg)) 4096"
  let ?past = "\<lambda>seg. unat (ls_vaddr seg) + unat (ls_memsz seg)"
  let ?in = "(\<exists>seg \<in> set segs. ?first seg \<le> unat entry) \<and> (\<exists>seg \<in> set segs. unat entry < ?past seg)"
  let ?ok = "\<exists>k. load_kernel grants img st = Some (Inr k, st') \<and> lk_entry k = entry"
  obtain r1 st1 new where loop: "load_headers grants img phoff phentsize (unat phnum) 0 (-1, 0, False) st = Some (r1, st1)"
    "\<forall>h. r1 = Inr h \<longrightarrow> h = foldl widen (-1, 0, False) segs \<and> (\<forall>seg \<in> set segs. seg_good img (ld_mem st1) new seg)"
    by (rule load_kernel_loop [OF assms(1-3), of st, folded assms(5)])
  have "r1 = Inr hull" using loop(1) assms(4) by simp
  with loop(2) have widened: "hull = foldl widen (-1, 0, False) segs" and ok: "\<forall>seg \<in> set segs. seg_ok img seg"
    unfolding seg_good_def by blast+
  obtain lo hi any where eq: "hull = (lo, hi, any)" by (cases hull)
  note hull = eq widened [symmetric, unfolded eq]
  note h = hull_contains [OF hull(2) assms(6) ok]
  have "?ok" if ?in
  proof -
    obtain r st2 where r: "load_kernel grants img st = Some (r, st2)"
      using load_kernel_returns [OF assms(1,2), of st] by blast
    moreover have "\<not> entry < lo" "\<not> hi \<le> entry" using that h(1,2) [of entry] by (simp_all add: not_less not_le)
    ultimately show ?thesis
      using h(3) assms(3,4) hull(1)
      by (auto simp: load_kernel_def elim!: run_bindE simp del: checked_sub_Some_iff)
  qed
  moreover have "load_kernel grants img st = Some (Inl EntryOutOfRange, st')" if "\<not> ?in"
  proof -
    have "entry < lo \<or> hi \<le> entry" using that h(1,2) [of entry] by (auto simp: not_less not_le)
    then show ?thesis using h(3) assms(3,4) hull(1) by (simp add: load_kernel_def)
  qed
  ultimately have iff: "(?ok \<longleftrightarrow> ?in) \<and> (\<not> ?ok \<longrightarrow> load_kernel grants img st = Some (Inl EntryOutOfRange, st'))"
    by (cases ?in) auto
  have "?first seg \<le> ?past seg" and "?first seg \<le> unat (ls_vaddr seg)" for seg
    using round_down_le [of "unat (ls_vaddr seg)" 4096] by (simp_all add: trans_le_add1)
  then have "?in" if "(\<exists>lower \<in> set segs. \<exists>upper \<in> set segs. ?past lower \<le> unat entry \<and> unat entry < ?past upper) \<or>
      (\<exists>seg \<in> set segs. ?first seg \<le> unat entry \<and> unat entry < unat (ls_vaddr seg))"
    using that by (meson le_trans less_le_trans le_add1)
  then show ?thesis using iff unfolding Let_def by blast
qed

text \<open>
  Three such images: between two segments, before an empty one, and in the padding of the first page.
  Each has its entry point in no segment and is accepted.
\<close>

definition gap_image :: "u64 \<Rightarrow> u64 \<Rightarrow> u64 \<Rightarrow> u8 list" where
  "gap_image entry vaddr memsz = encode_ehdr (demo_ehdr entry 2) @
     encode_phdr 1 \<lparr>ls_offset = 0, ls_vaddr = vaddr, ls_filesz = 0, ls_memsz = 0x800\<rparr> @
     encode_phdr 1 \<lparr>ls_offset = 0, ls_vaddr = 0x209000, ls_filesz = 0, ls_memsz = memsz\<rparr>"

definition gap_fw :: firmware where
  "gap_fw h p n \<longleftrightarrow> h = [] \<and> p = 0x200000 \<and> n = 1 \<or> h = [(0x200000, 1)] \<and> p = 0x209000 \<and> n = 1"

definition gap_segs :: "u64 \<Rightarrow> u64 \<Rightarrow> load_segment list" where
  "gap_segs vaddr memsz = [\<lparr>ls_offset = 0, ls_vaddr = vaddr, ls_filesz = 0, ls_memsz = 0x800\<rparr>,
     \<lparr>ls_offset = 0, ls_vaddr = 0x209000, ls_filesz = 0, ls_memsz = memsz\<rparr>]"

lemma gap_fw_ok: "fw_ok gap_fw"
  by (auto simp: fw_ok_def gap_fw_def)

lemma gap_image_short: "length (gap_image entry vaddr memsz) < 2 ^ 63"
  by (simp add: gap_image_def encode_ehdr_def encode_phdr_def demo_ehdr_def)

lemma gap_image_facts:
  assumes "(entry, vaddr, memsz) \<in> {(0x205000, 0x200000, 0x1000), (0x205000, 0x200000, 0), (0x200004, 0x200010, 0)}"
  shows "parse_header (gap_image entry vaddr memsz) = Inr (entry, 64, 56, 2)"
    and "loadable (gap_image entry vaddr memsz) 64 0 2 = gap_segs vaddr memsz"
    and "\<exists>hull st'. load_headers gap_fw (gap_image entry vaddr memsz) 64 56 2 0 (-1, 0, False) demo_load = Some (Inr hull, st')"
proof -
  show "parse_header (gap_image entry vaddr memsz) = Inr (entry, 64, 56, 2)"
  proof -
    have "ehdr_ok (demo_ehdr entry 2)" by (simp add: ehdr_ok_def demo_ehdr_def)
    from parse_encoded_header [OF this gap_image_def gap_image_short] show ?thesis by (simp add: demo_ehdr_def)
  qed
  show "loadable (gap_image entry vaddr memsz) 64 0 2 = gap_segs vaddr memsz"
    by (simp add: loadable_def upt_rec segment_at_def le_at_def gap_image_def gap_segs_def encode_ehdr_def encode_phdr_def demo_ehdr_def)
  show "\<exists>hull st'. load_headers gap_fw (gap_image entry vaddr memsz) 64 56 2 0 (-1, 0, False) demo_load = Some (Inr hull, st')"
  proof -
    have "map_option fst (load_headers gap_fw (gap_image 0x205000 0x200000 0x1000) 64 56 2 0 (-1, 0, False) demo_load)
        = Some (Inr (0x200000, 0x20a000, True))"
      and "map_option fst (load_headers gap_fw (gap_image 0x205000 0x200000 0) 64 56 2 0 (-1, 0, False) demo_load)
        = Some (Inr (0x200000, 0x209000, True))"
      and "map_option fst (load_headers gap_fw (gap_image 0x200004 0x200010 0) 64 56 2 0 (-1, 0, False) demo_load)
        = Some (Inr (0x200000, 0x209000, True))"
      by code_simp+
    from this [THEN run_result] show ?thesis using assms by blast
  qed
qed

theorem elf_entry_gap_witness:
  "list_all (\<lambda>(entry, vaddr, memsz). unat entry \<notin> \<Union> (seg_bytes ` set (gap_segs vaddr memsz)) \<and>
      (\<exists>k st'. load_kernel gap_fw (gap_image entry vaddr memsz) demo_load = Some (Inr k, st') \<and> lk_entry k = entry))
    [(0x205000, 0x200000, 0x1000), (0x205000, 0x200000, 0), (0x200004, 0x200010, 0)]"
proof -
  have "unat entry \<notin> \<Union> (seg_bytes ` set (gap_segs vaddr memsz)) \<and>
     (\<exists>k st'. load_kernel gap_fw (gap_image entry vaddr memsz) demo_load = Some (Inr k, st') \<and> lk_entry k = entry)"
    if g: "(entry, vaddr, memsz) \<in> {(0x205000, 0x200000, 0x1000), (0x205000, 0x200000, 0), (0x200004, 0x200010, 0)}"
    for entry vaddr memsz
  proof -
    obtain hull st' where hd: "load_headers gap_fw (gap_image entry vaddr memsz) 64 56 2 0 (-1, 0, False) demo_load = Some (Inr hull, st')"
      using gap_image_facts(3) [OF g] by blast
    have "load_headers gap_fw (gap_image entry vaddr memsz) 64 56 (unat (2 :: u16)) 0 (-1, 0, False) demo_load = Some (Inr hull, st')"
      "gap_segs vaddr memsz = loadable (gap_image entry vaddr memsz) (unat (64 :: u64)) 0 (unat (2 :: u16))"
      "gap_segs vaddr memsz \<noteq> []"
      using hd gap_image_facts(2) [OF g] by (simp_all add: gap_segs_def)
    note gap = elf_entry_gap [OF gap_fw_ok gap_image_short gap_image_facts(1) [OF g] this, unfolded Let_def, THEN conjunct1]
    have "\<exists>seg \<in> set (gap_segs vaddr memsz). round_down (unat (ls_vaddr seg)) 4096 \<le> unat entry"
      and "\<exists>seg \<in> set (gap_segs vaddr memsz). unat entry < unat (ls_vaddr seg) + unat (ls_memsz seg)"
      using g by (auto simp: gap_segs_def round_down_def)
    moreover have "unat entry \<notin> \<Union> (seg_bytes ` set (gap_segs vaddr memsz))"
      using g by (auto simp: gap_segs_def seg_bytes_def)
    ultimately show ?thesis using gap by blast
  qed
  then show ?thesis unfolding list_all_iff list.set by blast
qed

text \<open>
  An empty segment (\<open>p_memsz\<close> = 0) does need an allocation when its address is not page
  aligned: the padding in front of it is counted, and a firmware that refuses the page makes the
  whole load fail.
\<close>

theorem elf_empty_segment:
  "load_segment_into (\<lambda>_ _ _. False) img
     \<lparr>ls_offset = 0, ls_vaddr = 0x200010, ls_filesz = 0, ls_memsz = 0\<rparr> st = Some (Inl AllocationFailed, st) \<and>
   load_segment_into (\<lambda>_ _ _. False) img
     \<lparr>ls_offset = 0, ls_vaddr = 0x200000, ls_filesz = 0, ls_memsz = 0\<rparr> st = Some (Inr (), st)"
proof -
  have "align_down 0x200010 = 0x200000" "checked_sub (0x200010 :: u64) 0x200000 = Some 0x10"
    "checked_add (0x10 :: u64) 0 = Some 0x10" by code_simp+
  moreover have "align_down 0x200000 = 0x200000" "checked_sub (0x200000 :: u64) 0x200000 = Some 0"
    "checked_add (0 :: u64) 0 = Some 0" by code_simp+
  ultimately show ?thesis
    by (simp add: load_segment_into_def Let_def del: checked_add_Some_iff checked_sub_Some_iff)
qed

end
