(* ===== verification/Boot_Props.thy ===== *)
theory Boot_Props
  imports Boot_Handoff Elf_Props
begin

text \<open>
  What the bootloader hands to the kernel: the file it read, the stack, the memory map and the
  \<open>BootInfo\<close> behind the pointer in \<open>rdi\<close>.
\<close>

section \<open>What UEFI promises\<close>

text \<open>
  \<open>reads_file u left\<close>: reading takes bytes off the front of what is \<open>left\<close> of the file, never more
  than asked for, and at least one unless the file is exhausted. \<open>pages_ok u\<close>: page allocations
  are page aligned and do not reach the last page of the address space.
\<close>

definition reads_file :: "'w uefi \<Rightarrow> ('w \<Rightarrow> u8 list) \<Rightarrow> bool" where
  "reads_file u left \<longleftrightarrow> (\<forall>n w. 0 < n \<longrightarrow> (\<exists>chunk w'. uf_read u n w = (Inr chunk, w') \<and>
     length chunk \<le> n \<and> left w = chunk @ left w' \<and> (left w \<noteq> [] \<longrightarrow> chunk \<noteq> [])))"

definition pages_ok :: "'w uefi \<Rightarrow> bool" where
  "pages_ok u \<longleftrightarrow> (\<forall>n w p w'. uf_any_pages u n w = (Inr p, w') \<longrightarrow>
     4096 dvd unat p \<and> unat p + 4096 * unat n < 2 ^ 64)"

section \<open>Facts\<close>

lemma try_fw_simps [simp]: "try_fw (Inl e, w) f = (Inl e, w)" "try_fw (Inr v, w) f = f v w"
  by (simp_all add: try_fw_def)

lemma try_fw_Inr:
  "try_fw r f = (Inr v, w') \<longleftrightarrow> (\<exists>a w. r = (Inr a, w) \<and> f a w = (Inr v, w'))"
  by (auto simp: try_fw_def split: prod.splits sum.splits)

lemma read_loop_spec:
  "reads_file u left \<Longrightarrow> length buffer = len \<Longrightarrow> filled \<le> len \<Longrightarrow>
    fst (read_loop u len buffer filled w) =
      (if len - filled \<le> length (left w) then Inr (take filled buffer @ take (len - filled) (left w))
       else Inl END_OF_FILE)"
proof (induction u len buffer filled w rule: read_loop.induct)
  case (1 u len buffer filled w)
  show ?case
  proof (cases "filled < len")
    case False
    then show ?thesis using 1 by (subst read_loop.simps) simp
  next
    case True
    then obtain chunk w' where c: "uf_read u (len - filled) w = (Inr chunk, w')" "length chunk \<le> len - filled"
      "left w = chunk @ left w'" "left w \<noteq> [] \<longrightarrow> chunk \<noteq> []"
      using "1.prems"(1) by (metis reads_file_def zero_less_diff)
    show ?thesis
    proof (cases "chunk = []")
      case True
      then have "read_loop u len buffer filled w = (Inl END_OF_FILE, w')"
        using c(1) \<open>filled < len\<close> by (subst read_loop.simps) simp
      moreover have "left w = []" using c(4) True by blast
      ultimately show ?thesis using \<open>filled < len\<close> by simp
    next
      case False
      let ?b = "take filled buffer @ chunk @ drop (filled + length chunk) buffer"
      have len: "length ?b = len" "filled + length chunk \<le> len"
        using "1.prems"(2,3) c(2) by auto
      have "fst (read_loop u len ?b (filled + length chunk) w') =
          (if len - (filled + length chunk) \<le> length (left w')
           then Inr (take (filled + length chunk) ?b @ take (len - (filled + length chunk)) (left w'))
           else Inl END_OF_FILE)"
        using "1.IH" [OF True c(1) [symmetric] refl] False "1.prems"(1) len by simp
      moreover have "read_loop u len buffer filled w = read_loop u len ?b (filled + length chunk) w'"
        using True c(1) False by (subst read_loop.simps) simp
      moreover have "take (filled + length chunk) ?b = take filled buffer @ chunk"
        using "1.prems"(2,3) by simp
      moreover have "take (len - filled) (left w) = chunk @ take (len - (filled + length chunk)) (left w')"
        using c(2,3) by simp
      ultimately show ?thesis using c(2,3) by auto
    qed
  qed
qed

lemma stack_pointer:
  assumes "uf_any_pages u KERNEL_STACK_PAGES w = (Inr bottom, w')" and "4096 dvd unat bottom"
    and "unat bottom + 65536 < 2 ^ 64"
  shows "\<exists>rsp. allocate_kernel_stack u w = Some (Inr rsp, w') \<and> unat rsp = unat bottom + 65528 \<and>
    unat rsp mod 16 = 8"
proof -
  have len: "checked_mul KERNEL_STACK_PAGES BOOT_PAGE_SIZE = Some 65536" by code_simp
  obtain top where top: "checked_add bottom 65536 = Some top" "unat top = unat bottom + 65536"
    using assms(3) checked_add_None_iff [of bottom 65536]
    by (cases "checked_add bottom 65536") auto
  have "16 dvd unat top"
  proof -
    have "(16 :: nat) dvd 4096" "(16 :: nat) dvd 65536" by simp_all
    then show ?thesis using assms(2) top(2) by (metis dvd_add dvd_trans)
  qed
  moreover have "unat (top AND NOT 0xf) = unat top div 16 * 16"
    using unat_and_not_mask [of top 4] by (simp add: mask_eq_exp_minus_1)
  ultimately have al: "unat (top AND NOT 0xf) = unat bottom + 65536" using top(2) by simp
  then have sub: "checked_sub (top AND NOT 0xf) 8 = Some ((top AND NOT 0xf) - 8)"
    "unat ((top AND NOT 0xf) - 8) = unat bottom + 65528"
    by (auto simp: checked_sub_def word_le_nat_alt unat_sub_le)
  have "allocate_kernel_stack u w = Some (Inr ((top AND NOT 0xf) - 8), w')"
    using assms(1) len top(1) sub(1)
    by (simp add: allocate_kernel_stack_def del: checked_mul_Some_iff checked_add_Some_iff checked_sub_Some_iff)
  moreover have "(unat bottom + 65528) mod 16 = 8"
  proof -
    have "(16 :: nat) dvd 4096" by simp
    then have "16 dvd unat bottom" using assms(2) dvd_trans by blast
    then show ?thesis by (simp add: mod_add_eq [symmetric] dvd_eq_mod_eq_0)
  qed
  ultimately show ?thesis using sub(2) by auto
qed

lemma copy_regions_spec:
  "unat count + length ds < 2 ^ 64 \<Longrightarrow> count \<le> capacity \<Longrightarrow>
   \<exists>n. copy_regions capacity count ds =
     Some (map (\<lambda>d. memory_region_new (md_phys_start d) (md_page_count d) (md_ty d))
       (take (unat capacity - unat count) ds), n) \<and>
     unat n = unat count + min (unat capacity - unat count) (length ds)"
proof (induction ds arbitrary: count)
  case (Cons d ds)
  show ?case
  proof (cases "capacity \<le> count")
    case True
    then show ?thesis using Cons.prems(2) by (simp add: word_le_nat_alt)
  next
    case False
    then have add: "checked_add count 1 = Some (count + 1)" "unat (count + 1) = unat count + 1"
      using Cons.prems(1) by (auto simp: checked_add_def unat_add_small)
    then have "count + 1 \<le> capacity" "unat (count + 1) + length ds < 2 ^ 64"
      using False Cons.prems(1) by (auto simp: word_le_nat_alt)
    from Cons.IH [OF this(2,1)] obtain n where n: "copy_regions capacity (count + 1) ds =
        Some (map (\<lambda>d. memory_region_new (md_phys_start d) (md_page_count d) (md_ty d))
          (take (unat capacity - unat (count + 1)) ds), n)"
      "unat n = unat (count + 1) + min (unat capacity - unat (count + 1)) (length ds)" by blast
    have "unat capacity - unat count = Suc (unat capacity - unat (count + 1))"
      using False add(2) by (simp add: word_le_nat_alt)
    then show ?thesis using False n add by (simp del: checked_add_Some_iff)
  qed
qed simp

lemma region_array:
  "(case uf_any_pages u 2 w of
      (Inl e, w') \<Rightarrow> allocate_region_array u REGION_CAPACITY w = Some (Inl e, w')
    | (Inr p, w') \<Rightarrow> allocate_region_array u REGION_CAPACITY w = Some (Inr (p, 341), w'))"
proof -
  have c: "checked_mul REGION_CAPACITY MEMORY_REGION_SIZE = Some 6144" by code_simp
  have p: "div_ceil 6144 BOOT_PAGE_SIZE = 2" by code_simp
  have s: "checked_mul 2 BOOT_PAGE_SIZE = Some 8192" by code_simp
  have d: "8192 div MEMORY_REGION_SIZE = 341" by code_simp
  show ?thesis
    by (auto simp: allocate_region_array_def c p s d simp del: checked_mul_Some_iff split: prod.splits sum.splits)
qed

lemma open_framebuffer_Inr:
  "open_framebuffer u w = (Inr fb, w') \<Longrightarrow> fb_pixel_format fb \<noteq> None \<and> fb_bytes_per_pixel fb = 4"
proof -
  assume "open_framebuffer u w = (Inr fb, w')"
  moreover obtain r1 v1 where "uf_gop_handle u w = (r1, v1)" by fastforce
  moreover obtain r2 v2 where "uf_gop_open u v1 = (r2, v2)" by fastforce
  moreover obtain f where "(case r2 of Inl _ \<Rightarrow> Gop_Rgb | Inr mode \<Rightarrow> gop_format mode) = f" by blast
  ultimately show ?thesis
    by (cases r1; cases r2; cases f)
      (auto simp: open_framebuffer_def frame_buffer_info_new_def fb_pixel_format_def
        pixel_format_as_u32_def pixel_format_from_u32_def)
qed

text \<open>What holds of the state the kernel is entered with.\<close>

definition handoff_ok :: "'w uefi \<Rightarrow> loaded_kernel \<Rightarrow> handoff \<Rightarrow> bool" where
  "handoff_ok u k h \<longleftrightarrow>
     boot_info_is_valid (ho_boot_info h) \<and> fb_bytes_per_pixel (bi_framebuffer (ho_boot_info h)) = 4 \<and>
     (\<exists>w w'. open_framebuffer u w = (Inr (bi_framebuffer (ho_boot_info h)), w')) \<and>
     bi_kernel_base (ho_boot_info h) = lk_base k \<and> bi_kernel_size (ho_boot_info h) = lk_size k \<and>
     ho_rip h = lk_entry k \<and> unat (ho_rsp h) mod 16 = 8 \<and> ho_rbp h = 0 \<and> \<not> ho_interrupts h \<and>
     unat (bi_memory_regions_len (ho_boot_info h)) = length (ho_regions h) \<and>
     (\<exists>w. ho_regions h = map (\<lambda>d. memory_region_new (md_phys_start d) (md_page_count d) (md_ty d))
       (take 341 (uf_exit_boot_services u w)))"

lemma exit_and_jump_ok:
  assumes "length (uf_exit_boot_services u w) < 2 ^ 63" and "fb_pixel_format fb \<noteq> None"
    and "fb_bytes_per_pixel fb = 4" and "unat rsp mod 16 = 8" and "\<exists>w w'. open_framebuffer u w = (Inr fb, w')"
  shows "\<exists>h. exit_and_jump u p (boot_info_new fb rp 0 (lk_base k) (lk_size k)) 341 (lk_entry k) rsp w = Some h \<and>
    handoff_ok u k h"
proof -
  have "unat (0 :: u64) + length (uf_exit_boot_services u w) < 2 ^ 64" "(0 :: u64) \<le> 341"
    using assms(1) by simp_all
  from copy_regions_spec [OF this] obtain n where n: "copy_regions 341 0 (uf_exit_boot_services u w) =
      Some (map (\<lambda>d. memory_region_new (md_phys_start d) (md_page_count d) (md_ty d))
        (take 341 (uf_exit_boot_services u w)), n)"
    "unat n = min 341 (length (uf_exit_boot_services u w))" by auto
  then show ?thesis using assms(2-5)
    by (auto simp: exit_and_jump_def handoff_ok_def boot_info_is_valid_def boot_info_new_def min.commute)
qed

lemma boot_main_ok:
  assumes fw: "fw_ok grants" and pages: "pages_ok u"
    and vec: "\<forall>img w'. read_file u (snd (uf_init u w)) = (Inr img, w') \<longrightarrow> length img < 2 ^ 63"
    and descs: "\<forall>w. length (uf_exit_boot_services u w) < 2 ^ 63"
  shows "\<exists>r st'. boot_main u grants w st = Some (r, st') \<and>
    (r = Exit Failed \<or> (\<exists>h img k w1 w2. r = Jump h \<and> read_file u w1 = (Inr img, w2) \<and>
       load_kernel grants img st = Some (Inr k, st') \<and> handoff_ok u k h))"
proof -
  obtain ok w1 where init: "uf_init u w = (ok, w1)" by fastforce
  obtain f w2 where fil: "read_file u w1 = (f, w2)" by fastforce
  show ?thesis
  proof (cases "ok \<and> (\<exists>img. f = Inr img)")
    case False
    then show ?thesis using init fil by (cases f) (auto simp: boot_main_def)
  next
    case True
    then obtain img where img: "ok" "f = Inr img" by blast
    then have "length img < 2 ^ 63" using vec fil init by simp
    then obtain r st' where lk: "load_kernel grants img st = Some (r, st')"
      using load_kernel_returns [OF fw] by blast
    obtain g w3 where fb: "open_framebuffer u w2 = (g, w3)" by fastforce
    show ?thesis
    proof (cases "(\<exists>k. r = Inr k) \<and> (\<exists>fb. g = Inr fb)")
      case False
      then show ?thesis using init fil img lk fb
        by (cases r; cases g) (auto simp: boot_main_def)
    next
      case True
      then obtain k fbi where k: "r = Inr k" "g = Inr fbi" by blast
      note fbi = open_framebuffer_Inr [OF fb [unfolded k(2)]]
      have gop: "\<exists>w w'. open_framebuffer u w = (Inr fbi, w')" using fb k(2) by blast
      obtain a w4 where arr: "uf_any_pages u 2 w3 = (a, w4)" by fastforce
      show ?thesis
      proof (cases a)
        case (Inl e)
        then have "allocate_region_array u REGION_CAPACITY w3 = Some (Inl e, w4)"
          using region_array [of u w3] arr by simp
        then show ?thesis using init fil img lk fb k by (simp add: boot_main_def)
      next
        case (Inr rp)
        then have ra: "allocate_region_array u REGION_CAPACITY w3 = Some (Inr (rp, 341), w4)"
          using region_array [of u w3] arr by simp
        obtain b w5 where stk: "uf_any_pages u KERNEL_STACK_PAGES w4 = (b, w5)" by fastforce
        show ?thesis
        proof (cases b)
          case (Inl e)
          then have "allocate_kernel_stack u w4 = Some (Inl e, w5)"
            using stk by (simp add: allocate_kernel_stack_def)
          then show ?thesis using init fil img lk fb k ra by (simp add: boot_main_def)
        next
          case (Inr bottom)
          have "4096 dvd unat bottom" "unat bottom + 65536 < 2 ^ 64"
            using pages [unfolded pages_ok_def, rule_format, OF stk [unfolded Inr]]
            by (simp_all add: KERNEL_STACK_PAGES_def)
          from stack_pointer [OF stk [unfolded Inr] this] obtain rsp where
            sp: "allocate_kernel_stack u w4 = Some (Inr rsp, w5)" "unat rsp mod 16 = 8" by blast
          obtain c w6 where bi: "uf_any_pages u 1 w5 = (c, w6)" by fastforce
          show ?thesis
          proof (cases c)
            case (Inl e)
            then show ?thesis using init fil img lk fb k ra sp bi by (simp add: boot_main_def)
          next
            case (Inr bip)
            obtain h where h: "exit_and_jump u bip (boot_info_new fbi rp 0 (lk_base k) (lk_size k)) 341
                (lk_entry k) rsp w6 = Some h" "handoff_ok u k h"
              using exit_and_jump_ok [of u w6 fbi rsp] descs fbi sp(2) gop by blast
            have "boot_main u grants w st = Some (Jump h, st')"
              using init fil img lk fb k ra sp(1) bi Inr h(1) by (simp add: boot_main_def)
            then show ?thesis using h(2) fil img(2) lk k(1) by blast
          qed
        qed
      qed
    qed
  qed
qed

section \<open>A firmware for the witnesses\<close>

text \<open>
  Its state is what is left of the file and the address of the next free page; it serves reads
  of at most 50 bytes.
\<close>

definition demo_uefi :: "(u8 list \<times> u64) uefi" where
  "demo_uefi = \<lparr>uf_init = (\<lambda>w. (True, w)), uf_image_fs = (\<lambda>w. (Inr (), w)),
     uf_open_volume = (\<lambda>w. (Inr (), w)), uf_open = (\<lambda>w. (Inr True, w)),
     uf_file_size = (\<lambda>w. (Inr (length (fst w)), w)),
     uf_read = (\<lambda>n w. (Inr (take (min n 50) (fst w)), (drop (min n 50) (fst w), snd w))),
     uf_gop_handle = (\<lambda>w. (Inr (), w)),
     uf_gop_open = (\<lambda>w. (Inr \<lparr>gop_width = 1024, gop_height = 768, gop_stride = 1024,
       gop_format = Gop_Bgr, gop_addr = 0x80000000, gop_size = 0x300000\<rparr>, w)),
     uf_any_pages = (\<lambda>n w. if n = 1 then (Inr 0x400000, w) else if n = 2 then (Inr 0x600000, w)
       else if n = 16 then (Inr 0x500000, w) else (Inl (Firmware_status 9), w)),
     uf_exit_boot_services = (\<lambda>_. [\<lparr>md_phys_start = 0x100000, md_page_count = 300, md_ty = 7\<rparr>])\<rparr>"

lemma demo_reads: "reads_file demo_uefi fst"
  unfolding reads_file_def
proof (intro allI impI)
  fix n :: nat and w :: "u8 list \<times> u64"
  assume "0 < n"
  then show "\<exists>chunk w'. uf_read demo_uefi n w = (Inr chunk, w') \<and> length chunk \<le> n \<and>
      fst w = chunk @ fst w' \<and> (fst w \<noteq> [] \<longrightarrow> chunk \<noteq> [])"
    by (intro exI [of _ "take (min n 50) (fst w)"] exI [of _ "(drop (min n 50) (fst w), snd w)"])
      (auto simp: demo_uefi_def)
qed

lemma demo_pages: "pages_ok demo_uefi"
  by (auto simp: pages_ok_def demo_uefi_def split: if_splits)

section \<open>Properties\<close>

text \<open>
  C32. \<open>read_file\<close> reads the whole file and nothing else: once the file is open and its size known,
  it returns exactly the first \<open>size\<close> bytes of its contents, however the firmware splits the
  reads, and \<open>END_OF_FILE\<close> when the contents are shorter than the reported size; it never loops.
\<close>

theorem read_file_exact:
  assumes "reads_file u left" and "uf_image_fs u w = (Inr (), w1)" and "uf_open_volume u w1 = (Inr (), w2)"
    and "uf_open u w2 = (Inr True, w3)" and "uf_file_size u w3 = (Inr len, w4)"
  shows "fst (read_file u w) =
    (if len \<le> length (left w4) then Inr (take len (left w4)) else Inl END_OF_FILE)"
  using read_loop_spec [OF assms(1), of "replicate len 0" len 0 w4] assms(2-5) by (simp add: read_file_def)

theorem read_file_exact_witness:
  "fst (read_file demo_uefi (demo_image, 0x300000)) = Inr demo_image"
  using read_file_exact [where w = "(demo_image, 0x300000)", OF demo_reads] by (simp add: demo_uefi_def)

text \<open>
  C16. The handoff: the bootloader always returns an outcome. It either exits with the failure code
  or enters the kernel at the ELF entry point with interrupts off, \<open>rbp\<close> clear, the stack pointer 8
  modulo 16 as the ABI wants at a function entry, a \<open>BootInfo\<close> that passes the kernel's validity
  check and carries the image span and the framebuffer of the firmware's mode, and a memory map
  that is the firmware's, cut to the array's capacity of 341, with \<open>memory_regions_len\<close> its exact
  length.
\<close>

theorem boot_handoff:
  assumes "fw_ok grants" and "pages_ok u"
    and "\<forall>img w'. read_file u (snd (uf_init u w)) = (Inr img, w') \<longrightarrow> length img < 2 ^ 63"
    and "\<forall>w. length (uf_exit_boot_services u w) < 2 ^ 63"
  shows "\<exists>r st'. boot_main u grants w st = Some (r, st') \<and>
    (r = Exit Failed \<or> (\<exists>h img k w1 w2. r = Jump h \<and> read_file u w1 = (Inr img, w2) \<and>
       load_kernel grants img st = Some (Inr k, st') \<and>
       boot_info_is_valid (ho_boot_info h) \<and> fb_bytes_per_pixel (bi_framebuffer (ho_boot_info h)) = 4 \<and>
       (\<exists>w w'. open_framebuffer u w = (Inr (bi_framebuffer (ho_boot_info h)), w')) \<and>
       bi_kernel_base (ho_boot_info h) = lk_base k \<and> bi_kernel_size (ho_boot_info h) = lk_size k \<and>
       ho_rip h = lk_entry k \<and> unat (ho_rsp h) mod 16 = 8 \<and> ho_rbp h = 0 \<and> \<not> ho_interrupts h \<and>
       unat (bi_memory_regions_len (ho_boot_info h)) = length (ho_regions h) \<and>
       (\<exists>w. ho_regions h = map (\<lambda>d. memory_region_new (md_phys_start d) (md_page_count d) (md_ty d))
         (take 341 (uf_exit_boot_services u w)))))"
  using boot_main_ok [OF assms, of st] unfolding handoff_ok_def .

theorem boot_handoff_witness:
  "\<exists>h st'. boot_main demo_uefi demo_fw (demo_image, 0x300000) demo_load = Some (Jump h, st') \<and>
    boot_info_is_valid (ho_boot_info h) \<and> unat (ho_rsp h) mod 16 = 8 \<and>
    unat (bi_memory_regions_len (ho_boot_info h)) = length (ho_regions h)"
proof -
  let ?m = "boot_main demo_uefi demo_fw (demo_image, 0x300000) demo_load"
  have jump: "(case ?m of Some (Jump _, _) \<Rightarrow> True | _ \<Rightarrow> False)" by code_simp
  have "fst (read_file demo_uefi (demo_image, 0x300000)) = Inr demo_image" by code_simp
  then have vec: "\<forall>img w'. read_file demo_uefi (snd (uf_init demo_uefi (demo_image, 0x300000))) = (Inr img, w') \<longrightarrow>
      length img < 2 ^ 63"
    using demo_image_short by (auto simp: demo_uefi_def)
  have "\<forall>w. length (uf_exit_boot_services demo_uefi w) < 2 ^ 63" by (simp add: demo_uefi_def)
  from boot_handoff [where st = demo_load, OF demo_fw_ok demo_pages vec this] jump show ?thesis
    by (auto split: option.splits prod.splits boot_outcome.splits)
qed

end
