(* ===== verification/Pit.thy ===== *)
theory Pit
  imports Ports
begin

unbundle bit_operations_syntax

text \<open>
  Channel 0 of the 8254 interval timer (kernel/src/pit.rs): which frequencies the driver accepts
  and what the chip counts down from afterwards.
\<close>

section \<open>Model\<close>

definition CHANNEL0_DATA :: u16 where "CHANNEL0_DATA = 0x40"
definition PIT_COMMAND :: u16 where "PIT_COMMAND = 0x43"
definition BASE_FREQUENCY :: u32 where "BASE_FREQUENCY = 1193182"

text \<open>The assertion is the first branch: a frequency out of range is a panic.\<close>

definition pit_init :: "'d ports \<Rightarrow> u32 \<Rightarrow> 'd \<Rightarrow> 'd run" where
  "pit_init p hz d =
     (if \<not> (19 \<le> hz \<and> hz \<le> BASE_FREQUENCY) then None
      else
        let divisor = ucast (BASE_FREQUENCY div hz) :: u16;
            d = outb p PIT_COMMAND 0x36 d;
            d = outb p CHANNEL0_DATA (ucast (divisor AND 0xFF)) d
        in Some (outb p CHANNEL0_DATA (ucast (drop_bit 8 divisor)) d))"

section \<open>The chip\<close>

text \<open>
  Channel 0 in access mode lobyte/hibyte: after a command the first data byte is latched, and the
  second completes the reload value; 0 stands for 65536.
\<close>

record pit_channel =
  pt_mode :: u8
  pt_latch :: "u8 option"
  pt_reload :: u16

definition pit_control :: "u8 \<Rightarrow> pit_channel \<Rightarrow> pit_channel" where
  "pit_control v c = (if drop_bit 6 v = 0 then c\<lparr>pt_mode := v, pt_latch := None\<rparr> else c)"

definition pit_count :: "u8 \<Rightarrow> pit_channel \<Rightarrow> pit_channel" where
  "pit_count v c =
     (case pt_latch c of
        None \<Rightarrow> c\<lparr>pt_latch := Some v\<rparr>
      | Some low \<Rightarrow> c\<lparr>pt_latch := None, pt_reload := push_bit 8 (ucast v) OR ucast low\<rparr>)"

definition is_8254 :: "'d ports \<Rightarrow> ('d \<Rightarrow> pit_channel) \<Rightarrow> bool" where
  "is_8254 p view \<longleftrightarrow>
     (\<forall>v d. view (port_out p 0x43 v d) = pit_control v (view d)) \<and>
     (\<forall>v d. view (port_out p 0x40 v d) = pit_count v (view d))"

lemma split_bytes: "push_bit 8 (ucast (ucast (drop_bit 8 w) :: u8)) OR ucast (ucast (w AND 0xFF) :: u8) = (w :: u16)"
proof -
  have low: "w AND 0xFF = take_bit 8 w" by (simp add: take_bit_eq_mask mask_eq_exp_minus_1)
  have "bit (push_bit 8 (ucast (ucast (drop_bit 8 w) :: u8)) OR ucast (ucast (take_bit 8 w) :: u8) :: u16) n = bit w n"
    if "n < LENGTH(16)" for n
    using that by (cases "n < 8") (auto simp: bit_simps)
  then show ?thesis unfolding low by (rule bit_word_eqI)
qed

lemma div_bounds:
  assumes "0 < h"
  shows "n div h * h \<le> n" and "n < (n div h + 1) * (h :: nat)"
  using assms dividend_less_div_times [of h n] by (simp_all add: algebra_simps)

section \<open>Properties\<close>

text \<open>
  \<open>pit::init\<close> panics exactly for frequencies outside 19..=1193182. For every other one the chip
  ends in mode 3 with a complete reload value, the quotient 1193182 / hz: it is never 0 and never
  truncated to 16 bits, and it is the largest divisor whose tick rate is at least the requested
  one.
\<close>

theorem pit_init_programs:
  assumes "is_8254 p view"
  shows "(pit_init p hz d = None \<longleftrightarrow> hz < 19 \<or> BASE_FREQUENCY < hz) \<and>
    (\<forall>d'. pit_init p hz d = Some d' \<longrightarrow>
       pt_mode (view d') = 0x36 \<and> pt_latch (view d') = None \<and>
       (let reload = unat (pt_reload (view d')) in
          0 < reload \<and> reload * unat hz \<le> 1193182 \<and> 1193182 < (reload + 1) * unat hz))"
proof -
  have range: "pit_init p hz d = None \<longleftrightarrow> hz < 19 \<or> BASE_FREQUENCY < hz"
    by (auto simp: pit_init_def Let_def not_le)
  have "pt_mode (view d') = 0x36 \<and> pt_latch (view d') = None \<and>
      unat (pt_reload (view d')) = 1193182 div unat hz \<and> 0 < 1193182 div unat hz \<and> 0 < unat hz"
    if "pit_init p hz d = Some d'" for d'
  proof -
    have hz: "19 \<le> unat hz" "unat hz \<le> 1193182"
      using that by (auto simp: pit_init_def BASE_FREQUENCY_def word_le_nat_alt split: if_splits)
    have q: "unat (BASE_FREQUENCY div hz) = 1193182 div unat hz"
      by (simp add: BASE_FREQUENCY_def unat_div_distrib)
    have "1193182 div unat hz \<le> 1193182 div 19" using hz(1) by (intro div_le_mono2) auto
    then have small: "1193182 div unat hz < 65536" by simp
    have "view d' = \<lparr>pt_mode = 0x36, pt_latch = None,
        pt_reload = ucast (BASE_FREQUENCY div hz)\<rparr>"
      using that assms
      by (auto simp: pit_init_def Let_def is_8254_def outb_def PIT_COMMAND_def CHANNEL0_DATA_def
          pit_control_def pit_count_def split_bytes split: if_splits)
    moreover have "unat (ucast (BASE_FREQUENCY div hz) :: u16) = 1193182 div unat hz"
      using small q by (simp add: unsigned_ucast_eq take_bit_nat_eq_self)
    moreover have "0 < 1193182 div unat hz" using hz by (simp add: div_greater_zero_iff)
    ultimately show ?thesis using hz by simp
  qed
  then show ?thesis using range div_bounds by (auto simp: Let_def)
qed

definition demo_pit :: "pit_channel ports" where
  "demo_pit = \<lparr>port_in = (\<lambda>_ d. (0, d)),
     port_out = (\<lambda>port v c. if port = 0x43 then pit_control v c else if port = 0x40 then pit_count v c else c),
     port_out32 = (\<lambda>_ _ d. d)\<rparr>"

theorem pit_init_programs_witness:
  "\<exists>d'. pit_init demo_pit 100 \<lparr>pt_mode = 0, pt_latch = Some 7, pt_reload = 0\<rparr> = Some d' \<and>
    pt_mode d' = 0x36 \<and> unat (pt_reload d') * 100 \<le> 1193182"
proof -
  have ok: "is_8254 demo_pit (\<lambda>c. c)" by (simp add: is_8254_def demo_pit_def)
  have "\<not> ((100 :: u32) < 19 \<or> BASE_FREQUENCY < 100)" by (simp add: BASE_FREQUENCY_def)
  then show ?thesis
    using pit_init_programs [OF ok, of 100 "\<lparr>pt_mode = 0, pt_latch = Some 7, pt_reload = 0\<rparr>"]
    by (cases "pit_init demo_pit 100 \<lparr>pt_mode = 0, pt_latch = Some 7, pt_reload = 0\<rparr>")
      (auto simp: Let_def)
qed

end
