(* ===== verification/Heap_Work.thy ===== *)
theory Heap_Work
  imports Kernel_Heap
begin

unbundle bit_operations_syntax

text \<open>
  The heap self-test (kernel/src/heap.rs, \<open>selftest\<close>) with the parts of the \<open>alloc\<close> crate it
  drives: \<open>Box::new\<close>, the amortised growth of \<open>Vec\<close> and \<open>String\<close>, \<open>with_capacity\<close>, and the
  drops at the ends of the scopes, all against \<open>KernelHeap\<close>.

  The payload bytes live in the same memory as the free-list headers: a cell of \<open>heap_mem\<close> is
  sixteen bytes, read and written here as two words or as bytes. Which word of the cell is
  \<open>size\<close> and which is \<open>next\<close> is immaterial, because the test reads only bytes it wrote. A panic
  (a failed request, an index out of range, a capacity overflow) is \<open>None\<close>.
\<close>

section \<open>Words and bytes of the heap's memory\<close>

definition peek_u64 :: "u64 \<Rightarrow> heap_mem \<Rightarrow> u64" where
  "peek_u64 p mem =
     (if p mod 16 < 8 then hb_size (mem (p - p mod 16)) else hb_next (mem (p - p mod 16)))"

definition poke_u64 :: "u64 \<Rightarrow> u64 \<Rightarrow> heap_mem \<Rightarrow> heap_mem" where
  "poke_u64 p v mem =
     (let c = p - p mod 16
      in if p mod 16 < 8 then mem(c := (mem c)\<lparr>hb_size := v\<rparr>) else mem(c := (mem c)\<lparr>hb_next := v\<rparr>))"

definition peek_u8 :: "u64 \<Rightarrow> heap_mem \<Rightarrow> u8" where
  "peek_u8 p mem = ucast (drop_bit (8 * unat (p mod 8)) (peek_u64 (p - p mod 8) mem))"

definition poke_u8 :: "u64 \<Rightarrow> u8 \<Rightarrow> heap_mem \<Rightarrow> heap_mem" where
  "poke_u8 p b mem =
     (let q = p - p mod 8; sh = 8 * unat (p mod 8)
      in poke_u64 q ((peek_u64 q mem AND NOT (push_bit sh 0xff)) OR push_bit sh (ucast b)) mem)"

primrec copy_nonoverlapping :: "nat \<Rightarrow> u64 \<Rightarrow> u64 \<Rightarrow> heap_mem \<Rightarrow> heap_mem" where
  "copy_nonoverlapping 0 src dst mem = mem"
| "copy_nonoverlapping (Suc n) src dst mem =
     copy_nonoverlapping n (src + 1) (dst + 1) (poke_u8 dst (peek_u8 src mem) mem)"

primrec poke_bytes :: "u64 \<Rightarrow> u8 list \<Rightarrow> heap_mem \<Rightarrow> heap_mem" where
  "poke_bytes p [] mem = mem"
| "poke_bytes p (b # bs) mem = poke_bytes (p + 1) bs (poke_u8 p b mem)"

section \<open>Growable arrays\<close>

record vec =
  vc_ptr :: u64
  vc_cap :: usize
  vc_len :: usize

definition layout_u8 :: layout where "layout_u8 = \<lparr>ly_size = 1, ly_align = 1\<rparr>"
definition layout_u64 :: layout where "layout_u64 = \<lparr>ly_size = 8, ly_align = 8\<rparr>"

definition vec_new :: "layout \<Rightarrow> vec" where
  "vec_new T = \<lparr>vc_ptr = ly_align T, vc_cap = 0, vc_len = 0\<rparr>"

text \<open>\<open>Layout::array\<close>; the caller's capacity overflow is a panic.\<close>

definition array_layout :: "layout \<Rightarrow> usize \<Rightarrow> layout run" where
  "array_layout T n = do {
     sz \<leftarrow> checked_mul (ly_size T) n;
     (if unat sz + unat (ly_align T) \<le> 2 ^ 63 then Some (T\<lparr>ly_size := sz\<rparr>) else None)
   }"

text \<open>\<open>GlobalAlloc::realloc\<close>, which \<open>KernelHeap\<close> leaves at its default.\<close>

definition global_realloc ::
    "u64 \<Rightarrow> layout \<Rightarrow> usize \<Rightarrow> 'a heap_state_scheme \<Rightarrow> (u64 \<times> 'a heap_state_scheme) run" where
  "global_realloc p l new_size s = do {
     (q, s) \<leftarrow> global_alloc (l\<lparr>ly_size := new_size\<rparr>) s;
     (if q = 0 then Some (0, s)
      else do {
        let s = s\<lparr>st_heap := copy_nonoverlapping (unat (min (ly_size l) new_size)) p q (st_heap s)\<rparr>;
        s \<leftarrow> global_dealloc p l s;
        Some (q, s)
      })
   }"

text \<open>A null pointer is \<open>handle_alloc_error\<close>, a panic.\<close>

definition alloc_or_panic :: "layout \<Rightarrow> 'a heap_state_scheme \<Rightarrow> (u64 \<times> 'a heap_state_scheme) run" where
  "alloc_or_panic l s = do {
     (p, s) \<leftarrow> global_alloc l s;
     (if p = 0 then None else Some (p, s))
   }"

definition min_non_zero_cap :: "layout \<Rightarrow> usize" where
  "min_non_zero_cap T = (if ly_size T = 1 then 8 else if ly_size T \<le> 1024 then 4 else 1)"

definition grow_amortized ::
    "layout \<Rightarrow> usize \<Rightarrow> vec \<Rightarrow> 'a heap_state_scheme \<Rightarrow> (vec \<times> 'a heap_state_scheme) run" where
  "grow_amortized T additional v s = do {
     required \<leftarrow> checked_add (vc_len v) additional;
     let cap = max (min_non_zero_cap T) (max (vc_cap v * 2) required);
     l \<leftarrow> array_layout T cap;
     (p, s) \<leftarrow> (if vc_cap v = 0 then global_alloc l s
       else do { old \<leftarrow> array_layout T (vc_cap v); global_realloc (vc_ptr v) old (ly_size l) s });
     (if p = 0 then None else Some (v\<lparr>vc_ptr := p, vc_cap := cap\<rparr>, s))
   }"

definition vec_with_capacity ::
    "layout \<Rightarrow> usize \<Rightarrow> 'a heap_state_scheme \<Rightarrow> (vec \<times> 'a heap_state_scheme) run" where
  "vec_with_capacity T n s =
     (if n = 0 then Some (vec_new T, s)
      else do {
        l \<leftarrow> array_layout T n;
        (p, s) \<leftarrow> alloc_or_panic l s;
        Some (\<lparr>vc_ptr = p, vc_cap = n, vc_len = 0\<rparr>, s)
      })"

definition vec_drop :: "layout \<Rightarrow> vec \<Rightarrow> 'a heap_state_scheme \<Rightarrow> 'a heap_state_scheme run" where
  "vec_drop T v s =
     (if vc_cap v = 0 then Some s else do { l \<leftarrow> array_layout T (vc_cap v); global_dealloc (vc_ptr v) l s })"

text \<open>\<open>Vec<u64>\<close>: \<open>push\<close> and indexing.\<close>

definition vec_push :: "u64 \<Rightarrow> vec \<Rightarrow> 'a heap_state_scheme \<Rightarrow> (vec \<times> 'a heap_state_scheme) run" where
  "vec_push x v s = do {
     (v, s) \<leftarrow> (if vc_len v = vc_cap v then grow_amortized layout_u64 1 v s else Some (v, s));
     Some (v\<lparr>vc_len := vc_len v + 1\<rparr>,
       s\<lparr>st_heap := poke_u64 (vc_ptr v + 8 * vc_len v) x (st_heap s)\<rparr>)
   }"

definition vec_index :: "vec \<Rightarrow> usize \<Rightarrow> 'a heap_state_scheme \<Rightarrow> u64 run" where
  "vec_index v i s =
     (if i < vc_len v then Some (peek_u64 (vc_ptr v + 8 * i) (st_heap s)) else None)"

primrec vec_push_all :: "u64 list \<Rightarrow> vec \<Rightarrow> 'a heap_state_scheme \<Rightarrow> (vec \<times> 'a heap_state_scheme) run" where
  "vec_push_all [] v s = Some (v, s)"
| "vec_push_all (x # xs) v s = do { (v, s) \<leftarrow> vec_push x v s; vec_push_all xs v s }"

text \<open>\<open>String::push_str\<close> on the string's \<open>Vec<u8>\<close>.\<close>

definition push_str :: "u8 list \<Rightarrow> vec \<Rightarrow> 'a heap_state_scheme \<Rightarrow> (vec \<times> 'a heap_state_scheme) run" where
  "push_str bs v s = do {
     let n = of_nat (length bs);
     (v, s) \<leftarrow> (if vc_cap v - vc_len v < n then grow_amortized layout_u8 n v s else Some (v, s));
     Some (v\<lparr>vc_len := vc_len v + n\<rparr>,
       s\<lparr>st_heap := poke_bytes (vc_ptr v + vc_len v) bs (st_heap s)\<rparr>)
   }"

primrec push_str_times ::
    "nat \<Rightarrow> u8 list \<Rightarrow> vec \<Rightarrow> 'a heap_state_scheme \<Rightarrow> (vec \<times> 'a heap_state_scheme) run" where
  "push_str_times 0 bs v s = Some (v, s)"
| "push_str_times (Suc k) bs v s = do { (v, s) \<leftarrow> push_str bs v s; push_str_times k bs v s }"

section \<open>The four scopes\<close>

text \<open>Each drops what it owns before its result is returned, also on an early return.\<close>

definition box_scope :: "'a heap_state_scheme \<Rightarrow> ((string + unit) \<times> 'a heap_state_scheme) run" where
  "box_scope s = do {
     (boxed, s) \<leftarrow> alloc_or_panic layout_u64 s;
     let s = s\<lparr>st_heap := poke_u64 boxed 0xdeadbeef (st_heap s)\<rparr>;
     let r = (if peek_u64 boxed (st_heap s) \<noteq> 0xdeadbeef then Inl ''Box did not round-trip its value'' else Inr ());
     s \<leftarrow> global_dealloc boxed layout_u64 s;
     Some (r, s)
   }"

definition vec_scope :: "'a heap_state_scheme \<Rightarrow> ((string + unit) \<times> 'a heap_state_scheme) run" where
  "vec_scope s = do {
     (values, s) \<leftarrow> vec_push_all (map of_nat [0..<1024]) (vec_new layout_u64) s;
     r \<leftarrow> (if vc_len values \<noteq> 1024 then Some (Inl ''Vec length is wrong after growth'')
       else do {
         first \<leftarrow> vec_index values 0 s;
         wrong \<leftarrow> (if first \<noteq> 0 then Some True
           else do { last \<leftarrow> vec_index values 1023 s; Some (last \<noteq> 1023) });
         Some (if wrong then Inl ''Vec contents are wrong after reallocation'' else Inr ())
       });
     s \<leftarrow> vec_drop layout_u64 values s;
     Some (r, s)
   }"

definition rust_bytes :: "u8 list" where
  "rust_bytes = map (\<lambda>c. of_nat (of_char c)) ''rust''"

definition string_scope :: "'a heap_state_scheme \<Rightarrow> ((string + unit) \<times> 'a heap_state_scheme) run" where
  "string_scope s = do {
     (text, s) \<leftarrow> push_str_times 100 rust_bytes (vec_new layout_u8) s;
     let r = (if vc_len text \<noteq> 400 then Inl ''String length is wrong after growth'' else Inr ());
     s \<leftarrow> vec_drop layout_u8 text s;
     Some (r, s)
   }"

definition merge_scope :: "'a heap_state_scheme \<Rightarrow> 'a heap_state_scheme run" where
  "merge_scope s = do {
     (first, s) \<leftarrow> vec_with_capacity layout_u8 64 s;
     (middle, s) \<leftarrow> vec_with_capacity layout_u8 64 s;
     (last, s) \<leftarrow> vec_with_capacity layout_u8 64 s;
     s \<leftarrow> vec_drop layout_u8 first s;
     s \<leftarrow> vec_drop layout_u8 last s;
     vec_drop layout_u8 middle s
   }"

section \<open>The self-test\<close>

definition heap_work :: "'a heap_state_scheme \<Rightarrow> ((string + unit) \<times> 'a heap_state_scheme) run" where
  "heap_work s = do {
     (r, s) \<leftarrow> box_scope s;
     (case r of Inl e \<Rightarrow> Some (Inl e, s)
      | Inr _ \<Rightarrow> do {
          (r, s) \<leftarrow> vec_scope s;
          (case r of Inl e \<Rightarrow> Some (Inl e, s)
           | Inr _ \<Rightarrow> do {
               (r, s) \<leftarrow> string_scope s;
               (case r of Inl e \<Rightarrow> Some (Inl e, s)
                | Inr _ \<Rightarrow> do { s \<leftarrow> merge_scope s; Some (Inr (), s) })
             })
        })
   }"

definition heap_selftest :: "'a heap_state_scheme \<Rightarrow> ((string + unit) \<times> 'a heap_state_scheme) run" where
  "heap_selftest s0 = do {
     (before, s1) \<leftarrow> free_bytes s0;
     (r, s2) \<leftarrow> heap_work s1;
     (case r of
        Inl e \<Rightarrow> Some (Inl e, s2)
      | Inr _ \<Rightarrow> do {
          (after, s3) \<leftarrow> free_bytes s2;
          (if after \<noteq> before then
             Some (Inl ''heap did not return to its starting free-byte count'', s3)
           else do {
             (blocks, s4) \<leftarrow> free_blocks s3;
             (if blocks \<noteq> 1 then
                Some (Inl ''free list did not coalesce back to a single block'', s4)
              else Some (Inr (), s4))
           })
        })
   }"

end
