(* ===== verification/Kernel_Main.thy ===== *)
theory Kernel_Main
  imports Irq Pit Heap_Work
begin

unbundle bit_operations_syntax

text \<open>
  The kernel's entry point and main path (kernel/src/main.rs): \<open>_start\<close> and \<open>kernel_main\<close> up to the
  moment interrupts are enabled, and then the wait for a hundred ticks and a key as a state
  machine whose steps interleave with interrupts.
\<close>

section \<open>Painting the screen\<close>

text \<open>One pixel: \<open>ptr::copy_nonoverlapping\<close> of its bytes.\<close>

fun copy_bytes :: "u64 \<Rightarrow> u8 list \<Rightarrow> pixels \<Rightarrow> pixels" where
  "copy_bytes q [] m = m"
| "copy_bytes q (b # bs) m = copy_bytes (q + 1) bs (m(q := b))"

definition fill_pixel ::
    "frame_buffer_info \<Rightarrow> u8 list \<Rightarrow> nat \<Rightarrow> nat \<Rightarrow> nat \<Rightarrow> nat \<times> pixels \<Rightarrow> (nat \<times> pixels) run" where
  "fill_pixel fb pixel bpp y x = (\<lambda>(skipped, m). do {
     row \<leftarrow> usize_val (y * unat (fb_stride fb));
     index \<leftarrow> usize_val (row + x);
     offset \<leftarrow> usize_val (index * bpp);
     stop \<leftarrow> usize_val (offset + bpp);
     (if unat (fb_size fb) < stop then do {
        n \<leftarrow> usize_val (skipped + 1);
        Some (n, m)
      } else Some (skipped, copy_bytes (fb_addr fb + of_nat offset) (take bpp pixel) m))
   })"

fun fill_line ::
    "frame_buffer_info \<Rightarrow> u8 list \<Rightarrow> nat \<Rightarrow> nat \<Rightarrow> nat list \<Rightarrow> nat \<times> pixels \<Rightarrow> (nat \<times> pixels) run" where
  "fill_line fb pixel bpp y [] st = Some st"
| "fill_line fb pixel bpp y (x # xs) st = do {
     st' \<leftarrow> fill_pixel fb pixel bpp y x st;
     fill_line fb pixel bpp y xs st'
   }"

fun fill_lines ::
    "frame_buffer_info \<Rightarrow> u8 list \<Rightarrow> nat \<Rightarrow> nat list \<Rightarrow> nat \<times> pixels \<Rightarrow> (nat \<times> pixels) run" where
  "fill_lines fb pixel bpp [] st = Some st"
| "fill_lines fb pixel bpp (y # ys) st = do {
     st' \<leftarrow> fill_line fb pixel bpp y [0..<unat (fb_width fb)] st;
     fill_lines fb pixel bpp ys st'
   }"

definition fill_screen ::
    "boot_info \<Rightarrow> u8 \<Rightarrow> u8 \<Rightarrow> u8 \<Rightarrow> pixels \<Rightarrow> ((nat \<times> bool) \<times> pixels) run" where
  "fill_screen info red green blue m = do {
     let fb = bi_framebuffer info;
     let fell_back = (fb_pixel_format fb = None);
     let pixel_format = (case fb_pixel_format fb of Some f \<Rightarrow> f | None \<Rightarrow> Bgr);
     let pixel = (case pixel_format of Rgb \<Rightarrow> [red, green, blue, 0] | Bgr \<Rightarrow> [blue, green, red, 0]);
     let bpp = min (unat (fb_bytes_per_pixel fb)) (length pixel);
     (skipped, m') \<leftarrow> fill_lines fb pixel bpp [0..<unat (fb_height fb)] (0, m);
     Some ((skipped, fell_back), m')
   }"

section \<open>Bringing the machine up\<close>

definition TIMER_HZ :: u32 where "TIMER_HZ = 100"

text \<open>\<open>init\<close>: each part runs, then says so.\<close>

definition kernel_init ::
    "'d ports \<Rightarrow> handlers \<Rightarrow> statics \<Rightarrow> ('d, 'a) kernel_scheme \<Rightarrow> ('d, 'a) kernel_scheme run" where
  "kernel_init p h a s = do {
     t \<leftarrow> gdt_init a (ks_tables s);
     s \<leftarrow> kprintln p (ascii ''GDT + TSS loaded (code selector '' @ show_hex (ucast KERNEL_CODE_SELECTOR)
       @ ascii '')'') (s\<lparr>ks_tables := t\<rparr>);
     (idt, t) \<leftarrow> idt_init h a (ks_IDT s, ks_tables s);
     s \<leftarrow> kprintln p (ascii ''IDT loaded'') (s\<lparr>ks_IDT := idt, ks_tables := t\<rparr>);
     last \<leftarrow> checked_add PIC2_OFFSET 7;
     s \<leftarrow> kprintln p (ascii ''PICs remapped to vectors '' @ show_dec (ucast PIC1_OFFSET) @ ascii ''-''
       @ show_dec (ucast last)) (s\<lparr>ki_dev := pic_init p (ki_dev s)\<rparr>);
     d \<leftarrow> pit_init p TIMER_HZ (ki_dev s);
     s \<leftarrow> kprintln p (ascii ''PIT programmed at '' @ show_dec (ucast TIMER_HZ) @ ascii '' Hz'') (s\<lparr>ki_dev := d\<rparr>);
     s \<leftarrow> ps2_init p s;
     kprintln p (ascii ''8042 PS/2 controller initialised'') s
   }"

text \<open>\<open>selftest\<close>: \<open>int3\<close> goes through the table; \<open>frame\<close> is what the processor pushes for it.\<close>

definition kernel_selftest ::
    "'d ports \<Rightarrow> handlers \<Rightarrow> stack_frame \<Rightarrow> ('d, 'a) kernel_scheme \<Rightarrow> ('d, 'a) kernel_scheme run" where
  "kernel_selftest p h frame s = do {
     s \<leftarrow> dispatch p h frame 3 s;
     kprintln p (ascii ''selftest: breakpoint handled and execution resumed'') s
   }"

text \<open>
  The end of a run: \<open>Inl\<close> is a value written to the exit device, \<open>Inr ()\<close> is control reaching the
  next statement.
\<close>

type_synonym 's outcome = "(exit_code + unit) \<times> 's"

definition fatal :: "'d ports \<Rightarrow> u8 list \<Rightarrow> ('d, 'a) kernel_scheme \<Rightarrow> ('d, 'a) kernel_scheme outcome run" where
  "fatal p msg s = do {
     s \<leftarrow> kprintln p (ascii ''FATAL: '' @ msg) s;
     Some (Inl Failed, exit_kernel p Failed s)
   }"

text \<open>The panic handler; \<open>info\<close> is the panic's message and location, formatted.\<close>

definition kernel_panic :: "'d ports \<Rightarrow> u8 list \<Rightarrow> ('d, 'a) kernel_scheme \<Rightarrow> ('d, 'a) kernel_scheme outcome run" where
  "kernel_panic p info s = do {
     s \<leftarrow> kprintln p (ascii ''KERNEL PANIC: '' @ info) s;
     Some (Inl Failed, exit_kernel p Failed s)
   }"

text \<open>What the machine outside the kernel's code contributes to a run.\<close>

record environment =
  en_handlers :: handlers
  en_statics :: statics
  en_frame :: stack_frame
  en_regions :: "memory_region list"

definition paint ::
    "'d ports \<Rightarrow> boot_info \<Rightarrow> ('d, 'a) kernel_scheme \<Rightarrow> ('d, 'a) kernel_scheme run" where
  "paint p info s = do {
     ((skipped, fell_back), m) \<leftarrow> fill_screen info 0x00 0x33 0x99 (sc_pixels (ki_screen s));
     let s = s\<lparr>ki_screen := console_init (bi_framebuffer info) ((ki_screen s)\<lparr>sc_pixels := m\<rparr>)\<rparr>;
     s \<leftarrow> kprintln p (ascii ''framebuffer painted'') s;
     s \<leftarrow> (if fell_back then kprintln p (ascii ''  note: pixel format was not recognised; assumed BGR'') s
       else Some s);
     (if 0 < skipped then
        kprintln p (ascii ''  note: '' @ show_dec (of_nat skipped) @ ascii '' pixels skipped as out of bounds'') s
      else Some s)
   }"

text \<open>The memory bring-up of \<open>kernel_main\<close>, from the heap on and as a whole.\<close>

definition heap_up ::
    "'d ports \<Rightarrow> environment \<Rightarrow> u64 \<Rightarrow> ('d, 'a) kernel_scheme \<Rightarrow>
     ('d, 'a) kernel_scheme outcome run" where
  "heap_up p env total_frames s = do {
     (r, s) \<leftarrow> heap_init s;
     (case r of
        None \<Rightarrow> fatal p (ascii ''could not obtain '' @ show_dec HEAP_FRAMES
          @ ascii '' contiguous frames for the heap'') s
      | Some (heap_start, heap_size) \<Rightarrow> do {
          (in_use, s) \<leftarrow> frames_in_use s;
          s \<leftarrow> kprintln p (ascii ''heap: '' @ show_dec (heap_size div 1024) @ ascii '' KiB @ ''
            @ show_hex heap_start @ ascii '' ('' @ show_dec in_use @ ascii '' of ''
            @ show_dec total_frames @ ascii '' frames in use)'') s;
          (r, s) \<leftarrow> heap_selftest s;
          (case r of
             Inl reason \<Rightarrow> fatal p (ascii ''heap selftest: '' @ ascii reason) s
           | Inr _ \<Rightarrow> do {
               s \<leftarrow> kprintln p (ascii ''alloc: Box/Vec/String OK, heap balanced'') s;
               Some (Inr (), s)
             })
        })
   }"

definition memory_up ::
    "'d ports \<Rightarrow> environment \<Rightarrow> ('d, 'a) kernel_scheme \<Rightarrow>
     ('d, 'a) kernel_scheme outcome run" where
  "memory_up p env s = do {
     (total_frames, s) \<leftarrow> frame_init (en_regions env) s;
     (if total_frames = 0 then fatal p (ascii ''no usable memory regions in the UEFI memory map'') s
      else do {
        bytes \<leftarrow> checked_mul total_frames PAGE_SIZE;
        s \<leftarrow> kprintln p (ascii ''frame allocator: '' @ show_dec total_frames @ ascii '' usable frames (''
          @ show_dec (bytes div (1024 * 1024)) @ ascii '' MiB)'') s;
        (r, s) \<leftarrow> frame_selftest s;
        (case r of
           Inl reason \<Rightarrow> fatal p (ascii ''frame allocator selftest: '' @ ascii reason) s
         | Inr _ \<Rightarrow> do {
             s \<leftarrow> kprintln p (ascii ''frame allocator: selftest passed'') s;
             heap_up p env total_frames s
           })
      })
   }"

text \<open>\<open>kernel_main\<close> up to \<open>interrupts::enable\<close>.\<close>

definition kernel_main ::
    "'d ports \<Rightarrow> environment \<Rightarrow> boot_info \<Rightarrow> ('d, 'a) kernel_scheme \<Rightarrow>
     ('d, 'a) kernel_scheme outcome run" where
  "kernel_main p env info s = do {
     let fb = bi_framebuffer info;
     s \<leftarrow> kprintln p (ascii ''framebuffer: '' @ show_dec (ucast (fb_width fb)) @ ascii ''x''
       @ show_dec (ucast (fb_height fb)) @ ascii '' stride='' @ show_dec (ucast (fb_stride fb))
       @ ascii '' @ '' @ show_hex (fb_addr fb)) s;
     s \<leftarrow> kprintln p (ascii ''kernel image: base='' @ show_hex (bi_kernel_base info)
       @ ascii '' size='' @ show_hex (bi_kernel_size info)) s;
     s \<leftarrow> kernel_init p (en_handlers env) (en_statics env) s;
     s \<leftarrow> kernel_selftest p (en_handlers env) (en_frame env) s;
     s \<leftarrow> paint p info s;
     (r, s) \<leftarrow> memory_up p env s;
     (case r of
        Inl code \<Rightarrow> Some (Inl code, s)
      | Inr _ \<Rightarrow> do {
          s \<leftarrow> kprintln p (ascii ''enabling interrupts'') s;
          Some (Inr (), interrupts_enable s)
        })
   }"

text \<open>\<open>_start\<close>; \<open>None\<close> for the pointer is null.\<close>

definition kernel_start ::
    "'d ports \<Rightarrow> environment \<Rightarrow> boot_info option \<Rightarrow> ('d, 'a) kernel_scheme \<Rightarrow>
     ('d, 'a) kernel_scheme outcome run" where
  "kernel_start p env boot_info s = do {
     let s = s\<lparr>ki_dev := serial_init p (ki_dev s)\<rparr>;
     s \<leftarrow> print_lines p [[], ascii ''=== Rust_BL kernel ===''] s;
     (case boot_info of
        None \<Rightarrow> fatal p (ascii ''boot_info pointer is null'') s
      | Some info \<Rightarrow>
          if \<not> boot_info_is_valid info
          then fatal p (ascii ''boot_info failed validation (magic/version/format)'') s
          else kernel_main p env info s)
   }"

section \<open>Waiting for the hardware\<close>

text \<open>
  With interrupts enabled an interrupt can arrive between any two critical sections, so the rest of
  \<open>kernel_main\<close> is a state machine: a control point per call, in program order. \<open>hlt\<close> changes
  nothing and leads back to the loop condition.
\<close>

datatype wait_pc =
    Loop_Ticks
  | Say_Timer
  | Say_Waiting
  | Set_Deadline
  | Loop_Key u64
  | Check_Deadline u64
  | Say_No_Input
  | Read_Count
  | Say_Keyboard u64
  | Exiting exit_code
  | Done exit_code

definition TICKS_REQUIRED :: u64 where "TICKS_REQUIRED = 100"

fun wait_step ::
    "'d ports \<Rightarrow> wait_pc \<times> ('d, 'a) kernel_scheme \<Rightarrow> (wait_pc \<times> ('d, 'a) kernel_scheme) run" where
  "wait_step p (Loop_Ticks, s) = do {
     (t, s) \<leftarrow> ticks s;
     Some (if t < TICKS_REQUIRED then Loop_Ticks else Say_Timer, s)
   }"
| "wait_step p (Say_Timer, s) = do {
     s \<leftarrow> kprintln p (ascii ''timer: '' @ show_dec TICKS_REQUIRED @ ascii '' ticks received - IRQ0 works'') s;
     Some (Say_Waiting, s)
   }"
| "wait_step p (Say_Waiting, s) = do {
     s \<leftarrow> kprintln p (ascii ''waiting for a keypress...'') s;
     Some (Set_Deadline, s)
   }"
| "wait_step p (Set_Deadline, s) = do {
     (t, s) \<leftarrow> ticks s;
     span \<leftarrow> checked_mul (ucast TIMER_HZ) 10;
     deadline \<leftarrow> checked_add t span;
     Some (Loop_Key deadline, s)
   }"
| "wait_step p (Loop_Key deadline, s) = do {
     (k, s) \<leftarrow> key_events_seen s;
     Some (if k = 0 then Check_Deadline deadline else Read_Count, s)
   }"
| "wait_step p (Check_Deadline deadline, s) = do {
     (t, s) \<leftarrow> ticks s;
     Some (if deadline < t then Say_No_Input else Loop_Key deadline, s)
   }"
| "wait_step p (Say_No_Input, s) = do {
     s \<leftarrow> kprintln p (ascii ''keyboard: no input within 10s - IRQ1 is not delivering'') s;
     Some (Exiting Failed, s)
   }"
| "wait_step p (Read_Count, s) = do {
     (k, s) \<leftarrow> key_events_seen s;
     Some (Say_Keyboard k, s)
   }"
| "wait_step p (Say_Keyboard k, s) = do {
     s \<leftarrow> kprintln p (ascii ''keyboard: '' @ show_dec k @ ascii '' key event(s) received - IRQ1 works'') s;
     Some (Exiting Success, s)
   }"
| "wait_step p (Exiting code, s) = Some (Done code, exit_kernel p code s)"
| "wait_step p (Done code, s) = Some (Done code, s)"

text \<open>
  The machine: it advances the program, or delivers an interrupt on one of the two unmasked lines,
  between any two steps, while interrupts are enabled.
\<close>

inductive kernel_step ::
    "'d ports \<Rightarrow> handlers \<Rightarrow> wait_pc \<times> ('d, 'a) kernel_scheme \<Rightarrow> wait_pc \<times> ('d, 'a) kernel_scheme \<Rightarrow> bool"
  for p h where
  program: "wait_step p (pc, s) = Some st \<Longrightarrow> kernel_step p h (pc, s) st"
| interrupt: "if_set s \<Longrightarrow> v = TIMER_VECTOR \<or> v = KEYBOARD_VECTOR \<Longrightarrow> dispatch p h frame v s = Some s' \<Longrightarrow>
    kernel_step p h (pc, s) (pc, s')"

inductive_cases kernel_stepE: "kernel_step p h (pc, s) st"

inductive reach ::
    "'d ports \<Rightarrow> handlers \<Rightarrow> wait_pc \<times> ('d, 'a) kernel_scheme \<Rightarrow> wait_pc \<times> ('d, 'a) kernel_scheme \<Rightarrow> bool"
  for p h st0 where
  start: "reach p h st0 st0"
| step: "reach p h st0 st \<Longrightarrow> kernel_step p h st st' \<Longrightarrow> reach p h st0 st'"

end

