(* ===== verification/Heap_Refine.thy ===== *)
theory Heap_Refine
  imports Kernel_Heap
begin

text \<open>
  The free list of \<open>Kernel_Heap\<close> as a list of spans (start, length), the two operations on such
  lists, and the proof that the pointer code implements them.

  \<open>chain lo hi bs\<close> is the invariant: spans in address order, on the 16-byte grid, never empty,
  strictly apart (two touching free blocks cannot exist: they were merged), inside the heap.
\<close>

section \<open>Lists of free spans\<close>

type_synonym span = "nat \<times> nat"

fun chain :: "nat \<Rightarrow> nat \<Rightarrow> span list \<Rightarrow> bool" where
  "chain lo hi [] \<longleftrightarrow> True"
| "chain lo hi ((s, n) # bs) \<longleftrightarrow>
     lo < s \<and> 16 dvd s \<and> 16 dvd n \<and> 0 < n \<and> s + n \<le> hi \<and> chain (s + n) hi bs"

definition span_bytes :: "span list \<Rightarrow> nat set" where
  "span_bytes bs = (\<Union>(s, n) \<in> set bs. {s..<s + n})"

lemma span_bytes_Nil [simp]: "span_bytes [] = {}"
  by (simp add: span_bytes_def)

lemma span_bytes_Cons [simp]: "span_bytes ((s, n) # bs) = {s..<s + n} \<union> span_bytes bs"
  by (simp add: span_bytes_def)

lemma span_bytes_append [simp]: "span_bytes (as @ bs) = span_bytes as \<union> span_bytes bs"
  by (simp add: span_bytes_def)

lemma finite_span_bytes [simp, intro]: "finite (span_bytes bs)"
  by (auto simp: span_bytes_def)

fun last_end :: "nat \<Rightarrow> span list \<Rightarrow> nat" where
  "last_end lo [] = lo"
| "last_end lo ((s, n) # bs) = last_end (s + n) bs"

lemma chain_append: "chain lo hi (as @ bs) \<longleftrightarrow> chain lo hi as \<and> chain (last_end lo as) hi bs"
  by (induction as arbitrary: lo) auto

lemma last_end_append [simp]: "last_end lo (as @ bs) = last_end (last_end lo as) bs"
  by (induction as arbitrary: lo) auto

lemma chain_weaken: "chain lo hi bs \<Longrightarrow> lo' \<le> lo \<Longrightarrow> chain lo' hi bs"
  by (cases bs) auto

lemma chain_bytes: "chain lo hi bs \<Longrightarrow> b \<in> span_bytes bs \<Longrightarrow> lo < b \<and> b < hi"
  by (induction bs arbitrary: lo) force+

lemma chain_starts: "chain lo hi bs \<Longrightarrow> (s, n) \<in> set bs \<Longrightarrow>
    lo < s \<and> 16 dvd s \<and> 16 dvd n \<and> 0 < n \<and> s + n \<le> hi"
  by (induction bs arbitrary: lo) force+

lemma last_end_ge: "chain lo hi bs \<Longrightarrow> lo \<le> last_end lo bs"
  by (induction bs arbitrary: lo) force+

lemma chain_before: "chain lo hi as \<Longrightarrow> b \<in> span_bytes as \<Longrightarrow> b < last_end lo as"
proof (induction as arbitrary: lo)
  case (Cons a as)
  obtain s n where a: "a = (s, n)" by (cases a)
  then show ?case using Cons last_end_ge [of "s + n" hi as] by auto
qed simp

lemma chain_distinct: "chain lo hi bs \<Longrightarrow> distinct (map fst bs)"
proof (induction bs arbitrary: lo)
  case (Cons b bs)
  obtain s n where b: "b = (s, n)" by (cases b)
  then have "s \<notin> fst ` set bs" using Cons.prems chain_starts [of "s + n" hi bs] by fastforce
  then show ?case using Cons b by auto
qed simp

lemma chain_sum: "chain lo hi bs \<Longrightarrow> card (span_bytes bs) = sum_list (map snd bs)"
proof (induction bs arbitrary: lo)
  case (Cons b bs)
  obtain s n where b: "b = (s, n)" by (cases b)
  then have "{s..<s + n} \<inter> span_bytes bs = {}" using Cons.prems chain_bytes [of "s + n" hi bs] by fastforce
  then show ?case using Cons b by (auto simp: card_Un_disjoint)
qed simp

lemma chain_length: "chain lo hi bs \<Longrightarrow> 16 * length bs \<le> sum_list (map snd bs)"
proof (induction bs arbitrary: lo)
  case (Cons b bs)
  obtain s n where b: "b = (s, n)" by (cases b)
  then have "16 \<le> n" using Cons.prems by (auto dest: dvd_imp_le)
  then show ?case using Cons b by fastforce
qed simp

text \<open>A chain is determined by the bytes it covers.\<close>

lemma chain_head_least:
  "chain lo hi ((s, n) # bs) \<Longrightarrow> s \<in> span_bytes ((s, n) # bs) \<and> (\<forall>b \<in> span_bytes ((s, n) # bs). s \<le> b)"
  using chain_bytes [of "s + n" hi bs] by fastforce

lemma chain_gap: "chain lo hi ((s, n) # bs) \<Longrightarrow> s + n \<notin> span_bytes ((s, n) # bs)"
  using chain_bytes [of "s + n" hi bs "s + n"] by auto

lemma chain_unique:
  "chain lo hi bs \<Longrightarrow> chain lo' hi' cs \<Longrightarrow> span_bytes bs = span_bytes cs \<Longrightarrow> bs = cs"
proof (induction bs arbitrary: cs lo lo')
  case Nil
  then show ?case by (cases cs) auto
next
  case (Cons b bs)
  obtain s n where b: "b = (s, n)" by (cases b)
  have "s \<in> span_bytes cs" using chain_head_least Cons.prems(1,3) b by auto
  then obtain t m cs' where cs: "cs = (t, m) # cs'" by (cases cs) auto
  have n: "0 < n" "0 < m" using Cons.prems b cs by auto
  note hb = chain_head_least [OF Cons.prems(1) [unfolded b]]
  note hc = chain_head_least [OF Cons.prems(2) [unfolded cs]]
  have st: "s = t"
  proof (rule antisym)
    show "s \<le> t" using hb hc Cons.prems(3) b cs by metis
    show "t \<le> s" using hb hc Cons.prems(3) b cs by metis
  qed
  have "n = m"
  proof (rule linorder_cases [of n m])
    assume "n < m"
    then have "s + n \<in> span_bytes cs" using st cs by auto
    then show ?thesis using chain_gap [OF Cons.prems(1) [unfolded b]] Cons.prems(3) b by metis
  next
    assume "m < n"
    then have "t + m \<in> span_bytes (b # bs)" using st b by auto
    then show ?thesis using chain_gap [OF Cons.prems(2) [unfolded cs]] Cons.prems(3) cs by metis
  qed
  have rest: "span_bytes ds = span_bytes ((s, n) # ds) - {s..<s + n}" if "chain (s + n) h ds" for h ds
    using chain_bytes [OF that] by fastforce
  have "bs = cs'"
  proof (rule Cons.IH)
    show "chain (s + n) hi bs" using Cons.prems(1) b by simp
    show "chain (s + n) hi' cs'" using Cons.prems(2) cs st \<open>n = m\<close> by simp
    show "span_bytes bs = span_bytes cs'"
      using rest [of hi bs] rest [of hi' cs'] Cons.prems b cs st \<open>n = m\<close> by simp
  qed
  then show ?case using b cs st \<open>n = m\<close> by simp
qed

section \<open>The operations on span lists\<close>

definition keep :: "nat \<Rightarrow> nat \<Rightarrow> span list" where
  "keep s n = (if n = 0 then [] else [(s, n)])"

fun span_alloc :: "nat \<Rightarrow> nat \<Rightarrow> span list \<Rightarrow> (nat \<times> span list) option" where
  "span_alloc len align [] = None"
| "span_alloc len align ((s, n) # bs) =
     (let p = round_up s align; front = p - s in
      if front + len \<le> n then
        Some (p, keep s front @ keep (p + len) (n - front - len) @ bs)
      else map_option (\<lambda>(p, bs'). (p, (s, n) # bs')) (span_alloc len align bs))"

fun join :: "nat \<Rightarrow> nat \<Rightarrow> span list \<Rightarrow> span list" where
  "join s n [] = [(s, n)]"
| "join s n ((t, m) # bs) = (if s + n = t then (s, n + m) # bs else (s, n) # (t, m) # bs)"

fun span_free :: "nat \<Rightarrow> nat \<Rightarrow> span list \<Rightarrow> span list" where
  "span_free p len [] = [(p, len)]"
| "span_free p len ((s, n) # bs) =
     (if s < p then
        (if s + n = p then join s (n + len) bs else (s, n) # span_free p len bs)
      else join p len ((s, n) # bs))"

lemma keep_bytes [simp]: "span_bytes (keep s n) = {s..<s + n}"
  by (auto simp: keep_def)

lemma span_alloc_spec:
  assumes "chain lo hi bs" and "16 dvd len" and "0 < len" and "16 dvd align" and "0 < align"
    and "span_alloc len align bs = Some (p, bs')"
  shows "chain lo hi bs' \<and> align dvd p \<and> 16 dvd p \<and> lo < p \<and> {p..<p + len} \<subseteq> span_bytes bs \<and>
    span_bytes bs' = span_bytes bs - {p..<p + len}"
  using assms
proof (induction bs arbitrary: lo p bs')
  case (Cons b bs)
  obtain s n where b: "b = (s, n)" by (cases b)
  have ch: "lo < s" "16 dvd s" "16 dvd n" "0 < n" "s + n \<le> hi" "chain (s + n) hi bs"
    using Cons.prems(1) b by auto
  have after: "\<And>x. x \<in> span_bytes bs \<Longrightarrow> s + n < x" using chain_bytes [OF ch(6)] by blast
  let ?p = "round_up s align"
  have p: "s \<le> ?p" "align dvd ?p" using Cons.prems(5) by (auto simp: round_up_dvd)
  then have p16: "16 dvd ?p" using Cons.prems(4) dvd_trans by blast
  show ?case
  proof (cases "?p - s + len \<le> n")
    case True
    obtain f where f: "?p = s + f" using p(1) le_Suc_ex by blast
    obtain t where t: "n = f + len + t" using True f le_Suc_ex by (metis add_diff_cancel_left')
    have "p = s + f \<and> bs' = keep s f @ keep (s + f + len) t @ bs"
      using Cons.prems(6) True unfolding b by (auto simp: Let_def f t)
    then have r: "p = s + f" "bs' = keep s f @ keep (s + f + len) t @ bs" by blast+
    have d: "16 dvd f" using p16 ch(2) f by (simp add: dvd_add_right_iff)
    then have "16 dvd t" using ch(3) t Cons.prems(2) by (metis dvd_add dvd_add_right_iff)
    then have "chain lo hi bs'"
      using r(2) ch t d Cons.prems(2,3) chain_weaken [OF ch(6)] by (auto simp: keep_def add.assoc)
    moreover have "span_bytes bs' = span_bytes (b # bs) - {s + f..<s + f + len}"
    proof -
      have "span_bytes bs - {s + f..<s + f + len} = span_bytes bs" using after t by fastforce
      moreover have "{s..<s + n} - {s + f..<s + f + len} =
          {s..<s + f} \<union> {s + f + len..<s + f + len + t}" using t by auto
      ultimately show ?thesis using r(2) b by (simp add: Un_Diff Un_assoc)
    qed
    moreover have "{s + f..<s + f + len} \<subseteq> {s..<s + n}" using t by auto
    moreover have "align dvd s + f" "16 dvd s + f" "lo < s + f" using p(2) p16 ch(1) f by simp_all
    moreover have "{s..<s + n} \<subseteq> span_bytes (b # bs)" using b by simp
    ultimately show ?thesis unfolding r(1) by (meson order_trans)
  next
    case False
    then obtain bs1 where r: "span_alloc len align bs = Some (p, bs1)" "bs' = (s, n) # bs1"
      using Cons.prems(6) b by (auto simp: Let_def)
    from Cons.IH [OF ch(6) Cons.prems(2-5) r(1)]
    have ih: "chain (s + n) hi bs1" "align dvd p" "16 dvd p" "s + n < p"
      "{p..<p + len} \<subseteq> span_bytes bs" "span_bytes bs1 = span_bytes bs - {p..<p + len}" by auto
    then have "{s..<s + n} \<inter> {p..<p + len} = {}" by auto
    then show ?thesis using r(2) ih ch b by auto
  qed
qed simp

lemma span_alloc_None:
  "span_alloc len align bs = None \<longleftrightarrow>
     (\<forall>(s, n) \<in> set bs. n < round_up s align - s + len)"
proof (induction bs)
  case (Cons b bs)
  then show ?case by (cases b) (auto simp: Let_def not_less simp del: diff_diff_left)
qed simp

lemma join_spec:
  assumes "chain (p + n) hi bs \<or> (\<exists>m cs lo'. bs = (p + n, m) # cs \<and> chain lo' hi bs)"
    and "lo < p" and "16 dvd p" and "16 dvd n" and "0 < n" and "p + n \<le> hi"
  shows "chain lo hi (join p n bs) \<and> span_bytes (join p n bs) = {p..<p + n} \<union> span_bytes bs"
  using assms by (cases bs) (auto simp: dvd_add add.assoc)

lemma chain_raise:
  "chain lo hi ((t, m) # bs) \<Longrightarrow> lo' < t \<Longrightarrow> chain lo' hi ((t, m) # bs)"
  by simp

lemma ivl_apart:
  assumes "{a..<a + m} \<inter> {b..<b + n} = {}" and "0 < m" and "0 < (n :: nat)"
  shows "a + m \<le> b \<or> b + n \<le> a"
proof (rule ccontr)
  assume "\<not> ?thesis"
  then have "max a b \<in> {a..<a + m} \<inter> {b..<b + n}" using assms(2,3) by auto
  then show False using assms(1) by blast
qed

lemma span_free_spec:
  assumes "chain lo hi bs" and "lo < p" and "16 dvd p" and "16 dvd n" and "0 < n" and "p + n \<le> hi"
    and "{p..<p + n} \<inter> span_bytes bs = {}"
  shows "chain lo hi (span_free p n bs) \<and>
    span_bytes (span_free p n bs) = span_bytes bs \<union> {p..<p + n}"
  using assms
proof (induction bs arbitrary: lo)
  case (Cons b bs)
  obtain s m where b: "b = (s, m)" by (cases b)
  have ch: "lo < s" "16 dvd s" "16 dvd m" "0 < m" "s + m \<le> hi" "chain (s + m) hi bs"
    using Cons.prems(1) b by auto
  have apart: "{p..<p + n} \<inter> {s..<s + m} = {}" "{p..<p + n} \<inter> span_bytes bs = {}"
    using Cons.prems(7) unfolding b span_bytes_Cons by blast+
  show ?case
  proof (cases "s < p")
    case True
    then have le: "s + m \<le> p" using ivl_apart [OF apart(1) Cons.prems(5) ch(4)] by simp
    show ?thesis
    proof (cases "s + m = p")
      case True
      have "chain (s + (m + n)) hi bs \<or> (\<exists>k cs lo'. bs = (s + (m + n), k) # cs \<and> chain lo' hi bs)"
      proof (cases bs)
        case (Cons c cs)
        obtain t k where c: "c = (t, k)" by (cases c)
        have "{p..<p + n} \<inter> {t..<t + k} = {}"
          using apart(2) unfolding Cons c span_bytes_Cons by blast
        moreover have "0 < k" "p < t" using ch(6) True unfolding Cons c by simp_all
        ultimately have "p + n \<le> t" using ivl_apart [of p n t k] Cons.prems(5) by simp
        then show ?thesis using ch(6) True unfolding Cons c
          by (cases "p + n = t") (auto simp: add.assoc [symmetric])
      qed simp
      moreover have "lo < s" "16 dvd s" "16 dvd m + n" "0 < m + n" "s + (m + n) \<le> hi"
        using ch Cons.prems(4-6) True by auto
      ultimately have "chain lo hi (join s (m + n) bs) \<and>
          span_bytes (join s (m + n) bs) = {s..<s + (m + n)} \<union> span_bytes bs"
        by (rule join_spec)
      moreover have "{s..<s + (m + n)} = {s..<s + m} \<union> {p..<p + n}" using True by auto
      ultimately show ?thesis using True \<open>s < p\<close> b by auto
    next
      case False
      then have "s + m < p" using le by simp
      from Cons.IH [OF ch(6) this Cons.prems(3-6) apart(2)]
      show ?thesis using True False b ch by auto
    qed
  next
    case False
    then have "p + n \<le> s" using ivl_apart [OF apart(1) Cons.prems(5) ch(4)] ch(4) by linarith
    then have "chain (p + n) hi ((s, m) # bs) \<or>
        (\<exists>k cs lo'. (s, m) # bs = (p + n, k) # cs \<and> chain lo' hi ((s, m) # bs))"
      using ch by (cases "p + n = s") auto
    from join_spec [OF this Cons.prems(2-6)] show ?thesis using False b by auto
  qed
qed simp

section \<open>Spans in memory\<close>

text \<open>\<open>seg mem p bs q\<close>: following the links from \<open>p\<close> visits the spans \<open>bs\<close> and arrives at \<open>q\<close>.\<close>

fun seg :: "heap_mem \<Rightarrow> u64 \<Rightarrow> span list \<Rightarrow> u64 \<Rightarrow> bool" where
  "seg mem p [] q \<longleftrightarrow> p = q"
| "seg mem p ((s, n) # bs) q \<longleftrightarrow>
     p \<noteq> 0 \<and> unat p = s \<and> unat (hb_size (mem p)) = n \<and> seg mem (hb_next (mem p)) bs q"

definition prev_of :: "span list \<Rightarrow> u64 \<Rightarrow> bool" where
  "prev_of pre prev \<longleftrightarrow> (if pre = [] then prev = 0 else prev \<noteq> 0 \<and> unat prev = fst (last pre))"

definition link :: "heap_mem \<Rightarrow> u64 \<Rightarrow> u64 \<Rightarrow> u64 \<Rightarrow> heap_mem \<times> u64" where
  "link mem head prev r =
     (if prev = 0 then (mem, r) else (mem(prev := (mem prev)\<lparr>hb_next := r\<rparr>), head))"

lemma seg_cong: "(\<And>a. unat a \<in> fst ` set bs \<Longrightarrow> mem' a = mem a) \<Longrightarrow> seg mem' p bs q = seg mem p bs q"
proof (induction bs arbitrary: p)
  case (Cons b bs)
  then show ?case by (cases b) auto
qed simp

lemma seg_upd [simp]: "unat a \<notin> fst ` set bs \<Longrightarrow> seg (mem(a := x)) p bs q = seg mem p bs q"
  by (rule seg_cong) auto

lemma seg_append: "seg mem p (as @ bs) q \<longleftrightarrow> (\<exists>r. seg mem p as r \<and> seg mem r bs q)"
  by (induction as arbitrary: p) auto

lemma seg_snoc:
  "seg mem p (as @ [(s, n)]) q \<longleftrightarrow>
     (\<exists>r. seg mem p as r \<and> r \<noteq> 0 \<and> unat r = s \<and> unat (hb_size (mem r)) = n \<and> hb_next (mem r) = q)"
  by (auto simp: seg_append)

lemma seg_0_Nil: "seg mem 0 bs 0 \<longleftrightarrow> bs = []"
  by (cases bs) auto

lemma link_seg:
  assumes "seg mem head pre cur" and "prev_of pre prev" and "distinct (map fst (pre @ rest))"
    and "seg mem r rest 0" and "link mem head prev r = (mem', head')"
  shows "seg mem' head' (pre @ rest) 0"
proof (cases pre rule: rev_cases)
  case Nil
  then show ?thesis using assms by (simp add: prev_of_def link_def)
next
  case (snoc pre' x)
  obtain s n where x: "x = (s, n)" by (cases x)
  from assms(1) snoc x obtain c where c: "seg mem head pre' c" "c \<noteq> 0" "unat c = s"
    "unat (hb_size (mem c)) = n" by (auto simp: seg_snoc)
  then have prev: "prev = c" using assms(2) snoc x by (simp add: prev_of_def word_unat_eq_iff)
  have m: "mem' = mem(c := (mem c)\<lparr>hb_next := r\<rparr>)" "head' = head"
    using assms(5) c(2) prev by (auto simp: link_def)
  have "s \<notin> fst ` set pre'" "s \<notin> fst ` set rest" using assms(3) snoc x by auto
  then have "seg mem' head pre' c" "seg mem' r rest 0" using c assms(4) m by simp_all
  then show ?thesis using c m snoc x by (auto simp: seg_append)
qed

lemma grain_le: "16 dvd unat a \<Longrightarrow> GRAIN \<le> a \<longleftrightarrow> unat a \<noteq> 0"
  by (auto simp: GRAIN_def word_le_nat_alt dest: dvd_imp_le)

lemma chain_start_bytes: "chain lo hi bs \<Longrightarrow> s \<in> fst ` set bs \<Longrightarrow> s \<in> span_bytes bs"
  using chain_starts [of lo hi bs] by (force simp: span_bytes_def)

lemma link_frame: "link mem head prev r = (mem', head') \<Longrightarrow> a \<noteq> prev \<Longrightarrow> mem' a = mem a"
  by (auto simp: link_def split: if_splits)

lemma prev_of_in: "prev_of pre prev \<Longrightarrow> prev \<noteq> 0 \<Longrightarrow> unat prev \<in> fst ` set pre"
  by (auto simp: prev_of_def split: if_splits)

section \<open>Allocation\<close>

text \<open>Writing a header for what is left behind the allocation.\<close>

lemma carve_spec:
  assumes seg: "seg mem head pre cur" "prev_of pre prev" "seg mem cur ((s, n) # rest) 0"
    and ch: "chain lo hi (pre @ (s, n) # rest)" and hi: "hi < 2 ^ 64"
    and w: "unat payload = s + f" "unat front = f" "unat len = l"
    and n: "n = f + l + t" "16 dvd f" "16 dvd l" "0 < l"
  shows "\<exists>mem' head'. carve payload front len mem head prev cur = Some (mem', head') \<and>
    seg mem' head' (pre @ keep s f @ keep (s + f + l) t @ rest) 0 \<and>
    (\<forall>a. unat a \<notin> span_bytes (pre @ (s, n) # rest) \<longrightarrow> mem' a = mem a)"
proof -
  have c: "cur \<noteq> 0" "unat cur = s" "unat (hb_size (mem cur)) = n" "seg mem (hb_next (mem cur)) rest 0"
    using seg(3) by auto
  have rest: "chain (s + n) hi rest" and sn: "s + n \<le> hi" "16 dvd n" and lo: "last_end lo pre < s"
    and cp: "chain lo hi pre" using ch by (auto simp: chain_append)
  have t16: "16 dvd t" using sn(2) n by (metis dvd_add dvd_add_right_iff)
  have "distinct (map fst (pre @ (s, n) # rest))" by (rule chain_distinct [OF ch])
  then have dist: "distinct (map fst (pre @ rest))" "s \<notin> fst ` set pre" "s \<notin> fst ` set rest" by auto
  have rest_gt: "x \<in> fst ` set rest \<Longrightarrow> s + n < x" for x
    using chain_bytes [OF rest] chain_start_bytes [OF rest] by blast
  have pre_lt: "x \<in> fst ` set pre \<Longrightarrow> x < s" for x
    using chain_before [OF cp] chain_start_bytes [OF cp] lo by fastforce
  let ?nxt = "hb_next (mem cur)"
  have sub: "checked_sub (hb_size (mem cur)) front = Some (hb_size (mem cur) - front)"
    "unat (hb_size (mem cur) - front) = l + t"
    using c(3) w(2) n(1) by (auto simp: checked_sub_def word_le_nat_alt unat_sub_le)
  define tail where "tail = hb_size (mem cur) - front - len"
  have tail: "checked_sub (hb_size (mem cur) - front) len = Some tail" "unat tail = t"
    using sub(2) w(3) by (auto simp: checked_sub_def word_le_nat_alt unat_sub_le tail_def)
  define tb where "tb = payload + len"
  have tb: "checked_add payload len = Some tb" "unat tb = s + f + l"
    using w n(1) sn(1) hi unfolding tb_def by (auto simp: checked_add_def unat_add_small)
  define mem1 where "mem1 = (if t = 0 then mem else mem(tb := \<lparr>hb_size = tail, hb_next = ?nxt\<rparr>))"
  define rem where "rem = (if t = 0 then ?nxt else tb)"
  have tb_in: "t \<noteq> 0 \<Longrightarrow> s < unat tb \<and> unat tb < s + n" using tb(2) n by simp
  then have out: "t \<noteq> 0 \<Longrightarrow> unat tb \<notin> fst ` set pre \<and> unat tb \<notin> fst ` set rest \<and> tb \<noteq> cur \<and> tb \<noteq> 0"
    using pre_lt [of "unat tb"] rest_gt [of "unat tb"] c(2) by fastforce
  have step: "carve payload front len mem head prev cur =
      (if f = 0 then (let (m, h) = link mem1 head prev rem in Some (m, h))
       else Some (mem1(cur := \<lparr>hb_size = front, hb_next = rem\<rparr>), head))"
    using sub(1) tail tb(1) grain_le [of tail] grain_le [of front] t16 n(2) w(2)
    by (auto simp: carve_def link_def mem1_def rem_def Let_def simp del: checked_add_Some_iff checked_sub_Some_iff)
  have pre1: "seg mem1 head pre cur" using seg(1) out by (simp add: mem1_def)
  have rest1: "seg mem1 rem (keep (s + f + l) t @ rest) 0"
    using c(4) out tb(2) tail(2) by (auto simp: mem1_def rem_def keep_def)
  have fr1: "mem1 a = mem a" if "unat a \<notin> {s..<s + n}" for a
    using that tb_in by (auto simp: mem1_def)
  have dist1: "distinct (map fst (pre @ keep (s + f + l) t @ rest))"
    using dist(1) out tb(2) by (auto simp: keep_def)
  show ?thesis
  proof (cases "f = 0")
    case True
    obtain mem' head' where l: "link mem1 head prev rem = (mem', head')" by fastforce
    have "seg mem' head' (pre @ keep (s + f + l) t @ rest) 0"
      by (rule link_seg [OF pre1 seg(2) dist1 rest1 l])
    moreover have "mem' a = mem a" if a: "unat a \<notin> span_bytes (pre @ (s, n) # rest)" for a
    proof -
      have "a \<noteq> prev \<or> prev = 0"
        using a prev_of_in [OF seg(2)] chain_start_bytes [OF cp] by auto
      then have "mem' a = mem1 a" using link_frame [OF l] l by (auto simp: link_def split: if_splits)
      then show ?thesis using fr1 a by simp
    qed
    ultimately show ?thesis using step True l by (auto simp: keep_def)
  next
    case False
    let ?m = "mem1(cur := \<lparr>hb_size = front, hb_next = rem\<rparr>)"
    have "seg ?m head pre cur" using pre1 dist(2) c(2) by simp
    moreover have "unat cur \<notin> fst ` set (keep (s + f + l) t @ rest)"
      using c(2) dist(3) False by (auto simp: keep_def)
    then have "seg ?m rem (keep (s + f + l) t @ rest) 0" using rest1 by simp
    ultimately have "seg ?m head (pre @ keep s f @ keep (s + f + l) t @ rest) 0"
      using c False w(2) by (auto simp: seg_append keep_def)
    moreover have "?m a = mem a" if a: "unat a \<notin> span_bytes (pre @ (s, n) # rest)" for a
      using a fr1 [of a] c(2) n by auto
    ultimately show ?thesis using step False by auto
  qed
qed

lemma alloc_walk_refines:
  assumes "seg mem head pre cur" and "prev_of pre prev" and "seg mem cur rest 0"
    and "chain lo hi (pre @ rest)" and hi: "hi \<le> 2 ^ 63"
    and al: "unat align = A" "16 dvd A" "0 < A" "A \<le> 2 ^ 63"
    and len: "unat len = l" "16 dvd l" "0 < l" "A + l < 2 ^ 64"
  shows "case span_alloc l A rest of
      None \<Rightarrow> alloc_walk len align mem head prev cur = Some (0, mem, head)
    | Some (p, bs) \<Rightarrow> \<exists>w mem' head'. alloc_walk len align mem head prev cur = Some (w, mem', head') \<and>
        unat w = p \<and> seg mem' head' (pre @ bs) 0 \<and>
        (\<forall>a. unat a \<notin> span_bytes (pre @ rest) \<longrightarrow> mem' a = mem a)"
  using assms(1-4)
proof (induction rest arbitrary: pre prev cur)
  case Nil
  then have "alloc_walk len align mem head prev cur = Some (0, mem, head)"
    by (subst alloc_walk.simps) simp
  then show ?case by simp
next
  case (Cons b rest)
  obtain s n where b: "b = (s, n)" by (cases b)
  have c: "cur \<noteq> 0" "unat cur = s" "unat (hb_size (mem cur)) = n" "seg mem (hb_next (mem cur)) rest 0"
    using Cons.prems(3) b by auto
  have sn: "0 < n" "s + n \<le> hi" using Cons.prems(4) b by (auto simp: chain_append)
  have ru: "round_up s A < s + A" "s \<le> round_up s A" "A dvd round_up s A"
    using al(3) by (auto simp: round_up_less round_up_dvd)
  then obtain f where f: "round_up s A = s + f" using le_Suc_ex by blast
  have "16 dvd s" using Cons.prems(4) b by (auto simp: chain_append)
  then have f16: "16 dvd f" using ru(3) al(2) f by (metis dvd_add_right_iff dvd_trans)
  have "s + f < 2 ^ 63 + 2 ^ 63" using f ru(1) sn hi al(4) by linarith
  then have "s + f < 2 ^ 64" by simp
  then have "checked_next_multiple_of cur align \<noteq> None" using al c(2) f by (auto simp: unat_eq_zero)
  then obtain payload where p: "checked_next_multiple_of cur align = Some payload" by blast
  then have pu: "unat payload = s + f" using c(2) al(1) f by simp
  have fr: "checked_sub payload cur = Some (payload - cur)" "unat (payload - cur) = f"
    using pu c(2) by (auto simp: checked_sub_def word_le_nat_alt unat_sub_le)
  have "f + l < 2 ^ 64" using ru(1) f len(4) by linarith
  then have need: "checked_add (payload - cur) len = Some (payload - cur + len)"
    "unat (payload - cur + len) = f + l"
    using fr(2) len(1) by (auto simp: checked_add_def unat_add_small)
  have step: "alloc_walk len align mem head prev cur =
      (if f + l \<le> n then do {
         (mem', head') \<leftarrow> carve payload (payload - cur) len mem head prev cur;
         Some (payload, mem', head')
       } else alloc_walk len align mem head cur (hb_next (mem cur)))"
    using c(1,3) p fr need
    by (subst alloc_walk.simps) (simp add: word_le_nat_alt del: checked_add_Some_iff
        checked_sub_Some_iff checked_next_multiple_of_Some_iff)
  show ?case
  proof (cases "f + l \<le> n")
    case True
    then obtain t where t: "n = f + l + t" using le_Suc_ex by blast
    have "hi < 2 ^ 64" using hi by simp
    from carve_spec [OF Cons.prems(1,2) _ Cons.prems(4) [unfolded b] this pu fr(2) len(1) t f16 len(2,3)]
    obtain mem' head' where cv:
      "carve payload (payload - cur) len mem head prev cur = Some (mem', head')"
      "seg mem' head' (pre @ keep s f @ keep (s + f + l) t @ rest) 0"
      "\<forall>a. unat a \<notin> span_bytes (pre @ (s, n) # rest) \<longrightarrow> mem' a = mem a"
      using Cons.prems(3) b by blast
    have "span_alloc l A (b # rest) = Some (s + f, keep s f @ keep (s + f + l) t @ rest)"
      using True t b f by (simp add: Let_def)
    then show ?thesis using step True cv pu b by simp
  next
    case False
    have pre: "pre @ b # rest = (pre @ [b]) @ rest" by simp
    have "seg mem head (pre @ [b]) (hb_next (mem cur))" using Cons.prems(1) c b by (auto simp: seg_snoc)
    moreover have "prev_of (pre @ [b]) cur" using c b by (simp add: prev_of_def)
    ultimately have ih: "case span_alloc l A rest of
        None \<Rightarrow> alloc_walk len align mem head cur (hb_next (mem cur)) = Some (0, mem, head)
      | Some (p, bs) \<Rightarrow> \<exists>w mem' head'.
          alloc_walk len align mem head cur (hb_next (mem cur)) = Some (w, mem', head') \<and>
          unat w = p \<and> seg mem' head' ((pre @ [b]) @ bs) 0 \<and>
          (\<forall>a. unat a \<notin> span_bytes ((pre @ [b]) @ rest) \<longrightarrow> mem' a = mem a)"
      using Cons.IH [of "pre @ [b]" "hb_next (mem cur)" cur] c(4) Cons.prems(4) by simp
    have "span_alloc l A (b # rest) = map_option (\<lambda>(p, bs'). (p, b # bs')) (span_alloc l A rest)"
      using False b f by (simp add: Let_def)
    then show ?thesis using ih step False by (cases "span_alloc l A rest") auto
  qed
qed

text \<open>What \<open>normalise\<close> makes of a valid layout.\<close>

definition block_len :: "layout \<Rightarrow> nat" where
  "block_len l = round_up (max (unat (ly_size l)) 16) 16"

definition block_align :: "layout \<Rightarrow> nat" where
  "block_align l = max (unat (ly_align l)) 16"

lemma normalise_spec:
  assumes "layout_ok l"
  obtains len align where "normalise l = Some (len, align)" and "unat len = block_len l"
    and "unat align = block_align l" and "16 dvd block_len l" and "0 < block_len l"
    and "16 dvd block_align l" and "0 < block_align l" and "block_align l \<le> 2 ^ 63"
    and "block_align l + block_len l < 2 ^ 64" and "unat (ly_align l) dvd block_align l"
proof -
  from assms obtain k where k: "k < 64" "unat (ly_align l) = 2 ^ k"
    and sz: "round_up (unat (ly_size l)) (2 ^ k) < 2 ^ 63"
    by (auto simp: layout_ok_def)
  have mx: "unat (max x y) = max (unat x) (unat y)" for x y :: u64
    by (simp add: max_def word_le_nat_alt)
  have g: "unat GRAIN = 16" "GRAIN \<noteq> 0" by (simp_all add: GRAIN_def)
  have align: "unat (max (ly_align l) GRAIN) = block_align l" by (simp add: mx g block_align_def)
  have ba: "16 dvd block_align l \<and> block_align l \<le> 2 ^ 63 \<and> unat (ly_align l) dvd block_align l"
  proof (cases "4 \<le> k")
    case True
    then have "(2 :: nat) ^ 4 dvd 2 ^ k" by (rule le_imp_power_dvd)
    moreover from this have "(16 :: nat) \<le> 2 ^ k" by (intro dvd_imp_le) auto
    moreover have "(2 :: nat) ^ k \<le> 2 ^ 63" using k(1) by (intro power_increasing) auto
    ultimately show ?thesis using k(2) by (simp add: block_align_def max_def)
  next
    case False
    then have "(2 :: nat) ^ k dvd 2 ^ 4" by (intro le_imp_power_dvd) auto
    moreover from this have "(2 :: nat) ^ k \<le> 16" by (intro dvd_imp_le) auto
    ultimately show ?thesis using k(2) by (simp add: block_align_def max_def)
  qed
  have bl: "16 dvd block_len l" "max (unat (ly_size l)) 16 \<le> block_len l"
    "block_len l < max (unat (ly_size l)) 16 + 16"
    by (auto simp: block_len_def round_up_dvd round_up_less)
  have sum: "unat (ly_size l) + 2 ^ k \<le> 2 ^ 63"
  proof -
    let ?r = "round_up (unat (ly_size l)) (2 ^ k)"
    have "(2 :: nat) ^ k dvd 2 ^ 63" using k(1) by (intro le_imp_power_dvd) auto
    moreover have "(2 :: nat) ^ k dvd ?r" by (rule round_up_dvd) simp
    ultimately have "?r + 2 ^ k \<le> 2 ^ 63"
      using sz by (auto simp: dvd_def) (metis add.commute less_le_not_le linorder_not_le
        mult_Suc_right mult_le_mono2 mult_less_cancel1 not_less_eq_eq)
    then show ?thesis using round_up_ge [of "unat (ly_size l)" "2 ^ k"] by linarith
  qed
  then have tot: "block_align l + block_len l < 2 ^ 64"
    using bl(3) k(2) by (auto simp: block_align_def max_def split: if_splits)
  have "max (unat (ly_size l)) 16 \<le> 2 ^ 63" using sum by simp
  then have "block_len l < 2 ^ 64" using bl(3) by simp
  then have "checked_next_multiple_of (max (ly_size l) GRAIN) GRAIN \<noteq> None"
    by (simp add: mx g block_len_def)
  then obtain len where len: "checked_next_multiple_of (max (ly_size l) GRAIN) GRAIN = Some len" by blast
  show ?thesis
  proof (rule that)
    show "normalise l = Some (len, max (ly_align l) GRAIN)"
      using len by (simp add: normalise_def del: checked_next_multiple_of_Some_iff)
    show "unat len = block_len l" using len by (simp add: mx g block_len_def)
    show "0 < block_len l" using bl(2) by simp
    show "0 < block_align l" by (simp add: block_align_def)
  qed (use align ba bl tot in simp_all)
qed

section \<open>Freeing\<close>

lemma find_slot_spec:
  assumes "seg mem head pre cur" and "prev_of pre prev" and "seg mem cur rest 0"
  shows "\<exists>prev' cur' as bs. find_slot mem p prev cur = Some (prev', cur') \<and> rest = as @ bs \<and>
    seg mem head (pre @ as) cur' \<and> prev_of (pre @ as) prev' \<and> seg mem cur' bs 0 \<and>
    (\<forall>x \<in> set as. fst x < unat p) \<and> (\<forall>s n cs. bs = (s, n) # cs \<longrightarrow> unat p \<le> s)"
  using assms
proof (induction rest arbitrary: pre prev cur)
  case Nil
  then have "find_slot mem p prev cur = Some (prev, cur)" by (subst find_slot.simps) simp
  then show ?case using Nil by (intro exI [of _ prev] exI [of _ cur] exI [of _ "[]"]) simp
next
  case (Cons b rest)
  obtain s n where b: "b = (s, n)" by (cases b)
  have c: "cur \<noteq> 0" "unat cur = s" "unat (hb_size (mem cur)) = n" "seg mem (hb_next (mem cur)) rest 0"
    using Cons.prems(3) b by auto
  show ?case
  proof (cases "cur < p")
    case True
    then have "find_slot mem p prev cur = find_slot mem p cur (hb_next (mem cur))"
      using c(1) by (subst find_slot.simps) simp
    moreover have "seg mem head (pre @ [b]) (hb_next (mem cur))"
      using Cons.prems(1) c b by (auto simp: seg_snoc)
    moreover have "prev_of (pre @ [b]) cur" using c b by (simp add: prev_of_def)
    ultimately obtain prev' cur' as bs where ih: "find_slot mem p prev cur = Some (prev', cur')"
      "rest = as @ bs" "seg mem head ((pre @ [b]) @ as) cur'" "prev_of ((pre @ [b]) @ as) prev'"
      "seg mem cur' bs 0" "\<forall>x \<in> set as. fst x < unat p" "\<forall>s n cs. bs = (s, n) # cs \<longrightarrow> unat p \<le> s"
      using Cons.IH [of "pre @ [b]" "hb_next (mem cur)" cur] c(4) by auto
    then show ?thesis using True b c(2)
      by (intro exI [of _ prev'] exI [of _ cur'] exI [of _ "b # as"] exI [of _ bs])
        (simp add: word_less_nat_alt)
  next
    case False
    then have "find_slot mem p prev cur = Some (prev, cur)" by (subst find_slot.simps) simp
    then show ?thesis using Cons.prems False b c(2)
      by (intro exI [of _ prev] exI [of _ cur] exI [of _ "[]"] exI [of _ "b # rest"])
        (simp add: word_less_nat_alt)
  qed
qed

lemma span_free_at:
  assumes "chain lo hi (as @ bs)" and "\<forall>x \<in> set as. fst x < p"
    and "\<forall>s n cs. bs = (s, n) # cs \<longrightarrow> p \<le> s"
  shows "span_free p len (as @ bs) =
    (case as of
       [] \<Rightarrow> join p len bs
     | _ \<Rightarrow> (case last as of (s, n) \<Rightarrow>
         if s + n = p then butlast as @ join s (n + len) bs else as @ join p len bs))"
  using assms
proof (induction as arbitrary: lo)
  case Nil
  then show ?case by (cases bs) auto
next
  case (Cons a as)
  obtain s n where a: "a = (s, n)" by (cases a)
  have ch: "chain (s + n) hi (as @ bs)" using Cons.prems(1) a by simp
  have s: "s < p" using Cons.prems(2) a by simp
  note ih = Cons.IH [OF ch _ Cons.prems(3)]
  show ?case
  proof (cases as)
    case Nil
    then have "span_free p len bs = join p len bs" using ih Cons.prems(2) by simp
    then show ?thesis using Nil a s by simp
  next
    case (Cons a' as')
    obtain s' n' where a': "a' = (s', n')" by (cases a')
    then have "s + n \<noteq> p" using ch Cons Cons.prems(2) by auto
    then show ?thesis using ih Cons.prems(2) Cons a s by (auto split: prod.splits)
  qed
qed

lemma merge_forward_spec:
  assumes "seg mem cur bs 0" and "unat p = P" and "unat len = n" and "P + n \<le> hi" and "0 < n"
    and "chain lo hi bs" and "hi < 2 ^ 64" and "\<forall>s m cs. bs = (s, m) # cs \<longrightarrow> P + n \<le> s"
  shows "\<exists>len' nxt n' bs'. merge_forward p len mem cur = Some (len', nxt) \<and> unat len' = n' \<and>
    seg mem nxt bs' 0 \<and> (\<forall>s m. s + m = P \<longrightarrow> join s (m + n) bs = (s, m + n') # bs') \<and>
    fst ` set bs' \<subseteq> fst ` set bs \<and> distinct (map fst bs') \<and> P + n' \<le> hi \<and>
    (\<forall>x \<in> set bs'. P < fst x)"
proof (cases bs)
  case Nil
  then show ?thesis using assms by (auto simp: merge_forward_def)
next
  case (Cons b cs)
  obtain s m where b: "b = (s, m)" by (cases b)
  have c: "cur \<noteq> 0" "unat cur = s" "unat (hb_size (mem cur)) = m" "seg mem (hb_next (mem cur)) cs 0"
    using assms(1) Cons b by auto
  have sm: "s + m \<le> hi" "P + n \<le> s" "0 < m" using assms(6,8) Cons b by auto
  have dist: "distinct (map fst bs)" by (rule chain_distinct [OF assms(6)])
  have gt: "\<forall>x \<in> set cs. s + m < fst x" using assms(6) Cons b chain_starts [of "s + m" hi cs] by fastforce
  have "P + n < 2 ^ 64" using sm assms(7) by linarith
  then have stop: "checked_add p len = Some (p + len)" "unat (p + len) = P + n"
    using assms(2,3) by (auto simp: checked_add_def unat_add_small)
  show ?thesis
  proof (cases "P + n = s")
    case True
    have "n + m < 2 ^ 64" using sm(1) True assms(7) by linarith
    then have both: "checked_add len (hb_size (mem cur)) = Some (len + hb_size (mem cur))"
      "unat (len + hb_size (mem cur)) = n + m"
      using assms(3) c(3) by (auto simp: checked_add_def unat_add_small)
    have "merge_forward p len mem cur = Some (len + hb_size (mem cur), hb_next (mem cur))"
      using c(1,2) stop both True
      by (simp add: merge_forward_def word_unat_eq_iff del: checked_add_Some_iff)
    moreover have "join s' (m' + n) bs = (s', m' + (n + m)) # cs" if "s' + m' = P" for s' m'
      using that True Cons b by (simp add: add.assoc [symmetric])
    moreover have "fst ` set cs \<subseteq> fst ` set bs" "distinct (map fst cs)" using dist Cons by auto
    moreover have "P + (n + m) \<le> hi" using sm True by simp
    moreover have "\<forall>x \<in> set cs. P < fst x" using gt True by auto
    ultimately show ?thesis using both(2) c(4) by blast
  next
    case False
    then have "merge_forward p len mem cur = Some (len, cur)"
      using c(1,2) stop
      by (auto simp: merge_forward_def word_unat_eq_iff simp del: checked_add_Some_iff)
    moreover have "join s' (m' + n) bs = (s', m' + n) # bs" if "s' + m' = P" for s' m'
      using that False Cons b by auto
    moreover have "\<forall>x \<in> set bs. P < fst x" using gt sm False assms(5) Cons b by fastforce
    ultimately show ?thesis
      using assms(1,3,4) dist by (intro exI [of _ len] exI [of _ cur] exI [of _ n] exI [of _ bs]) simp
  qed
qed

lemma heap_dealloc_refines:
  assumes seg: "seg mem head bs 0" and ch: "chain lo hi bs" and hi: "hi < 2 ^ 64"
    and l: "layout_ok l" and p: "lo < unat p" "16 dvd unat p" "unat p + block_len l \<le> hi"
    and apart: "{unat p..<unat p + block_len l} \<inter> span_bytes bs = {}"
  shows "\<exists>mem' head'. heap_dealloc p l mem head = Some (mem', head') \<and>
    seg mem' head' (span_free (unat p) (block_len l) bs) 0 \<and>
    (\<forall>a. unat a \<notin> span_bytes bs \<union> {unat p..<unat p + block_len l} \<longrightarrow> mem' a = mem a)"
proof -
  obtain len align where nm: "normalise l = Some (len, align)" "unat len = block_len l"
    "0 < block_len l" using normalise_spec [OF l] by metis
  let ?P = "unat p" and ?n = "block_len l"
  obtain prev cur as cs where slot: "find_slot mem p 0 head = Some (prev, cur)" "bs = as @ cs"
    "seg mem head as cur" "prev_of as prev" "seg mem cur cs 0" "\<forall>x \<in> set as. fst x < ?P"
    "\<forall>s n ds. cs = (s, n) # ds \<longrightarrow> ?P \<le> s"
    using find_slot_spec [of mem head "[]" head 0 bs p] seg by (auto simp: prev_of_def)
  have cas: "chain lo hi as" and ccs: "chain (last_end lo as) hi cs"
    using ch slot(2) by (auto simp: chain_append)
  have far: "\<forall>s m ds. cs = (s, m) # ds \<longrightarrow> ?P + ?n \<le> s"
  proof (intro allI impI)
    fix s m ds assume c: "cs = (s, m) # ds"
    then have "{?P..<?P + ?n} \<inter> {s..<s + m} = {}"
      using apart unfolding slot(2) c span_bytes_append span_bytes_Cons by blast
    moreover have "0 < m" "?P \<le> s" using ccs slot(7) c by simp_all
    ultimately show "?P + ?n \<le> s" using ivl_apart [of ?P ?n s m] nm(3) by linarith
  qed
  obtain len' nxt n' cs' where mf: "merge_forward p len mem cur = Some (len', nxt)" "unat len' = n'"
    "seg mem nxt cs' 0" "\<forall>s m. s + m = ?P \<longrightarrow> join s (m + ?n) cs = (s, m + n') # cs'"
    "fst ` set cs' \<subseteq> fst ` set cs" "distinct (map fst cs')" "?P + n' \<le> hi" "\<forall>x \<in> set cs'. ?P < fst x"
    using merge_forward_spec [OF slot(5) refl nm(2) p(3) nm(3) ccs hi far] by (elim exE conjE)
  have joinP: "join ?P ?n cs = (?P, n') # cs'" using mf(4) [rule_format, of ?P 0] by simp
  have p0: "p \<noteq> 0" using p(1) by auto
  have dist: "distinct (map fst bs)" by (rule chain_distinct [OF ch])
  note free = span_free_at [OF ch [unfolded slot(2)] slot(6,7), of ?n, folded slot(2)]
  have fresh: "?P \<notin> fst ` set as" "?P \<notin> fst ` set cs'" using slot(6) mf(8) by auto
  have insert: "heap_dealloc p l mem head = Some (link (mem(p := \<lparr>hb_size = len', hb_next = nxt\<rparr>)) head prev p) \<and>
      span_free ?P ?n bs = as @ (?P, n') # cs' \<Longrightarrow> ?thesis"
  proof -
    assume h: "heap_dealloc p l mem head = Some (link (mem(p := \<lparr>hb_size = len', hb_next = nxt\<rparr>)) head prev p) \<and>
      span_free ?P ?n bs = as @ (?P, n') # cs'"
    let ?m = "mem(p := \<lparr>hb_size = len', hb_next = nxt\<rparr>)"
    obtain mem' head' where lk: "link ?m head prev p = (mem', head')" by fastforce
    have "seg ?m head as cur" "seg ?m p ((?P, n') # cs') 0" using slot(3) mf(2,3) fresh p0 by simp_all
    moreover have "distinct (map fst (as @ (?P, n') # cs'))"
    proof -
      have "distinct (map fst as)" "fst ` set as \<inter> fst ` set cs = {}" using dist slot(2) by auto
      moreover from this mf(5) have "fst ` set as \<inter> fst ` set cs' = {}" by blast
      ultimately show ?thesis using mf(6) fresh by auto
    qed
    ultimately have "seg mem' head' (as @ (?P, n') # cs') 0" using link_seg slot(4) lk by blast
    moreover have "mem' a = mem a" if a: "unat a \<notin> span_bytes bs \<union> {?P..<?P + ?n}" for a
    proof -
      have "a \<noteq> p" using a nm(3) by auto
      moreover have "a \<noteq> prev \<or> prev = 0"
        using a prev_of_in [OF slot(4)] chain_start_bytes [OF cas] slot(2) by auto
      then have "mem' a = ?m a" using link_frame [OF lk] lk by (auto simp: link_def split: if_splits)
      ultimately show ?thesis by simp
    qed
    ultimately show ?thesis using h lk by auto
  qed
  show ?thesis
  proof (cases as rule: rev_cases)
    case Nil
    then have "prev = 0" using slot(4) by (simp add: prev_of_def)
    then have "heap_dealloc p l mem head = Some (link (mem(p := \<lparr>hb_size = len', hb_next = nxt\<rparr>)) head prev p)"
      using nm(1) slot(1) mf(1) by (simp add: heap_dealloc_def merge_backward_def link_def Let_def)
    moreover have "span_free ?P ?n bs = as @ (?P, n') # cs'" using free Nil joinP by simp
    ultimately show ?thesis using insert by blast
  next
    case (snoc as' x)
    obtain s m where x: "x = (s, m)" by (cases x)
    have prev: "prev \<noteq> 0" "unat prev = s" using slot(4) snoc x by (auto simp: prev_of_def)
    obtain c where c: "seg mem head as' c" "c \<noteq> 0" "unat c = s" "unat (hb_size (mem c)) = m"
      "hb_next (mem c) = cur" using slot(3) snoc x by (auto simp: seg_snoc)
    then have cp: "c = prev" using prev by (simp add: word_unat_eq_iff)
    have sm: "s + m \<le> hi" "0 < m" "last_end lo as' < s" and cas': "chain lo hi as'"
      using cas snoc x by (auto simp: chain_append)
    then have "s + m < 2 ^ 64" using hi by linarith
    then have pe: "checked_add prev (hb_size (mem prev)) = Some (prev + hb_size (mem prev))"
      "unat (prev + hb_size (mem prev)) = s + m"
      using c cp by (auto simp: checked_add_def unat_add_small)
    have sf: "span_free ?P ?n bs =
        (if s + m = ?P then as' @ join s (m + ?n) cs else (as' @ [(s, m)]) @ join ?P ?n cs)"
      using free snoc x by (cases as') auto
    show ?thesis
    proof (cases "s + m = ?P")
      case True
      have "m + n' < 2 ^ 64" using mf(7) True hi by linarith
      then have both: "checked_add (hb_size (mem prev)) len' = Some (hb_size (mem prev) + len')"
        "unat (hb_size (mem prev) + len') = m + n'"
        using c(4) cp mf(2) by (auto simp: checked_add_def unat_add_small)
      let ?m = "mem(prev := \<lparr>hb_size = hb_size (mem prev) + len', hb_next = nxt\<rparr>)"
      have "heap_dealloc p l mem head = Some (?m, head)"
        using nm(1) slot(1) mf(1) prev(1) pe both True
        by (simp add: heap_dealloc_def merge_backward_def word_unat_eq_iff [of "prev + _" p]
            del: checked_add_Some_iff)
      moreover have "seg ?m head (as' @ (s, m + n') # cs') 0"
      proof -
        have "s \<notin> fst ` set as'" "s \<notin> fst ` set cs'" using dist slot(2) snoc x mf(5) by auto
        then have "seg ?m head as' prev" "seg ?m nxt cs' 0" using c(1) cp prev(2) mf(3) by simp_all
        then show ?thesis using prev both(2) by (auto simp: seg_append)
      qed
      moreover have "span_free ?P ?n bs = as' @ (s, m + n') # cs'" using sf True mf(4) by simp
      moreover have "s \<in> span_bytes bs" using slot(2) snoc x sm(2) by simp
      then have "\<forall>a. unat a \<notin> span_bytes bs \<union> {?P..<?P + ?n} \<longrightarrow> ?m a = mem a" using prev(2) by auto
      ultimately show ?thesis by auto
    next
      case False
      have "heap_dealloc p l mem head = Some (link (mem(p := \<lparr>hb_size = len', hb_next = nxt\<rparr>)) head prev p)"
        using nm(1) slot(1) mf(1) prev(1) pe False
        by (simp add: heap_dealloc_def merge_backward_def link_def Let_def
            word_unat_eq_iff [of "prev + _" p] del: checked_add_Some_iff)
      moreover have "span_free ?P ?n bs = as @ (?P, n') # cs'" using sf False joinP snoc x by simp
      ultimately show ?thesis using insert by blast
    qed
  qed
qed

section \<open>Counting\<close>

lemma sum_blocks_spec:
  "seg mem cur bs 0 \<Longrightarrow> unat acc + sum_list (map snd bs) < 2 ^ 64 \<Longrightarrow>
   \<exists>n. sum_blocks mem acc cur = Some n \<and> unat n = unat acc + sum_list (map snd bs)"
proof (induction bs arbitrary: cur acc)
  case Nil
  then show ?case by (subst sum_blocks.simps) simp
next
  case (Cons b bs)
  obtain s m where b: "b = (s, m)" by (cases b)
  have c: "cur \<noteq> 0" "unat (hb_size (mem cur)) = m" "seg mem (hb_next (mem cur)) bs 0"
    using Cons.prems(1) b by auto
  then have a: "checked_add acc (hb_size (mem cur)) = Some (acc + hb_size (mem cur))"
    "unat (acc + hb_size (mem cur)) = unat acc + m"
    using Cons.prems(2) b by (auto simp: checked_add_def unat_add_small)
  then have "sum_blocks mem acc cur = sum_blocks mem (acc + hb_size (mem cur)) (hb_next (mem cur))"
    using c(1) by (subst sum_blocks.simps) (simp del: checked_add_Some_iff)
  then show ?case using Cons.IH [OF c(3), of "acc + hb_size (mem cur)"] Cons.prems(2) a(2) b by (simp add: add.assoc)
qed

lemma count_blocks_spec:
  "seg mem cur bs 0 \<Longrightarrow> unat acc + length bs < 2 ^ 64 \<Longrightarrow>
   \<exists>n. count_blocks mem acc cur = Some n \<and> unat n = unat acc + length bs"
proof (induction bs arbitrary: cur acc)
  case Nil
  then show ?case by (subst count_blocks.simps) simp
next
  case (Cons b bs)
  obtain s m where b: "b = (s, m)" by (cases b)
  have c: "cur \<noteq> 0" "seg mem (hb_next (mem cur)) bs 0" using Cons.prems(1) b by auto
  have a: "checked_add acc 1 = Some (acc + 1)" "unat (acc + 1) = unat acc + 1"
    using Cons.prems(2) by (auto simp: checked_add_def unat_add_small)
  then have "count_blocks mem acc cur = count_blocks mem (acc + 1) (hb_next (mem cur))"
    using c(1) by (subst count_blocks.simps) (simp del: checked_add_Some_iff)
  then show ?case using Cons.IH [OF c(2), of "acc + 1"] Cons.prems(2) a(2) by (simp add: add.assoc)
qed

end
