(* ===== verification/Frame_Refine.thy ===== *)
theory Frame_Refine
  imports Frame_Alloc "HOL-Library.Multiset"
begin

text \<open>
  Correctness of the frame allocator of \<open>Frame_Alloc\<close>.

  A state is read as three lists of frame addresses: the stack of freed frames, what the cursor
  has left, and the runs still to come (\<open>fa_rep\<close>). \<open>abump\<close> is \<open>bump\<close> on these lists. Each
  operation of the code is shown to be its list version and to return (no overflow, no endless
  loop) as long as no usable frame reaches the last page of the address space.
\<close>

section \<open>The linked stack\<close>

fun stack_in :: "phys \<Rightarrow> u64 option \<Rightarrow> nat list \<Rightarrow> bool" where
  "stack_in m p [] \<longleftrightarrow> p = None"
| "stack_in m p (f # fs) \<longleftrightarrow>
     (case p of None \<Rightarrow> False | Some w \<Rightarrow> unat w = f \<and> w \<noteq> 0 \<and> stack_in m (ff_next (m w)) fs)"

lemma stack_in_cong:
  "(\<And>a. unat a \<in> set fs \<Longrightarrow> m' a = m a) \<Longrightarrow> stack_in m' p fs = stack_in m p fs"
  by (induction fs arbitrary: p) (auto split: option.splits)

lemma stack_in_upd [simp]:
  "unat a \<notin> set fs \<Longrightarrow> stack_in (m(a := x)) p fs = stack_in m p fs"
  by (rule stack_in_cong) auto

lemma stack_in_None [simp]: "stack_in m None fs \<longleftrightarrow> fs = []"
  by (cases fs) auto

lemma stack_in_Some:
  "stack_in m (Some w) fs \<longleftrightarrow>
     (\<exists>gs. fs = unat w # gs \<and> w \<noteq> 0 \<and> stack_in m (ff_next (m w)) gs)"
  by (cases fs) auto

inductive on_stack :: "phys \<Rightarrow> u64 option \<Rightarrow> nat \<Rightarrow> bool" for m where
  here: "on_stack m (Some w) (unat w)"
| further: "on_stack m (ff_next (m w)) f \<Longrightarrow> on_stack m (Some w) f"

inductive_simps on_stack_None [simp]: "on_stack m None f"
inductive_simps on_stack_Some: "on_stack m (Some w) f"

lemma on_stack_set: "stack_in m p fs \<Longrightarrow> on_stack m p f \<longleftrightarrow> f \<in> set fs"
  by (induction fs arbitrary: p) (auto simp: on_stack_Some split: option.splits)

section \<open>Consecutive frames\<close>

definition frames_between :: "nat \<Rightarrow> nat \<Rightarrow> nat list" where
  "frames_between c e = map (\<lambda>i. c + 4096 * i) [0..<(e - c) div 4096]"

lemma frames_between_empty [simp]: "e \<le> c \<Longrightarrow> frames_between c e = []"
  by (simp add: frames_between_def)

lemma length_frames_between [simp]: "length (frames_between c e) = (e - c) div 4096"
  by (simp add: frames_between_def)

lemma drop_frames_between:
  assumes "4096 * n \<le> e - c"
  shows "drop n (frames_between c e) = frames_between (c + 4096 * n) e"
proof -
  have n: "(e - (c + 4096 * n)) div 4096 = (e - c) div 4096 - n" "n \<le> (e - c) div 4096"
    using assms by arith+
  then have "[n..<(e - c) div 4096] = map (\<lambda>i. i + n) [0..<(e - (c + 4096 * n)) div 4096]"
    by (simp add: map_add_upt)
  then show ?thesis
    by (simp add: frames_between_def drop_map algebra_simps comp_def)
qed

lemma take_frames_between:
  assumes "4096 * n \<le> e - c"
  shows "take n (frames_between c e) = frames_between c (c + 4096 * n)"
proof -
  have "n \<le> (e - c) div 4096" using assms by arith
  then show ?thesis by (simp add: frames_between_def take_map)
qed

lemma frames_between_Cons:
  "c + 4096 \<le> e \<Longrightarrow> frames_between c e = c # frames_between (c + 4096) e"
  using drop_frames_between [of 1 e c] take_frames_between [of 1 e c]
    append_take_drop_id [of 1 "frames_between c e"]
  by (simp add: frames_between_def)

lemma hd_frames_between [simp]: "0 < n \<Longrightarrow> hd (frames_between c (c + 4096 * n)) = c"
  using frames_between_Cons [of c "c + 4096 * n"] by simp

lemma frames_of_run_between:
  "frames_of_run run =
     frames_between (unat (fr_start run)) (unat (fr_start run) + 4096 * unat (fr_frames run))"
  by (simp add: frames_of_run_def frames_between_def)

section \<open>The abstraction\<close>

definition good_run :: "frame_run \<Rightarrow> bool" where
  "good_run run \<longleftrightarrow> 4096 dvd unat (fr_start run) \<and> 0 < unat (fr_start run) \<and>
     0 < unat (fr_frames run) \<and>
     unat (fr_start run) + 4096 * unat (fr_frames run) + 4096 < 2 ^ 64"

definition fa_rep :: "phys \<Rightarrow> frame_allocator \<Rightarrow> nat list \<Rightarrow> nat list \<Rightarrow> nat list list \<Rightarrow> bool" where
  "fa_rep m fa stk cur rest \<longleftrightarrow>
     stack_in m (fa_free fa) stk \<and>
     4096 dvd unat (fa_cursor fa) \<and> 4096 dvd unat (fa_run_end fa) \<and> 0 < unat (fa_cursor fa) \<and>
     unat (fa_cursor fa) \<le> unat (fa_run_end fa) \<and> unat (fa_run_end fa) + 4096 < 2 ^ 64 \<and>
     cur = frames_between (unat (fa_cursor fa)) (unat (fa_run_end fa)) \<and>
     rest = map frames_of_run (remaining (fa_runs fa)) \<and>
     (\<forall>run \<in> set (remaining (fa_runs fa)). good_run run)"

text \<open>\<open>bump\<close> on lists: take from the current run, or push it on the stack and go to the next.\<close>

fun abump :: "nat \<Rightarrow> nat list \<Rightarrow> nat list \<Rightarrow> nat list list \<Rightarrow>
    nat list option \<times> nat list \<times> nat list \<times> nat list list" where
  "abump n stk cur [] =
     (if n \<le> length cur then (Some (take n cur), stk, drop n cur, [])
      else (None, rev cur @ stk, [], []))"
| "abump n stk cur (r # rs) =
     (if n \<le> length cur then (Some (take n cur), stk, drop n cur, r # rs)
      else abump n (rev cur @ stk) r rs)"

lemma abump_take:
  "n \<le> length cur \<Longrightarrow> abump n stk cur rest = (Some (take n cur), stk, drop n cur, rest)"
  by (cases rest) auto

lemma dvd_gap: "4096 dvd c \<Longrightarrow> 4096 dvd e \<Longrightarrow> c < e \<Longrightarrow> c + 4096 \<le> (e :: nat)"
  by (rule dvd_step)

lemma strand_refines:
  assumes "fa_rep m fa stk cur rest" and "distinct (stk @ cur)"
  shows "\<exists>m' fa'. strand m fa = Some (m', fa') \<and> fa_rep m' fa' (rev cur @ stk) [] rest \<and>
    fa_in_use fa' = fa_in_use fa \<and> fa_runs fa' = fa_runs fa \<and> fa_cursor fa' = fa_run_end fa'"
  using assms
proof (induction cur arbitrary: m fa stk)
  case Nil
  let ?c = "unat (fa_cursor fa)" and ?e = "unat (fa_run_end fa)"
  from Nil.prems have rep: "4096 dvd ?c" "4096 dvd ?e" "?c \<le> ?e" "?e + 4096 < 2 ^ 64"
    and "frames_between ?c ?e = []" by (auto simp: fa_rep_def)
  then have eq: "?c = ?e"
    using dvd_gap [of ?c ?e] frames_between_Cons [of ?c ?e] by (cases "?c < ?e") auto
  then have "checked_add (fa_cursor fa) PAGE_SIZE \<noteq> None" using rep by simp
  then obtain nxt where nxt: "checked_add (fa_cursor fa) PAGE_SIZE = Some nxt" by blast
  then have "\<not> nxt \<le> fa_run_end fa" using eq by (simp add: word_le_nat_alt)
  from strand_done [OF nxt this, of m] show ?case
    using Nil.prems eq by (auto simp: word_unat_eq_iff)
next
  case (Cons f cur)
  let ?c = "unat (fa_cursor fa)" and ?e = "unat (fa_run_end fa)"
  from Cons.prems have rep: "4096 dvd ?c" "4096 dvd ?e" "0 < ?c" "?c \<le> ?e" "?e + 4096 < 2 ^ 64"
    and fb: "frames_between ?c ?e = f # cur" by (auto simp: fa_rep_def)
  have less: "?c < ?e" using fb by (cases "?c < ?e") auto
  then have room: "?c + 4096 \<le> ?e" using rep dvd_gap by blast
  then have f: "f = ?c" and cur: "cur = frames_between (?c + 4096) ?e"
    using fb frames_between_Cons [of ?c ?e] by auto
  have "checked_add (fa_cursor fa) PAGE_SIZE \<noteq> None" using rep room by simp
  then obtain nxt where nxt: "checked_add (fa_cursor fa) PAGE_SIZE = Some nxt" by blast
  then have le: "nxt \<le> fa_run_end fa" using room by (simp add: word_le_nat_alt)
  let ?m = "m(fa_cursor fa := \<lparr>ff_next = fa_free fa\<rparr>)"
  let ?fa = "fa\<lparr>fa_cursor := nxt, fa_free := nonnull_new (fa_cursor fa)\<rparr>"
  have "fa_cursor fa \<noteq> 0" "unat (fa_cursor fa) \<notin> set stk" using rep Cons.prems(2) f by auto
  then have "fa_rep ?m ?fa (f # stk) cur rest"
    using Cons.prems nxt room rep cur f
    by (auto simp: fa_rep_def nonnull_new_def)
  moreover have "distinct ((f # stk) @ cur)" using Cons.prems(2) by auto
  ultimately obtain m' fa' where "strand ?m ?fa = Some (m', fa')"
    "fa_rep m' fa' (rev cur @ f # stk) [] rest" "fa_in_use fa' = fa_in_use ?fa"
    "fa_runs fa' = fa_runs ?fa" "fa_cursor fa' = fa_run_end fa'"
    using Cons.IH [of ?m ?fa "f # stk"] by blast
  then show ?case using strand_step [OF nxt le, of m] by auto
qed

lemma fa_rep_length:
  "fa_rep m fa stk cur rest \<Longrightarrow>
   4096 * length cur = unat (fa_run_end fa) - unat (fa_cursor fa)"
  by (auto simp: fa_rep_def)

lemma bump_loop_take:
  assumes rep: "fa_rep m fa stk cur rest" and w: "unat wanted = 4096 * n" and "n \<le> length cur"
  shows "\<exists>fa'. bump_loop wanted m fa = Some (Some (fa_cursor fa), m, fa') \<and>
    fa_rep m fa' stk (drop n cur) rest \<and> fa_in_use fa' = fa_in_use fa"
proof -
  let ?c = "unat (fa_cursor fa)" and ?e = "unat (fa_run_end fa)"
  have room: "4096 * n \<le> ?e - ?c"
    using fa_rep_length [OF rep] assms(3) by linarith
  then have guard: "wanted \<le> saturating_sub (fa_run_end fa) (fa_cursor fa)"
    using w by (simp add: word_le_nat_alt)
  have "?c + unat wanted < 2 ^ 64" using rep room w by (auto simp: fa_rep_def)
  then obtain c' where c': "checked_add (fa_cursor fa) wanted = Some c'"
    using checked_add_None_iff [of "fa_cursor fa" wanted]
    by (cases "checked_add (fa_cursor fa) wanted") auto
  moreover from c' have "fa_rep m (fa\<lparr>fa_cursor := c'\<rparr>) stk (drop n cur) rest"
    using rep room w by (auto simp: fa_rep_def drop_frames_between)
  ultimately show ?thesis
    using guard by (subst bump_loop.simps) (simp add: Let_def del: checked_add_Some_iff)
qed

lemma bump_loop_short:
  assumes "fa_rep m fa stk cur rest" and "unat wanted = 4096 * n" and "\<not> n \<le> length cur"
  shows "\<not> wanted \<le> saturating_sub (fa_run_end fa) (fa_cursor fa)"
  using fa_rep_length [OF assms(1)] assms(2,3) by (simp add: word_le_nat_alt)

lemma fa_rep_next_run:
  assumes "fa_rep m fa stk [] (r # rs)"
  obtains run runs span run_end where "usable_next (fa_runs fa) = (Some run, runs)"
    and "checked_mul (fr_frames run) PAGE_SIZE = Some span"
    and "checked_add (fr_start run) span = Some run_end"
    and "fa_rep m (fa\<lparr>fa_runs := runs, fa_cursor := fr_start run, fa_run_end := run_end\<rparr>) stk r rs"
proof -
  from assms obtain run rruns where rem: "remaining (fa_runs fa) = run # rruns"
    and r: "r = frames_of_run run" "rs = map frames_of_run rruns"
    by (auto simp: fa_rep_def)
  then obtain runs where runs: "usable_next (fa_runs fa) = (Some run, runs)" "remaining runs = rruns"
    by (auto elim: usable_next_Some)
  have good: "good_run run" and goods: "\<forall>run \<in> set rruns. good_run run"
    using assms rem by (auto simp: fa_rep_def)
  obtain span where span: "checked_mul (fr_frames run) PAGE_SIZE = Some span"
    using good checked_mul_None_iff [of "fr_frames run" PAGE_SIZE]
    by (cases "checked_mul (fr_frames run) PAGE_SIZE") (auto simp: good_run_def)
  obtain run_end where run_end: "checked_add (fr_start run) span = Some run_end"
    using good span checked_add_None_iff [of "fr_start run" span]
    by (cases "checked_add (fr_start run) span") (auto simp: good_run_def)
  have "fa_rep m (fa\<lparr>fa_runs := runs, fa_cursor := fr_start run, fa_run_end := run_end\<rparr>) stk r rs"
    using assms good goods r runs span run_end
    by (auto simp: fa_rep_def good_run_def frames_of_run_between algebra_simps)
  then show ?thesis using that runs(1) span run_end by blast
qed

lemma usable_next_exhausted:
  assumes "remaining u = []"
  obtains u' where "usable_next u = (None, u')" and "remaining u' = []"
proof -
  obtain r u' where u': "usable_next u = (r, u')" by (cases "usable_next u")
  from usable_next_spec [OF u'] assms u' show ?thesis by (auto intro: that)
qed

lemma bump_loop_refines:
  assumes "fa_rep m fa stk cur rest" and "distinct (stk @ cur @ concat rest)"
    and w: "unat wanted = 4096 * n" and n: "0 < n"
    and "abump n stk cur rest = (r, stk', cur', rest')"
  shows "\<exists>w m' fa'. bump_loop wanted m fa = Some (w, m', fa') \<and> fa_rep m' fa' stk' cur' rest' \<and>
    fa_in_use fa' = fa_in_use fa \<and> map_option unat w = map_option hd r"
proof -
  have take: "\<exists>w m' fa'. bump_loop wanted m fa = Some (w, m', fa') \<and>
      fa_rep m' fa' stk' cur' rest' \<and> fa_in_use fa' = fa_in_use fa \<and>
      map_option unat w = map_option hd r"
    if h: "fa_rep m fa stk cur rest" "n \<le> length cur" "abump n stk cur rest = (r, stk', cur', rest')"
    for m fa stk cur rest
  proof -
    have "cur \<noteq> []" using h(2) n by auto
    then have "hd (take n cur) = unat (fa_cursor fa)"
      using h(1) n by (auto simp: fa_rep_def frames_between_def hd_map hd_upt)
    then show ?thesis
      using bump_loop_take [OF h(1) w h(2)] h(2,3) by (auto simp: abump_take)
  qed
  show ?thesis
    using assms(1,2,5)
  proof (induction rest arbitrary: m fa stk cur)
    case Nil
    show ?case
    proof (cases "n \<le> length cur")
      case True
      then show ?thesis using take Nil.prems by blast
    next
      case False
      note short = bump_loop_short [OF Nil.prems(1) w False]
      obtain m1 fa1 where s: "strand m fa = Some (m1, fa1)" "fa_rep m1 fa1 (rev cur @ stk) [] []"
        "fa_in_use fa1 = fa_in_use fa"
        using strand_refines [OF Nil.prems(1)] Nil.prems(2) by auto
      then obtain u' where u': "usable_next (fa_runs fa1) = (None, u')" "remaining u' = []"
        by (auto simp: fa_rep_def elim: usable_next_exhausted)
      then have "fa_rep m1 (fa1\<lparr>fa_runs := u'\<rparr>) (rev cur @ stk) [] []"
        using s(2) by (auto simp: fa_rep_def)
      with s(1,3) u'(1) short False Nil.prems(3) show ?thesis
        by (subst bump_loop.simps) auto
    qed
  next
    case (Cons r1 rest)
    show ?case
    proof (cases "n \<le> length cur")
      case True
      then show ?thesis using take Cons.prems by blast
    next
      case False
      note short = bump_loop_short [OF Cons.prems(1) w False]
      obtain m1 fa1 where s: "strand m fa = Some (m1, fa1)"
        "fa_rep m1 fa1 (rev cur @ stk) [] (r1 # rest)" "fa_in_use fa1 = fa_in_use fa"
        using strand_refines [OF Cons.prems(1)] Cons.prems(2) by (metis append_assoc distinct_append)
      from s(2) obtain run runs span run_end where
        next_run: "usable_next (fa_runs fa1) = (Some run, runs)"
          "checked_mul (fr_frames run) PAGE_SIZE = Some span"
          "checked_add (fr_start run) span = Some run_end" and
        rep: "fa_rep m1 (fa1\<lparr>fa_runs := runs, fa_cursor := fr_start run, fa_run_end := run_end\<rparr>)
          (rev cur @ stk) r1 rest"
        by (rule fa_rep_next_run)
      have "bump_loop wanted m fa = bump_loop wanted m1
          (fa1\<lparr>fa_runs := runs, fa_cursor := fr_start run, fa_run_end := run_end\<rparr>)"
        using short s(1) next_run
        by (subst bump_loop.simps) (simp del: checked_mul_Some_iff checked_add_Some_iff)
      moreover have "distinct ((rev cur @ stk) @ r1 @ concat rest)" using Cons.prems(2) by auto
      moreover have "abump n (rev cur @ stk) r1 rest = (r, stk', cur', rest')"
        using Cons.prems(3) False by simp
      ultimately show ?thesis using Cons.IH [OF rep] s(3) by simp
    qed
  qed
qed

text \<open>What a list-level \<open>bump\<close> does to the frames it holds.\<close>

lemma mset_take_drop: "mset (take n xs) + mset (drop n xs) = mset xs"
  by (simp flip: mset_append)

lemma abump_frames:
  assumes "abump n stk cur rest = (r, stk', cur', rest')"
  shows "mset stk + mset cur + mset (concat rest) =
    (case r of None \<Rightarrow> {#} | Some fs \<Rightarrow> mset fs) + mset stk' + mset cur' + mset (concat rest')"
  using assms
proof (induction n stk cur rest rule: abump.induct)
  case (1 n stk cur)
  then show ?case
    using mset_take_drop [of n cur] by (auto simp: ac_simps split: if_splits)
next
  case (2 n stk cur r1 rs)
  then show ?case
    using mset_take_drop [of n cur] by (auto simp: ac_simps split: if_splits)
qed

lemma abump_None: "abump n stk cur rest = (None, stk', cur', rest') \<Longrightarrow>
    cur' = [] \<and> rest' = [] \<and> (\<forall>r \<in> set (cur # rest). length r < n)"
  by (induction n stk cur rest rule: abump.induct) (auto split: if_splits)

lemma abump_Some: "abump n stk cur rest = (Some fs, stk', cur', rest') \<Longrightarrow>
    length fs = n \<and> (\<exists>r \<in> set (cur # rest). fs = take n r)"
  by (induction n stk cur rest rule: abump.induct) (auto split: if_splits)

section \<open>The methods of the allocator\<close>

lemma fa_rep_runs_nonempty:
  "fa_rep m fa stk cur rest \<Longrightarrow> r \<in> set rest \<Longrightarrow> r \<noteq> []"
  by (auto simp: fa_rep_def good_run_def frames_of_run_def)

lemma checked_add_Suc: "unat a + unat b < 2 ^ LENGTH('a) \<Longrightarrow> checked_add a b = Some (a + b :: 'a::len word)"
  by (simp add: checked_add_def)

lemma bump_one: "bump 1 m fa = bump_loop PAGE_SIZE m fa"
proof -
  have "checked_mul 1 PAGE_SIZE = Some PAGE_SIZE" by simp
  then show ?thesis by (simp add: bump_def del: checked_mul_Some_iff)
qed

text \<open>With nothing on the stack, taking one frame from the cursor is a pop.\<close>

lemma abump_one:
  assumes "\<forall>r \<in> set rest. r \<noteq> []"
  shows "abump 1 [] cur rest =
    (case cur @ concat rest of
       [] \<Rightarrow> (None, [], [], [])
     | f # _ \<Rightarrow> (if cur = [] then (Some [f], [], tl (hd rest), tl rest) else (Some [f], [], tl cur, rest)))"
  using assms
proof (cases cur)
  case Nil
  then show ?thesis
  proof (cases rest)
    case (Cons r rs)
    with assms Nil obtain f r' where "r = f # r'" by (cases r) auto
    then show ?thesis using Nil Cons by (cases rs) auto
  qed simp
next
  case (Cons f cur')
  then show ?thesis by (cases rest) auto
qed

lemma fa_alloc_spec:
  assumes rep: "fa_rep m fa stk cur rest" and dist: "distinct (stk @ cur @ concat rest)"
    and use: "unat (fa_in_use fa) + 1 < 2 ^ 64"
  shows "case stk @ cur @ concat rest of
      [] \<Rightarrow> \<exists>m' fa'. fa_alloc m fa = Some (None, m', fa') \<and> fa_rep m' fa' [] [] [] \<and>
        fa_in_use fa' = fa_in_use fa
    | f # fs \<Rightarrow> \<exists>w m' fa' stk' cur' rest'. fa_alloc m fa = Some (Some w, m', fa') \<and> unat w = f \<and>
        fa_rep m' fa' stk' cur' rest' \<and> stk' @ cur' @ concat rest' = fs \<and>
        unat (fa_in_use fa') = unat (fa_in_use fa) + 1"
proof (cases stk)
  case (Cons f stk')
  from rep Cons obtain w where w: "fa_free fa = Some w" "unat w = f" "w \<noteq> 0"
    "stack_in m (ff_next (m w)) stk'"
    by (auto simp: fa_rep_def split: option.splits)
  let ?fa = "fa\<lparr>fa_free := ff_next (m w), fa_in_use := fa_in_use fa + 1\<rparr>"
  have add: "checked_add (fa_in_use fa) 1 = Some (fa_in_use fa + 1)"
    using use by (intro checked_add_Suc) simp
  then have "fa_alloc m fa = Some (Some w, m, ?fa)"
    using w by (simp add: fa_alloc_def add del: checked_add_Some_iff)
  moreover have "fa_rep m ?fa stk' cur rest" using rep w by (simp add: fa_rep_def)
  moreover have "unat (fa_in_use fa + 1) = unat (fa_in_use fa) + 1"
    using use by (simp add: unat_add_small)
  ultimately show ?thesis using Cons w(2) by simp blast
next
  case Nil
  have free: "fa_free fa = None" using rep Nil by (simp add: fa_rep_def)
  obtain r stk' cur' rest' where ab: "abump 1 [] cur rest = (r, stk', cur', rest')"
    by (cases "abump 1 [] cur rest") auto
  have ne: "\<forall>r \<in> set rest. r \<noteq> []" using fa_rep_runs_nonempty [OF rep] by blast
  from bump_loop_refines [OF rep dist, of PAGE_SIZE 1] ab Nil
  obtain w m' fa' where b: "bump 1 m fa = Some (w, m', fa')" "fa_rep m' fa' stk' cur' rest'"
    "fa_in_use fa' = fa_in_use fa" "map_option unat w = map_option hd r"
    by (auto simp: bump_one)
  show ?thesis
  proof (cases "cur @ concat rest")
    case Nil': Nil
    then have e: "cur = []" "rest = []" using ne by (auto intro: list.set_cases [of _ rest])
    then have "r = None" "stk' = []" "cur' = []" "rest' = []" using ab by auto
    then show ?thesis using Nil e b free by (auto simp: fa_alloc_def)
  next
    case (Cons f fs)
    have r: "r = Some [f] \<and> stk' = [] \<and> cur' @ concat rest' = fs"
    proof (cases cur)
      case Nil'': Nil
      then obtain r1 rs where "rest = r1 # rs" using Cons by (cases rest) auto
      moreover from this obtain g gs where "r1 = g # gs" using ne by (cases r1) auto
      ultimately show ?thesis
        using ab abump_one [OF ne, of cur] Nil'' Cons by auto
    next
      case Cons': (Cons g gs)
      then show ?thesis
        using ab abump_one [OF ne, of cur] Cons by auto
    qed
    then obtain w' where w': "w = Some w'" "unat w' = f" using b(4) by auto
    have add: "checked_add (fa_in_use fa) 1 = Some (fa_in_use fa + 1)"
      using use by (intro checked_add_Suc) simp
    then have "fa_alloc m fa = Some (Some w', m', fa'\<lparr>fa_in_use := fa_in_use fa + 1\<rparr>)"
      using b w' free by (simp add: fa_alloc_def add del: checked_add_Some_iff)
    moreover have "fa_rep m' (fa'\<lparr>fa_in_use := fa_in_use fa + 1\<rparr>) stk' cur' rest'"
      using b(2) by (simp add: fa_rep_def)
    moreover have "unat (fa_in_use fa + 1) = unat (fa_in_use fa) + 1"
      using use by (simp add: unat_add_small)
    ultimately show ?thesis using Nil Cons w' r by simp blast
  qed
qed

lemma fa_dealloc_spec:
  assumes "fa_rep m fa stk cur rest" and "unat a \<notin> set stk" and "a \<noteq> 0"
  shows "\<exists>m' fa'. fa_dealloc a m fa = Some ((), m', fa') \<and> fa_rep m' fa' (unat a # stk) cur rest \<and>
    unat (fa_in_use fa') = unat (fa_in_use fa) - 1"
  using assms by (simp add: fa_dealloc_def push_free_def nonnull_new_def fa_rep_def)

lemma fa_alloc_contiguous_spec:
  assumes rep: "fa_rep m fa stk cur rest" and dist: "distinct (stk @ cur @ concat rest)"
    and use: "unat (fa_in_use fa) + unat n < 2 ^ 64" and n: "0 < unat n" "4096 * unat n < 2 ^ 64"
    and ab: "abump (unat n) stk cur rest = (r, stk', cur', rest')"
  shows "\<exists>w m' fa'. fa_alloc_contiguous n m fa = Some (w, m', fa') \<and>
    fa_rep m' fa' stk' cur' rest' \<and> map_option unat w = map_option hd r \<and>
    unat (fa_in_use fa') = unat (fa_in_use fa) + (if w = None then 0 else unat n)"
proof -
  obtain wanted where wanted: "checked_mul n PAGE_SIZE = Some wanted"
    using n checked_mul_None_iff [of n PAGE_SIZE] by (cases "checked_mul n PAGE_SIZE") auto
  then have "unat wanted = 4096 * unat n" by simp
  from bump_loop_refines [OF rep dist this n(1) ab] wanted
  obtain w m' fa' where b: "bump n m fa = Some (w, m', fa')" "fa_rep m' fa' stk' cur' rest'"
    "fa_in_use fa' = fa_in_use fa" "map_option unat w = map_option hd r"
    by (auto simp: bump_def simp del: checked_mul_Some_iff)
  have add: "checked_add (fa_in_use fa) n = Some (fa_in_use fa + n)"
    "unat (fa_in_use fa + n) = unat (fa_in_use fa) + unat n"
    using use checked_add_Suc [of "fa_in_use fa" n] by (simp_all add: unat_add_small)
  show ?thesis
  proof (cases w)
    case None
    then show ?thesis using b by (auto simp: fa_alloc_contiguous_def)
  next
    case (Some a)
    then show ?thesis using b add
      by (auto simp: fa_alloc_contiguous_def fa_rep_def simp del: checked_add_Some_iff)
  qed
qed

section \<open>The public functions\<close>

text \<open>The frames a state can still hand out.\<close>

definition free_frames :: "'a frame_state_scheme \<Rightarrow> nat set" where
  "free_frames s =
     (case st_FRAMES s of
        None \<Rightarrow> {}
      | Some fa \<Rightarrow>
          {f. on_stack (st_phys s) (fa_free fa) f} \<union>
          set (frames_between (unat (fa_cursor fa)) (unat (fa_run_end fa))) \<union>
          (\<Union>run \<in> set (remaining (fa_runs fa)). set (frames_of_run run)))"

text \<open>The runs a contiguous request can still be served from: the cursor's, and those after it.\<close>

definition open_runs :: "'a frame_state_scheme \<Rightarrow> nat list list" where
  "open_runs s =
     (case st_FRAMES s of
        None \<Rightarrow> []
      | Some fa \<Rightarrow> frames_between (unat (fa_cursor fa)) (unat (fa_run_end fa)) #
          map frames_of_run (remaining (fa_runs fa)))"

text \<open>
  \<open>frame_state_is s fa stk cur rest\<close>: the static \<open>FRAMES\<close> is initialised, represents the lists
  and holds no frame twice. \<open>frame_inv U s\<close>: in addition the free frames are frames of the
  memory map \<open>U\<close> and \<open>in_use\<close> counts the others.
\<close>

definition frame_state_is ::
    "'a frame_state_scheme \<Rightarrow> frame_allocator \<Rightarrow> nat list \<Rightarrow> nat list \<Rightarrow> nat list list \<Rightarrow> bool" where
  "frame_state_is s fa stk cur rest \<longleftrightarrow>
     st_FRAMES s = Some fa \<and> fa_rep (st_phys s) fa stk cur rest \<and>
     distinct (stk @ cur @ concat rest)"

definition frame_inv :: "nat set \<Rightarrow> 'a frame_state_scheme \<Rightarrow> bool" where
  "frame_inv U s \<longleftrightarrow>
     (\<exists>fa stk cur rest. frame_state_is s fa stk cur rest \<and>
        set (stk @ cur @ concat rest) \<subseteq> U \<and> finite U \<and> card U < 2 ^ 60 \<and> (\<forall>f \<in> U. 0 < f \<and> 4096 dvd f) \<and>
        unat (fa_in_use fa) = card (U - set (stk @ cur @ concat rest)))"

lemma free_frames_is:
  "frame_state_is s fa stk cur rest \<Longrightarrow> free_frames s = set (stk @ cur @ concat rest)"
  by (auto simp: frame_state_is_def free_frames_def fa_rep_def on_stack_set)

lemma open_runs_is: "frame_state_is s fa stk cur rest \<Longrightarrow> open_runs s = cur # rest"
  by (simp add: frame_state_is_def open_runs_def fa_rep_def)

lemma with_frames_returns:
  assumes "st_FRAMES s = Some fa" and "f (st_phys s) fa = Some (r, m, fa')"
  shows "with_frames f s = Some (Some r, s\<lparr>st_phys := m, st_FRAMES := Some fa'\<rparr>)"
proof -
  let ?g = "\<lambda>s. case st_FRAMES s of None \<Rightarrow> Some (None, s)
     | Some fa \<Rightarrow> do { (r, m, fa') \<leftarrow> f (st_phys s) fa;
         Some (Some r, s\<lparr>st_phys := m, st_FRAMES := Some fa'\<rparr>) }"
  have "?g (cli s) = Some (Some r, (cli s)\<lparr>st_phys := m, st_FRAMES := Some fa'\<rparr>)"
    using assms by (simp add: cli_def)
  from without_interrupts_returns [of ?g, OF this]
  show ?thesis by (simp add: with_frames_def cli_def)
qed

text \<open>The counter after \<open>k\<close> of the free frames were handed out, or one was returned.\<close>

lemma card_handed_out:
  "finite U \<Longrightarrow> A \<subseteq> U \<Longrightarrow> B \<subseteq> A \<Longrightarrow> card (U - (A - B)) = card (U - A) + card B"
proof -
  assume h: "finite U" "A \<subseteq> U" "B \<subseteq> A"
  then have "U - (A - B) = (U - A) \<union> B" "(U - A) \<inter> B = {}" by auto
  moreover have "finite (U - A)" "finite B" using h by (auto intro: finite_subset)
  ultimately show ?thesis by (simp add: card_Un_disjoint)
qed

lemma card_returned:
  "finite U \<Longrightarrow> f \<in> U \<Longrightarrow> f \<notin> A \<Longrightarrow> card (U - insert f A) = card (U - A) - 1"
  by (metis DiffI Diff_insert card_Diff_singleton)

lemma frame_invE:
  assumes "frame_inv U s"
  obtains fa stk cur rest where "frame_state_is s fa stk cur rest"
    and "set (stk @ cur @ concat rest) \<subseteq> U" and "finite U" and "card U < 2 ^ 60"
    and "\<forall>f \<in> U. 0 < f \<and> 4096 dvd f"
    and "unat (fa_in_use fa) = card (U - set (stk @ cur @ concat rest))"
    and "unat (fa_in_use fa) < 2 ^ 60"
proof -
  from assms obtain fa stk cur rest where h: "frame_state_is s fa stk cur rest"
    "set (stk @ cur @ concat rest) \<subseteq> U" "finite U" "card U < 2 ^ 60" "\<forall>f \<in> U. 0 < f \<and> 4096 dvd f"
    "unat (fa_in_use fa) = card (U - set (stk @ cur @ concat rest))"
    unfolding frame_inv_def by blast
  have "card (U - set (stk @ cur @ concat rest)) \<le> card U" using h(3) by (intro card_mono) auto
  then show ?thesis using that h by simp
qed

lemma frame_state_isI:
  "fa_rep m fa stk cur rest \<Longrightarrow> distinct (stk @ cur @ concat rest) \<Longrightarrow>
   frame_state_is (s\<lparr>st_phys := m, st_FRAMES := Some fa\<rparr>) fa stk cur rest"
  by (simp add: frame_state_is_def)

lemma alloc_frame_spec:
  assumes "frame_inv U s"
  shows "if free_frames s = {}
    then \<exists>s'. alloc_frame s = Some (None, s') \<and> frame_inv U s' \<and> free_frames s' = {}
    else \<exists>w s'. alloc_frame s = Some (Some w, s') \<and> frame_inv U s' \<and> unat w \<in> free_frames s \<and>
      free_frames s' = free_frames s - {unat w}"
proof -
  from assms obtain fa stk cur rest where h: "frame_state_is s fa stk cur rest"
    "set (stk @ cur @ concat rest) \<subseteq> U" "finite U" "card U < 2 ^ 60" "\<forall>f \<in> U. 0 < f \<and> 4096 dvd f"
    "unat (fa_in_use fa) = card (U - set (stk @ cur @ concat rest))" "unat (fa_in_use fa) < 2 ^ 60"
    by (rule frame_invE)
  then have st: "st_FRAMES s = Some fa" "fa_rep (st_phys s) fa stk cur rest"
    "distinct (stk @ cur @ concat rest)" by (auto simp: frame_state_is_def)
  have free: "free_frames s = set (stk @ cur @ concat rest)" by (rule free_frames_is [OF h(1)])
  have use: "unat (fa_in_use fa) + 1 < 2 ^ 64" using h(7) by simp
  show ?thesis
  proof (cases "stk @ cur @ concat rest")
    case Nil
    with fa_alloc_spec [OF st(2,3) use] obtain m' fa' where
      r: "fa_alloc (st_phys s) fa = Some (None, m', fa')" "fa_rep m' fa' [] [] []"
        "fa_in_use fa' = fa_in_use fa" by auto
    let ?s = "s\<lparr>st_phys := m', st_FRAMES := Some fa'\<rparr>"
    have is': "frame_state_is ?s fa' [] [] []" using r(2) by (rule frame_state_isI) simp
    have "alloc_frame s = Some (None, ?s)"
      using with_frames_returns [where f = fa_alloc, OF st(1) r(1)] by (simp add: alloc_frame_def flatten_def)
    moreover have "frame_inv U ?s" using is' h r(3) Nil unfolding frame_inv_def by fastforce
    ultimately show ?thesis using free_frames_is [OF is'] free Nil by auto
  next
    case (Cons f fs)
    with fa_alloc_spec [OF st(2,3) use] obtain w m' fa' stk' cur' rest' where
      r: "fa_alloc (st_phys s) fa = Some (Some w, m', fa')" "unat w = f"
        "fa_rep m' fa' stk' cur' rest'" "stk' @ cur' @ concat rest' = fs"
        "unat (fa_in_use fa') = unat (fa_in_use fa) + 1" by auto
    let ?s = "s\<lparr>st_phys := m', st_FRAMES := Some fa'\<rparr>"
    have dist: "distinct (f # fs)" using st(3) Cons by simp
    then have is': "frame_state_is ?s fa' stk' cur' rest'"
      using r(3,4) by (intro frame_state_isI) auto
    have "alloc_frame s = Some (Some w, ?s)"
      using with_frames_returns [where f = fa_alloc, OF st(1) r(1)] by (simp add: alloc_frame_def flatten_def)
    moreover have "frame_inv U ?s"
    proof -
      have "set (f # fs) - {f} = set fs" using dist by auto
      then have "card (U - set fs) = card (U - set (f # fs)) + 1"
        using card_handed_out [of U "set (f # fs)" "{f}"] h(2,3) Cons by auto
      then show ?thesis using is' h r(4,5) Cons unfolding frame_inv_def
        by (intro exI [of _ fa'] exI [of _ stk'] exI [of _ cur'] exI [of _ rest']) auto
    qed
    moreover have "free_frames ?s = free_frames s - {unat w}"
      using free_frames_is [OF is'] free r(2,4) Cons dist by auto
    ultimately show ?thesis using free r(2) Cons by auto
  qed
qed

lemma dealloc_frame_spec:
  assumes "frame_inv U s" and "unat a \<in> U" and "unat a \<notin> free_frames s"
  shows "\<exists>s'. dealloc_frame a s = Some s' \<and> frame_inv U s' \<and>
    free_frames s' = insert (unat a) (free_frames s)"
proof -
  from assms(1) obtain fa stk cur rest where h: "frame_state_is s fa stk cur rest"
    "set (stk @ cur @ concat rest) \<subseteq> U" "finite U" "card U < 2 ^ 60" "\<forall>f \<in> U. 0 < f \<and> 4096 dvd f"
    "unat (fa_in_use fa) = card (U - set (stk @ cur @ concat rest))" "unat (fa_in_use fa) < 2 ^ 60"
    by (rule frame_invE)
  then have st: "st_FRAMES s = Some fa" "fa_rep (st_phys s) fa stk cur rest"
    "distinct (stk @ cur @ concat rest)" by (auto simp: frame_state_is_def)
  have free: "free_frames s = set (stk @ cur @ concat rest)" by (rule free_frames_is [OF h(1)])
  have "a \<noteq> 0" using assms(2) h(5) by auto
  moreover have "unat a \<notin> set stk" using assms(3) free by auto
  ultimately obtain m' fa' where r: "fa_dealloc a (st_phys s) fa = Some ((), m', fa')"
    "fa_rep m' fa' (unat a # stk) cur rest" "unat (fa_in_use fa') = unat (fa_in_use fa) - 1"
    using fa_dealloc_spec [OF st(2)] by blast
  let ?s = "s\<lparr>st_phys := m', st_FRAMES := Some fa'\<rparr>"
  have dist: "distinct ((unat a # stk) @ cur @ concat rest)" using st(3) assms(3) free by auto
  have is': "frame_state_is ?s fa' (unat a # stk) cur rest" using r(2) dist by (rule frame_state_isI)
  have "dealloc_frame a s = Some ?s"
    using with_frames_returns [where f = "fa_dealloc a", OF st(1) r(1)] by (simp add: dealloc_frame_def)
  moreover have "frame_inv U ?s"
    using is' h r(3) assms(2,3) free card_returned [OF h(3) assms(2), of "set (stk @ cur @ concat rest)"]
    unfolding frame_inv_def
    by (intro exI [of _ fa'] exI [of _ "unat a # stk"] exI [of _ cur] exI [of _ rest]) auto
  ultimately show ?thesis using free_frames_is [OF is'] free by auto
qed

text \<open>A contiguous request: the frames handed out, or none and nothing lost.\<close>

lemma take_run_consecutive:
  assumes "fa_rep m fa stk cur rest" and "r \<in> set (cur # rest)" and "n \<le> length r" and "0 < n"
  shows "take n r = frames_between (hd r) (hd r + 4096 * n)"
proof -
  have "\<exists>c e. r = frames_between c e"
    using assms(1,2) by (auto simp: fa_rep_def frames_of_run_between)
  then obtain c e where r: "r = frames_between c e" by blast
  then have "4096 * n \<le> e - c" using assms(3) by simp
  moreover have "hd r = c" using assms(3,4) r by (auto simp: frames_between_def hd_map hd_upt)
  ultimately show ?thesis using r take_frames_between by simp
qed

lemma alloc_contiguous_spec:
  assumes "frame_inv U s" and n: "0 < unat n" "unat n < 2 ^ 50"
  shows "\<exists>w s'. alloc_contiguous n s = Some (w, s') \<and> frame_inv U s' \<and>
    (w = None \<longleftrightarrow> (\<forall>run \<in> set (open_runs s). length run < unat n)) \<and>
    (case w of
       None \<Rightarrow> free_frames s' = free_frames s
     | Some a \<Rightarrow> set (frames_between (unat a) (unat a + 4096 * unat n)) \<subseteq> free_frames s \<and>
         free_frames s' = free_frames s - set (frames_between (unat a) (unat a + 4096 * unat n)))"
proof -
  from assms(1) obtain fa stk cur rest where h: "frame_state_is s fa stk cur rest"
    "set (stk @ cur @ concat rest) \<subseteq> U" "finite U" "card U < 2 ^ 60" "\<forall>f \<in> U. 0 < f \<and> 4096 dvd f"
    "unat (fa_in_use fa) = card (U - set (stk @ cur @ concat rest))" "unat (fa_in_use fa) < 2 ^ 60"
    by (rule frame_invE)
  then have st: "st_FRAMES s = Some fa" "fa_rep (st_phys s) fa stk cur rest"
    "distinct (stk @ cur @ concat rest)" by (auto simp: frame_state_is_def)
  have free: "free_frames s = set (stk @ cur @ concat rest)" by (rule free_frames_is [OF h(1)])
  obtain r stk' cur' rest' where ab: "abump (unat n) stk cur rest = (r, stk', cur', rest')"
    by (cases "abump (unat n) stk cur rest") auto
  have "unat (fa_in_use fa) + unat n < 2 ^ 64" "4096 * unat n < 2 ^ 64" using h(7) n by auto
  from fa_alloc_contiguous_spec [OF st(2,3) this(1) n(1) this(2) ab]
  obtain w m' fa' where c: "fa_alloc_contiguous n (st_phys s) fa = Some (w, m', fa')"
    "fa_rep m' fa' stk' cur' rest'" "map_option unat w = map_option hd r"
    "unat (fa_in_use fa') = unat (fa_in_use fa) + (if w = None then 0 else unat n)" by blast
  define taken where "taken = (case r of None \<Rightarrow> [] | Some fs \<Rightarrow> fs)"
  have ms: "mset (stk @ cur @ concat rest) = mset (taken @ stk' @ cur' @ concat rest')"
    using abump_frames [OF ab] by (auto simp: taken_def ac_simps split: option.splits)
  then have dist: "distinct (taken @ stk' @ cur' @ concat rest')"
    using st(3) mset_eq_imp_distinct_iff by blast
  have sets: "set (stk @ cur @ concat rest) = set taken \<union> set (stk' @ cur' @ concat rest')"
    using mset_eq_setD [OF ms] by auto
  let ?s = "s\<lparr>st_phys := m', st_FRAMES := Some fa'\<rparr>"
  have is': "frame_state_is ?s fa' stk' cur' rest'"
    using c(2) dist by (intro frame_state_isI) auto
  have ret: "alloc_contiguous n s = Some (w, ?s)"
    using with_frames_returns [where f = "fa_alloc_contiguous n", OF st(1) c(1)]
    by (simp add: alloc_contiguous_def flatten_def)
  have free': "free_frames ?s = free_frames s - set taken" "set taken \<subseteq> free_frames s"
    using free free_frames_is [OF is'] sets dist by auto
  have len: "length taken = (if w = None then 0 else unat n)"
    using c(3) abump_Some [of "unat n" stk cur rest] ab by (auto simp: taken_def split: option.splits)
  have "card (U - set (stk' @ cur' @ concat rest')) =
      card (U - set (stk @ cur @ concat rest)) + length taken"
    using card_handed_out [OF h(3,2), of "set taken"] free free' free_frames_is [OF is'] dist
    by (simp add: distinct_card)
  then have "frame_inv U ?s"
    using is' h free free' free_frames_is [OF is'] c(4) len unfolding frame_inv_def
    by (intro exI [of _ fa'] exI [of _ stk'] exI [of _ cur'] exI [of _ rest']) auto
  moreover have "taken = frames_between (unat a) (unat a + 4096 * unat n)" if "w = Some a" for a
  proof -
    from that c(3) obtain fs where fs: "r = Some fs" "unat a = hd fs" by (cases r) auto
    from abump_Some [OF ab [unfolded fs(1)]]
    obtain run where run: "run \<in> set (cur # rest)" "fs = take (unat n) run" "length fs = unat n"
      by blast
    then have "unat n \<le> length run" by auto
    from take_run_consecutive [OF st(2) run(1) this n(1)] run n(1) fs show ?thesis
      by (auto simp: hd_take taken_def)
  qed
  moreover have "w = None \<longleftrightarrow> (\<forall>run \<in> set (open_runs s). length run < unat n)"
  proof (cases r)
    case None
    then show ?thesis using abump_None ab c(3) open_runs_is [OF h(1)] by fastforce
  next
    case (Some fs)
    then obtain run where "run \<in> set (cur # rest)" "unat n \<le> length run"
      using abump_Some [of "unat n" stk cur rest] ab by fastforce
    then show ?thesis using Some c(3) open_runs_is [OF h(1)] by auto
  qed
  ultimately show ?thesis
    using ret free' c(3) by (intro exI [of _ w] exI [of _ ?s]) (auto simp: taken_def split: option.splits)
qed

section \<open>Initialisation\<close>

text \<open>
  A memory map the allocator can serve: its usable frames are distinct (UEFI regions do not
  overlap), and none of them is the last page of the address space or the one before it.
\<close>

definition map_ok :: "memory_region list \<Rightarrow> bool" where
  "map_ok rs \<longleftrightarrow> distinct (map_frames rs) \<and> (\<forall>f \<in> set (map_frames rs). f + 8192 < 2 ^ 64)"

lemma map_frames_aligned: "f \<in> set (map_frames rs) \<Longrightarrow> 0 < f \<and> 4096 dvd f"
  by (auto simp: set_map_frames whole_frames_def)

lemma runs_of_region: "run \<in> set (runs_of rs) \<Longrightarrow> \<exists>r \<in> set rs. region_run r = Some run"
  by (induction rs) (auto split: option.splits)

lemma good_runs_of:
  assumes "map_ok rs" and "run \<in> set (runs_of rs)"
  shows "good_run run"
proof -
  from runs_of_region [OF assms(2)] obtain r where r: "region_run r = Some run" by blast
  let ?last = "unat (fr_start run) + 4096 * (unat (fr_frames run) - 1)"
  have pos: "0 < unat (fr_frames run)" using r by (rule frames_of_run_nonempty)
  then have "?last \<in> set (frames_of_run run)" by (auto simp: frames_of_run_def)
  then have "?last \<in> set (map_frames rs)" using assms(2) by (auto simp: map_frames_def)
  then have "?last + 8192 < 2 ^ 64" using assms(1) by (auto simp: map_ok_def)
  moreover have "4096 * unat (fr_frames run) = 4096 * (unat (fr_frames run) - 1) + 4096"
    using pos by (simp add: algebra_simps)
  moreover have "unat (fr_start run) \<in> set (frames_of_run run)"
    using pos by (auto simp: frames_of_run_def intro: image_eqI [of _ _ 0])
  then have "unat (fr_start run) \<in> set (map_frames rs)" using assms(2) by (auto simp: map_frames_def)
  then have "0 < unat (fr_start run) \<and> 4096 dvd unat (fr_start run)" by (rule map_frames_aligned)
  ultimately show ?thesis using pos unfolding good_run_def by linarith
qed

lemma card_map_frames:
  assumes "map_ok rs"
  shows "length (map_frames rs) < 2 ^ 60"
proof -
  have "set (map_frames rs) \<subseteq> (\<lambda>i. 4096 * i) ` {..< 2 ^ 52}"
  proof
    fix f assume f: "f \<in> set (map_frames rs)"
    then have "4096 dvd f" using map_frames_aligned by blast
    then obtain i where "f = 4096 * i" by (rule dvdE)
    moreover from this have "i < 2 ^ 52" using assms f by (auto simp: map_ok_def)
    ultimately show "f \<in> (\<lambda>i. 4096 * i) ` {..< 2 ^ 52}" by auto
  qed
  then have "card (set (map_frames rs)) \<le> card ((\<lambda>i. 4096 * i :: nat) ` {..< 2 ^ 52})"
    by (intro card_mono) auto
  also have "\<dots> \<le> card {..< 2 ^ 52 :: nat}" by (rule card_image_le) simp
  finally show ?thesis using assms by (simp add: map_ok_def distinct_card)
qed

lemma sum_frames_returns:
  "unat acc + length (concat (map frames_of_run runs)) < 2 ^ 64 \<Longrightarrow>
   \<exists>w. sum_frames runs acc = Some w \<and> unat w = unat acc + length (concat (map frames_of_run runs))"
proof (induction runs arbitrary: acc)
  case Nil
  then show ?case by simp
next
  case (Cons run runs)
  then obtain acc' where acc': "checked_add acc (fr_frames run) = Some acc'"
    using checked_add_None_iff [of acc "fr_frames run"]
    by (cases "checked_add acc (fr_frames run)") auto
  then have "sum_frames (run # runs) acc = sum_frames runs acc'"
    by (simp del: checked_add_Some_iff)
  moreover have "unat acc' = unat acc + unat (fr_frames run)" using acc' by simp
  ultimately show ?case using Cons.IH [of acc'] Cons.prems by (simp add: add.assoc)
qed

lemma frame_init_spec:
  assumes ok: "map_ok rs"
  shows "\<exists>total s'. frame_init rs s = Some (total, s') \<and> unat total = length (map_frames rs) \<and>
    (if total = 0 then s' = s
     else frame_inv (set (map_frames rs)) s' \<and> free_frames s' = set (map_frames rs) \<and>
       open_runs s' = map frames_of_run (runs_of rs))"
proof -
  let ?runs = "runs_of rs"
  have lt: "length (map_frames rs) < 2 ^ 60" by (rule card_map_frames [OF ok])
  then obtain total where total: "sum_frames (collect_runs (usable_regions_new rs)) 0 = Some total"
    "unat total = length (map_frames rs)"
    using sum_frames_returns [of 0 ?runs]
    by (auto simp: collect_runs_remaining map_frames_def)
  show ?thesis
  proof (cases "total = 0")
    case True
    then show ?thesis using total by (simp add: frame_init_def)
  next
    case False
    then have "map_frames rs \<noteq> []" using total(2) by (auto simp: unat_eq_zero)
    then obtain run rest where runs: "?runs = run # rest"
      by (cases ?runs) (auto simp: map_frames_def)
    then obtain u' where u': "usable_next (usable_regions_new rs) = (Some run, u')"
      "remaining u' = rest"
      using usable_next_Some [of "usable_regions_new rs" run rest] by auto
    have good: "\<forall>run \<in> set ?runs. good_run run" using good_runs_of [OF ok] by blast
    then have g: "good_run run" using runs by simp
    obtain span where span: "checked_mul (fr_frames run) PAGE_SIZE = Some span"
      using g checked_mul_None_iff [of "fr_frames run" PAGE_SIZE]
      by (cases "checked_mul (fr_frames run) PAGE_SIZE") (auto simp: good_run_def)
    obtain run_end where run_end: "checked_add (fr_start run) span = Some run_end"
      using g span checked_add_None_iff [of "fr_start run" span]
      by (cases "checked_add (fr_start run) span") (auto simp: good_run_def)
    let ?fa = "\<lparr>fa_runs = u', fa_cursor = fr_start run, fa_run_end = run_end, fa_free = None,
      fa_in_use = 0\<rparr>"
    let ?s = "s\<lparr>st_FRAMES := Some ?fa\<rparr>"
    have "without_interrupts (\<lambda>s. Some ((), s\<lparr>st_FRAMES := Some ?fa\<rparr>)) s = Some ((), ?s)"
      using without_interrupts_returns [of "\<lambda>s. Some ((), s\<lparr>st_FRAMES := Some ?fa\<rparr>)" s]
      by (simp add: cli_def)
    then have "frame_init rs s = Some (total, ?s)"
      using total(1) False u'(1) span run_end
      by (simp add: frame_init_def del: checked_mul_Some_iff checked_add_Some_iff)
    moreover have rep: "fa_rep (st_phys ?s) ?fa [] (frames_of_run run) (map frames_of_run rest)"
      using g good runs u'(2) span run_end
      by (auto simp: fa_rep_def good_run_def frames_of_run_between algebra_simps)
    have "map_frames rs = frames_of_run run @ concat (map frames_of_run rest)"
      using runs by (simp add: map_frames_def)
    then have is': "frame_state_is ?s ?fa [] (frames_of_run run) (map frames_of_run rest)"
      and frames: "set (map_frames rs) = set ([] @ frames_of_run run @ concat (map frames_of_run rest))"
      using rep ok by (auto simp: frame_state_is_def map_ok_def)
    have "card (set (map_frames rs)) < 2 ^ 60" using lt ok by (simp add: map_ok_def distinct_card)
    then have "frame_inv (set (map_frames rs)) ?s"
      using is' frames map_frames_aligned [of _ rs] unfolding frame_inv_def
      by (intro exI [of _ ?fa] exI [of _ "[]"] exI [of _ "frames_of_run run"]
          exI [of _ "map frames_of_run rest"]) auto
    ultimately show ?thesis
      using total(2) False free_frames_is [OF is'] frames open_runs_is [OF is'] runs by auto
  qed
qed

end
