(* ===== verification/Frame_Props.thy ===== *)
theory Frame_Props
  imports Frame_Refine
begin

text \<open>
  What the frame allocator promises the rest of the kernel: the instance of the allocator
  contract, and the properties of the public functions of kernel/src/frame.rs.
\<close>

section \<open>The allocator contract\<close>

text \<open>
  A client may write anything into the frames it holds: memory changes only inside the frames
  of \<open>W\<close>.
\<close>

definition frame_scribble ::
    "nat set \<Rightarrow> 'a frame_state_scheme \<Rightarrow> 'a frame_state_scheme \<Rightarrow> bool" where
  "frame_scribble W s s' \<longleftrightarrow>
     (\<exists>m. s' = s\<lparr>st_phys := m\<rparr> \<and>
        (\<forall>a. (\<forall>f \<in> W. 4096 dvd f \<longrightarrow> unat a < f \<or> f + 4096 \<le> unat a) \<longrightarrow> m a = st_phys s a))"

lemma aligned_apart: "4096 dvd a \<Longrightarrow> 4096 dvd f \<Longrightarrow> a \<noteq> f \<Longrightarrow> a < f \<or> f + 4096 \<le> (a :: nat)"
  using dvd_gap [of f a] by linarith

lemma frame_scribble_inv:
  assumes inv: "frame_inv U s" and apart: "W \<inter> free_frames s = {}" and w: "frame_scribble W s s'"
  shows "frame_inv U s' \<and> free_frames s' = free_frames s"
proof -
  from inv obtain fa stk cur rest where h: "frame_state_is s fa stk cur rest"
    "set (stk @ cur @ concat rest) \<subseteq> U" "finite U" "card U < 2 ^ 60" "\<forall>f \<in> U. 0 < f \<and> 4096 dvd f"
    "unat (fa_in_use fa) = card (U - set (stk @ cur @ concat rest))"
    by (rule frame_invE)
  from w obtain m where m: "s' = s\<lparr>st_phys := m\<rparr>"
    "\<And>a. (\<forall>f \<in> W. 4096 dvd f \<longrightarrow> unat a < f \<or> f + 4096 \<le> unat a) \<Longrightarrow> m a = st_phys s a"
    by (auto simp: frame_scribble_def)
  have "m a = st_phys s a" if a: "unat a \<in> set stk" for a
  proof (rule m(2), intro ballI impI)
    fix f assume "f \<in> W" "4096 dvd f"
    moreover have "unat a \<in> free_frames s" using a free_frames_is [OF h(1)] by auto
    ultimately show "unat a < f \<or> f + 4096 \<le> unat a"
      using apart a h(2,5) by (intro aligned_apart) auto
  qed
  then have "stack_in m (fa_free fa) stk = stack_in (st_phys s) (fa_free fa) stk"
    by (rule stack_in_cong)
  then have "fa_rep m fa stk cur rest"
    using h(1) unfolding frame_state_is_def fa_rep_def by metis
  then have is': "frame_state_is s' fa stk cur rest"
    using h(1) m(1) by (simp add: frame_state_is_def)
  then show ?thesis
    using h free_frames_is [OF is'] free_frames_is [OF h(1)] unfolding frame_inv_def by auto
qed

interpretation frames: resource_allocator
  "\<lambda>_ :: unit. alloc_frame" "\<lambda>a _. dealloc_frame a" "frame_inv U" free_frames "\<lambda>_. True"
  "\<lambda>a _. unat a \<in> U" "\<lambda>a _. {unat a}" frame_scribble
  for U
proof
  fix s :: "'a frame_state_scheme" and l :: unit
  assume inv: "frame_inv U s"
  show "\<exists>r. alloc_frame s = Some r"
    using alloc_frame_spec [OF inv] by (auto split: if_splits)
next
  fix s s' :: "'a frame_state_scheme" and l :: unit and p :: u64
  assume inv: "frame_inv U s" and r: "alloc_frame s = Some (Some p, s')"
  have "unat p \<in> U" if "unat p \<in> free_frames s"
    using inv that frame_invE [OF inv] free_frames_is by (metis subsetD)
  then show "frame_inv U s' \<and> unat p \<in> U \<and> {unat p} \<subseteq> free_frames s \<and>
      free_frames s' = free_frames s - {unat p}"
    using alloc_frame_spec [OF inv] r by (auto split: if_splits)
next
  fix s s' :: "'a frame_state_scheme" and l :: unit
  assume inv: "frame_inv U s" and r: "alloc_frame s = Some (None, s')"
  show "frame_inv U s' \<and> free_frames s' = free_frames s"
    using alloc_frame_spec [OF inv] r by (auto split: if_splits)
next
  fix s :: "'a frame_state_scheme" and l :: unit and p :: u64
  assume "frame_inv U s" "unat p \<in> U" "{unat p} \<inter> free_frames s = {}"
  then show "\<exists>s'. dealloc_frame p s = Some s' \<and> frame_inv U s' \<and>
      free_frames s' = free_frames s \<union> {unat p}"
    using dealloc_frame_spec [of U s p] by auto
next
  fix s s' :: "'a frame_state_scheme" and W
  assume "frame_inv U s" "W \<inter> free_frames s = {}" "frame_scribble W s s'"
  then show "frame_inv U s' \<and> free_frames s' = free_frames s" by (rule frame_scribble_inv)
qed auto

abbreviation frame_client ::
    "'a frame_state_scheme \<Rightarrow> 'a frame_state_scheme \<Rightarrow> (u64 \<times> unit) set \<Rightarrow> bool" where
  "frame_client \<equiv> client_reach (\<lambda>_. alloc_frame) (\<lambda>a _. dealloc_frame a) (\<lambda>_. True)
     (\<lambda>a _. {unat a}) frame_scribble"

lemma live_units_frames: "live_units (\<lambda>a _. {unat a}) L = (\<lambda>x. unat (fst x)) ` L"
  by (force simp: live_units_def)

lemma card_live_frames:
  "card (live_units (\<lambda>a _. {unat a}) (L :: (u64 \<times> unit) set)) = card L"
  by (auto simp: live_units_frames inj_on_def word_unat_eq_iff intro!: card_image)

lemma frames_in_use_spec:
  assumes "frame_inv U s"
  shows "\<exists>n. frames_in_use s = Some (n, s) \<and> unat n = card (U - free_frames s)"
proof -
  from assms obtain fa stk cur rest where h: "frame_state_is s fa stk cur rest"
    "unat (fa_in_use fa) = card (U - set (stk @ cur @ concat rest))"
    by (rule frame_invE)
  then have "st_FRAMES s = Some fa" by (simp add: frame_state_is_def)
  moreover from this have "s\<lparr>st_FRAMES := Some fa\<rparr> = s" by simp
  ultimately show ?thesis
    using with_frames_returns [of s fa "\<lambda>m fa. Some (fa_in_use fa, m, fa)"] h(2)
      free_frames_is [OF h(1)]
    by (simp add: frames_in_use_def)
qed

text \<open>A freshly initialised allocator starts every client in the invariant.\<close>

lemma frame_init_inv:
  assumes "map_ok rs" and "frame_init rs s = Some (n, s0)" and "n \<noteq> 0"
  shows "frame_inv (set (map_frames rs)) s0" and "free_frames s0 = set (map_frames rs)"
    and "unat n = card (set (map_frames rs))"
    and "open_runs s0 = map frames_of_run (runs_of rs)"
  using frame_init_spec [OF assms(1), of s] assms by (auto simp: map_ok_def distinct_card)

text \<open>Every reachable client state satisfies the contract's invariant.\<close>

lemma frame_client_inv:
  assumes "map_ok rs" and "frame_init rs s = Some (n, s0)" and "n \<noteq> 0" and "frame_client s0 s' L"
  shows "frame_inv (set (map_frames rs)) s'"
    and "(\<lambda>x. unat (fst x)) ` L \<inter> free_frames s' = {}"
    and "(\<lambda>x. unat (fst x)) ` L \<union> free_frames s' = set (map_frames rs)"
    and "card L + card (free_frames s') = unat n"
proof -
  note init = frame_init_inv [OF assms(1-3)]
  from frames.client_invariant [OF assms(4) init(1)] init(2)
  show inv: "frame_inv (set (map_frames rs)) s'"
    and apart: "(\<lambda>x. unat (fst x)) ` L \<inter> free_frames s' = {}"
    and un: "(\<lambda>x. unat (fst x)) ` L \<union> free_frames s' = set (map_frames rs)"
    by (simp_all add: live_units_frames)
  from un have "finite ((\<lambda>x. unat (fst x)) ` L)" "finite (free_frames s')"
    by (metis List.finite_set finite_Un)+
  then have "card ((\<lambda>x. unat (fst x)) ` L) + card (free_frames s') = card (set (map_frames rs))"
    using apart un card_Un_disjoint by metis
  then show "card L + card (free_frames s') = unat n"
    using card_live_frames [of L] init(3) by (simp add: live_units_frames)
qed

text \<open>Freeing a frame and allocating again.\<close>

lemma dealloc_then_alloc:
  assumes "st_FRAMES s = Some fa" and "a \<noteq> 0" and "fa_in_use fa \<noteq> 0"
  shows "\<exists>s'. dealloc_frame a s = Some s' \<and>
    alloc_frame s' = Some (Some a, s\<lparr>st_phys := (st_phys s)(a := \<lparr>ff_next = fa_free fa\<rparr>)\<rparr>)"
proof -
  let ?m = "(st_phys s)(a := \<lparr>ff_next = fa_free fa\<rparr>)"
  let ?fa = "fa\<lparr>fa_free := Some a, fa_in_use := saturating_sub (fa_in_use fa) 1\<rparr>"
  let ?s = "s\<lparr>st_phys := ?m, st_FRAMES := Some ?fa\<rparr>"
  have use: "0 < unat (fa_in_use fa)" using assms(3) by (simp add: unat_gt_0)
  then have add: "checked_add (saturating_sub (fa_in_use fa) 1) 1 = Some (fa_in_use fa)" by simp
  have "fa_dealloc a (st_phys s) fa = Some ((), ?m, ?fa)"
    using assms(2) by (simp add: fa_dealloc_def push_free_def nonnull_new_def)
  from with_frames_returns [where f = "fa_dealloc a", OF assms(1) this]
  have d: "dealloc_frame a s = Some ?s" by (simp add: dealloc_frame_def)
  have "fa_alloc ?m ?fa = Some (Some a, ?m, fa)"
    using add by (simp add: fa_alloc_def del: checked_add_Some_iff)
  then have "alloc_frame ?s = Some (Some a, ?s\<lparr>st_phys := ?m, st_FRAMES := Some fa\<rparr>)"
    using with_frames_returns [where f = fa_alloc and s = ?s and fa = ?fa]
    by (simp add: alloc_frame_def flatten_def)
  moreover have "s\<lparr>st_phys := ?m, st_FRAMES := Some fa\<rparr> = s\<lparr>st_phys := ?m\<rparr>"
    using assms(1) by simp
  ultimately show ?thesis using d by simp
qed

text \<open>A single allocation takes at most one frame from any run that can serve a contiguous request.\<close>

definition runs_within :: "nat \<Rightarrow> nat list list \<Rightarrow> nat list list \<Rightarrow> bool" where
  "runs_within k rs rs' \<longleftrightarrow> (\<forall>r \<in> set rs. \<exists>r' \<in> set rs'. length r \<le> length r' + k)"

lemma runs_within_trans:
  assumes "runs_within a rs rs'" and "runs_within b rs' rs''"
  shows "runs_within (a + b) rs rs''"
  unfolding runs_within_def
proof
  fix r assume "r \<in> set rs"
  then obtain r' where r': "r' \<in> set rs'" "length r \<le> length r' + a" using assms(1) by (auto simp: runs_within_def)
  then obtain r'' where "r'' \<in> set rs''" "length r' \<le> length r'' + b" using assms(2) by (auto simp: runs_within_def)
  then show "\<exists>r'' \<in> set rs''. length r \<le> length r'' + (a + b)" using r'(2) by (intro bexI [of _ r'']) auto
qed

lemma runs_within_first: "length c \<le> length c' + k \<Longrightarrow> runs_within k (c # rest) (c' # rest)"
  by (force simp: runs_within_def)

lemma runs_within_next: "length a \<le> length a' + k \<Longrightarrow> runs_within k ([] # a # rest) (a' # rest)"
  by (force simp: runs_within_def)

lemma with_frames_Some:
  assumes "with_frames f s = Some (Some r, s')"
  shows "\<exists>fa m fa'. st_FRAMES s = Some fa \<and> f (st_phys s) fa = Some (r, m, fa') \<and>
    s' = s\<lparr>st_phys := m, st_FRAMES := Some fa'\<rparr>"
proof -
  obtain fa m fa' where r: "st_FRAMES s = Some fa" "f (st_phys s) fa = Some (r, m, fa')"
    using assms unfolding with_frames_def without_interrupts_cli
    by (auto simp: cli_def bind_eq_Some_conv split: option.splits)
  then show ?thesis using with_frames_returns [of s fa f, OF r] assms by auto
qed

lemma alloc_frame_runs:
  assumes inv: "frame_inv U s" and alloc: "alloc_frame s = Some (Some w, s')"
  shows "runs_within 1 (open_runs s) (open_runs s')"
proof -
  obtain fa stk cur rest where h: "frame_state_is s fa stk cur rest" "unat (fa_in_use fa) < 2 ^ 60"
    by (rule frame_invE [OF inv])
  have st: "st_FRAMES s = Some fa" "fa_rep (st_phys s) fa stk cur rest" "distinct (stk @ cur @ concat rest)"
    using h(1) by (auto simp: frame_state_is_def)
  have "with_frames fa_alloc s = Some (Some (Some w), s')"
    using alloc by (auto simp: alloc_frame_def flatten_def bind_eq_Some_conv split: option.splits)
  then obtain m fa' where r: "fa_alloc (st_phys s) fa = Some (Some w, m, fa')"
    "s' = s\<lparr>st_phys := m, st_FRAMES := Some fa'\<rparr>"
    using with_frames_Some st(1) by fastforce
  have runs: "open_runs s = cur # rest" by (rule open_runs_is [OF h(1)])
  show ?thesis
  proof (cases "fa_free fa")
    case (Some node)
    then have "open_runs s' = open_runs s"
      using r st(1) by (auto simp: fa_alloc_def open_runs_def Let_def bind_eq_Some_conv)
    then show ?thesis unfolding runs_within_def by (metis le_add1)
  next
    case None
    then have stk: "stk = []" using st(2) by (auto simp: fa_rep_def)
    have ne: "\<forall>r \<in> set rest. r \<noteq> []" using fa_rep_runs_nonempty [OF st(2)] by blast
    obtain q stk' cur' rest' where ab: "abump 1 [] cur rest = (q, stk', cur', rest')"
      by (cases "abump 1 [] cur rest") auto
    from bump_loop_refines [OF st(2,3), of PAGE_SIZE 1] ab stk
    obtain x m' fa1 where b: "bump 1 (st_phys s) fa = Some (x, m', fa1)" "fa_rep m' fa1 stk' cur' rest'"
      by (auto simp: bump_one)
    have "x \<noteq> None" using r(1) None b(1) by (auto simp: fa_alloc_def split: option.splits)
    then have q: "q \<noteq> None" using bump_loop_refines [OF st(2,3), of PAGE_SIZE 1] ab stk b(1)
      by (cases q) (auto simp: bump_one)
    have "open_runs s' = cur' # rest'"
      using r None b \<open>x \<noteq> None\<close> by (auto simp: fa_alloc_def open_runs_def fa_rep_def bind_eq_Some_conv)
    moreover have "runs_within 1 (cur # rest) (cur' # rest')"
    proof (cases cur)
      case Nil
      then obtain a rest1 where rest: "rest = a # rest1" using ab q by (cases rest) auto
      moreover obtain b a' where "a = b # a'" using ne rest by (cases a) auto
      ultimately show ?thesis using Nil ab abump_one [OF ne, of cur] by (auto intro: runs_within_next)
    next
      case (Cons b cur1)
      then show ?thesis using ab abump_one [OF ne, of cur] by (auto intro: runs_within_first)
    qed
    ultimately show ?thesis using runs by simp
  qed
qed

lemma dealloc_frame_runs:
  assumes "dealloc_frame a s = Some s'"
  shows "open_runs s' = open_runs s"
proof -
  obtain x where x: "with_frames (fa_dealloc a) s = Some (x, s')"
    using assms by (auto simp: dealloc_frame_def bind_eq_Some_conv)
  show ?thesis
  proof (cases x)
    case None
    then show ?thesis using x unfolding with_frames_def without_interrupts_cli
      by (auto simp: bind_eq_Some_conv cli_def sti_def open_runs_def split: option.splits)
  next
    case (Some r)
    from with_frames_Some [OF x [unfolded Some]] show ?thesis
      by (auto simp: fa_dealloc_def push_free_def open_runs_def Let_def)
  qed
qed

text \<open>The self-test up to its fifth allocation: one free frame is enough for it.\<close>

lemma frame_selftest_prefix:
  assumes inv: "frame_inv U s" and ne: "free_frames s \<noteq> {}"
  obtains a s5 where "frame_selftest s = do {
        (r4, s6) \<leftarrow> alloc_frame s5;
        (case r4 of
           None \<Rightarrow> Some (Inl ''alloc_frame returned None for the second of two frames'', s6)
         | Some b \<Rightarrow>
             if a = b then Some (Inl ''two consecutive allocations returned the same frame'', s6)
             else do { s7 \<leftarrow> dealloc_frame b s6; s8 \<leftarrow> dealloc_frame a s7; Some (Inr (), s8) })
      }"
    and "frame_inv U s5" and "unat a \<in> free_frames s" and "free_frames s5 = free_frames s - {unat a}"
    and "runs_within 3 (open_runs s) (open_runs s5)"
proof -
  have U: "finite U" "free_frames s \<subseteq> U" "\<And>f. f \<in> U \<Longrightarrow> 0 < f \<and> 4096 dvd f"
    using frame_invE [OF inv] free_frames_is by metis+
  obtain first s1 where 1: "alloc_frame s = Some (Some first, s1)" "frame_inv U s1"
    "unat first \<in> free_frames s" "free_frames s1 = free_frames s - {unat first}"
    using alloc_frame_spec [OF inv] ne by auto
  then have "unat first \<in> U" using U(2) by blast
  moreover from this U(3) have "0 < unat first" "4096 dvd unat first" by blast+
  ultimately have first: "first mod PAGE_SIZE = 0" "first \<noteq> 0" "unat first \<in> U"
    by (auto simp: mod_eq_0_unat dvd_eq_mod_eq_0)
  from 1(2) obtain fa where fa: "st_FRAMES s1 = Some fa" "unat (fa_in_use fa) = card (U - free_frames s1)"
    by (metis frame_invE frame_state_is_def free_frames_is)
  have "unat first \<in> U - free_frames s1" using first 1(4) by auto
  then have "fa_in_use fa \<noteq> 0" using fa(2) U(1) by (metis card_gt_0_iff empty_iff finite_Diff
    less_irrefl unat_eq_zero)
  then obtain s2 s3 where 2: "dealloc_frame first s1 = Some s2" "alloc_frame s2 = Some (Some first, s3)"
    using dealloc_then_alloc [OF fa(1) first(2)] by blast
  have 3: "frame_inv U s2" "free_frames s2 = free_frames s"
    using dealloc_frame_spec [OF 1(2) first(3)] 1(3,4) 2(1) by auto
  then have 4: "frame_inv U s3" "free_frames s3 = free_frames s - {unat first}"
    using alloc_frame_spec [OF 3(1)] 2(2) by (auto split: if_splits)
  obtain s4 where 5: "dealloc_frame first s3 = Some s4" "frame_inv U s4" "free_frames s4 = free_frames s"
    using dealloc_frame_spec [OF 4(1) first(3)] 4(2) insert_absorb [OF 1(3)] by auto
  obtain a s5 where 6: "alloc_frame s4 = Some (Some a, s5)" "frame_inv U s5" "unat a \<in> free_frames s"
    "free_frames s5 = free_frames s - {unat a}"
    using alloc_frame_spec [OF 5(2)] 5(3) ne by auto
  have "runs_within (1 + (1 + 1)) (open_runs s) (open_runs s5)"
    by (rule runs_within_trans [OF alloc_frame_runs [OF inv 1(1), folded dealloc_frame_runs [OF 2(1)]]
        runs_within_trans [OF alloc_frame_runs [OF 3(1) 2(2), folded dealloc_frame_runs [OF 5(1)]]
        alloc_frame_runs [OF 5(2) 6(1)]]])
  then have runs: "runs_within 3 (open_runs s) (open_runs s5)" by (simp add: numeral_eq_Suc)
  show thesis
    by (rule that [OF _ 6(2-4) runs])
      (use 1(1) 2 5(1) 6(1) first(1,2) in \<open>simp add: frame_selftest_def\<close>)
qed

lemma frame_selftest_runs:
  assumes inv: "frame_inv U s" and two: "2 \<le> card (free_frames s)"
  shows "\<exists>s'. frame_selftest s = Some (Inr (), s') \<and> free_frames s' = free_frames s \<and> frame_inv U s' \<and>
    runs_within 4 (open_runs s) (open_runs s')"
proof -
  have U: "finite U" "free_frames s \<subseteq> U" using frame_invE [OF inv] free_frames_is by metis+
  have "free_frames s \<noteq> {}" using two by auto
  note prefix = frame_selftest_prefix [OF inv this]
  obtain a s5 where p: "frame_selftest s = do {
        (r4, s6) \<leftarrow> alloc_frame s5;
        (case r4 of
           None \<Rightarrow> Some (Inl ''alloc_frame returned None for the second of two frames'', s6)
         | Some b \<Rightarrow>
             if a = b then Some (Inl ''two consecutive allocations returned the same frame'', s6)
             else do { s7 \<leftarrow> dealloc_frame b s6; s8 \<leftarrow> dealloc_frame a s7; Some (Inr (), s8) })
      }"
    and 6: "frame_inv U s5" "unat a \<in> free_frames s" "free_frames s5 = free_frames s - {unat a}"
    and runs: "runs_within 3 (open_runs s) (open_runs s5)"
    by (rule prefix)
  have "free_frames s5 \<noteq> {}" using two 6(3) card_mono [of "{unat a}" "free_frames s"] by auto
  then obtain b s6 where 7: "alloc_frame s5 = Some (Some b, s6)" "frame_inv U s6"
    "unat b \<in> free_frames s - {unat a}" "free_frames s6 = free_frames s - {unat a} - {unat b}"
    using alloc_frame_spec [OF 6(1)] 6(3) by auto
  obtain s7 where 8: "dealloc_frame b s6 = Some s7" "frame_inv U s7"
    "free_frames s7 = free_frames s - {unat a}"
  proof -
    have "unat b \<in> U" "unat b \<notin> free_frames s6" using 7(3,4) U(2) by auto
    moreover have "insert (unat b) (free_frames s6) = free_frames s - {unat a}" using 7(3,4) by auto
    ultimately show ?thesis using that dealloc_frame_spec [OF 7(2), of b] by auto
  qed
  obtain s8 where 9: "dealloc_frame a s7 = Some s8" "frame_inv U s8" "free_frames s8 = free_frames s"
  proof -
    have "unat a \<in> U" "unat a \<notin> free_frames s7" using 6(2) 8(3) U(2) by auto
    moreover have "insert (unat a) (free_frames s7) = free_frames s" using 6(2) 8(3) by auto
    ultimately show ?thesis using that dealloc_frame_spec [OF 8(2), of a] by auto
  qed
  have "a \<noteq> b" using 7(3) by auto
  then have "frame_selftest s = Some (Inr (), s8)" using 7(1) 8(1) 9(1) by (simp add: p)
  moreover have "runs_within (3 + 1) (open_runs s) (open_runs s8)"
    unfolding dealloc_frame_runs [OF 9(1)] dealloc_frame_runs [OF 8(1)]
    by (rule runs_within_trans [OF runs alloc_frame_runs [OF 6(1) 7(1)]])
  ultimately show ?thesis using 9(2,3) by auto
qed

text \<open>A single frame fails the test, and a fresh allocator always gives it a verdict.\<close>

lemma frame_selftest_one:
  assumes inv: "frame_inv U s" and one: "card (free_frames s) = 1"
  shows "\<exists>msg s'. frame_selftest s = Some (Inl msg, s')"
proof -
  have "free_frames s \<noteq> {}" using one by auto
  from frame_selftest_prefix [OF inv this] obtain a s5 where p: "frame_selftest s = do {
        (r4, s6) \<leftarrow> alloc_frame s5;
        (case r4 of
           None \<Rightarrow> Some (Inl ''alloc_frame returned None for the second of two frames'', s6)
         | Some b \<Rightarrow>
             if a = b then Some (Inl ''two consecutive allocations returned the same frame'', s6)
             else do { s7 \<leftarrow> dealloc_frame b s6; s8 \<leftarrow> dealloc_frame a s7; Some (Inr (), s8) })
      }"
    and 6: "frame_inv U s5" "unat a \<in> free_frames s" "free_frames s5 = free_frames s - {unat a}"
    by blast
  have "free_frames s5 = {}" using one 6(2,3) by (auto simp: card_1_singleton_iff)
  then show ?thesis using alloc_frame_spec [OF 6(1)] by (auto simp: p)
qed

lemma frame_selftest_ok:
  "frame_inv U s \<Longrightarrow> 2 \<le> card (free_frames s) \<Longrightarrow>
    \<exists>s'. frame_selftest s = Some (Inr (), s') \<and> free_frames s' = free_frames s \<and> frame_inv U s'"
  using frame_selftest_runs by blast

section \<open>Properties\<close>

text \<open>The memory map and the state the witnesses run on.\<close>

definition demo_map :: "memory_region list" where
  "demo_map = [memory_region_new 0 2 CONVENTIONAL, memory_region_new 0x5000 1 2,
     memory_region_new 0x8000 3 CONVENTIONAL]"

definition demo_state :: frame_state where
  "demo_state = \<lparr>rflags = 0x202, st_phys = (\<lambda>_. \<lparr>ff_next = None\<rparr>), st_FRAMES = None\<rparr>"

lemma demo_frames: "map_frames demo_map = [0x1000, 0x8000, 0x9000, 0xa000]"
proof -
  have "runs_of demo_map =
      [\<lparr>fr_start = 0x1000, fr_frames = 1\<rparr>, \<lparr>fr_start = 0x8000, fr_frames = 3\<rparr>]" by code_simp
  then show ?thesis by (simp add: map_frames_def frames_of_run_def upt_rec)
qed

lemma demo_map_ok: "map_ok demo_map"
  by (simp add: map_ok_def demo_frames)

definition demo_s0 :: frame_state where
  "demo_s0 = snd (the (frame_init demo_map demo_state))"

definition demo_s1 :: frame_state where
  "demo_s1 = snd (the (alloc_frame demo_s0))"

lemma demo_init: "frame_init demo_map demo_state = Some (4, demo_s0)"
  unfolding demo_s0_def by (rule run_result) code_simp

lemma demo_alloc: "alloc_frame demo_s0 = Some (Some 0x1000, demo_s1)"
  unfolding demo_s1_def by (rule run_result) code_simp

lemma demo_client: "frame_client demo_s0 demo_s1 {(0x1000, ())}"
  using client_reach.alloc [OF client_reach.start, where alloc = "\<lambda>_. alloc_frame" and l = "()"
      and valid = "\<lambda>_. True"] demo_alloc by fastforce

text \<open>
  Initialising the frame allocator (\<open>frame::init\<close>) from a memory map whose usable frames do
  not overlap returns exactly the number of whole free frames of the map; when that is not zero
  every one of them can be handed out and none is counted as in use.
\<close>

theorem frame_init_counts:
  assumes "map_ok rs"
  shows "\<exists>n s'. frame_init rs s = Some (n, s') \<and> unat n = length (map_frames rs) \<and>
    (if n = 0 then s' = s
     else free_frames s' = set (map_frames rs) \<and> frames_in_use s' = Some (0, s'))"
proof -
  obtain n s' where h: "frame_init rs s = Some (n, s')" "unat n = length (map_frames rs)"
    "if n = 0 then s' = s
     else frame_inv (set (map_frames rs)) s' \<and> free_frames s' = set (map_frames rs)"
    using frame_init_spec [OF assms, of s] by (metis (full_types))
  then show ?thesis
    using frames_in_use_spec [of "set (map_frames rs)" s'] by (auto simp: unat_eq_zero)
qed

theorem frame_init_counts_witness:
  "\<exists>n s'. frame_init demo_map demo_state = Some (n, s') \<and> unat n = 4 \<and>
    free_frames s' = {0x1000, 0x8000, 0x9000, 0xa000} \<and> frames_in_use s' = Some (0, s')"
  using frame_init_counts [OF demo_map_ok, of demo_state]
  by (auto simp: demo_frames unat_eq_zero split: if_splits)

text \<open>
  C24. Whatever a client does (allocate, free frames it holds, write anything into them, keep
  going when memory is exhausted), the frames it holds are frames of usable regions, are never
  also in the allocator's pool, and held plus free frames are all the frames of the memory map;
  \<open>frames_in_use\<close> counts the held ones, and freeing a held frame never panics.
\<close>

theorem frame_clients_safe:
  assumes "map_ok rs" and "frame_init rs s = Some (n, s0)" and "n \<noteq> 0" and "frame_client s0 s' L"
  shows "(\<lambda>x. unat (fst x)) ` L \<inter> free_frames s' = {} \<and>
    (\<lambda>x. unat (fst x)) ` L \<union> free_frames s' = set (map_frames rs) \<and>
    (\<exists>k. frames_in_use s' = Some (k, s') \<and> unat k = card L) \<and>
    (\<forall>a. (a, ()) \<in> L \<longrightarrow> (\<exists>s''. dealloc_frame a s' = Some s''))"
proof -
  note inv = frame_client_inv [OF assms]
  have "set (map_frames rs) - free_frames s' = (\<lambda>x. unat (fst x)) ` L" using inv(2,3) by blast
  then have "card (set (map_frames rs) - free_frames s') = card L"
    using card_live_frames [of L] by (simp add: live_units_frames)
  moreover have "\<exists>s''. dealloc_frame a s' = Some s''" if "(a, ()) \<in> L" for a
    using frames.client_never_stuck(2) [OF assms(4) frame_init_inv(1) [OF assms(1-3)]] that by blast
  ultimately show ?thesis using inv(2,3) frames_in_use_spec [OF inv(1)] by auto
qed

theorem frame_clients_safe_witness:
  "0x1000 \<notin> free_frames demo_s1 \<and>
   insert 0x1000 (free_frames demo_s1) = {0x1000, 0x8000, 0x9000, 0xa000} \<and>
   (\<exists>k. frames_in_use demo_s1 = Some (k, demo_s1) \<and> unat k = 1)"
  using frame_clients_safe [OF demo_map_ok demo_init _ demo_client] by (auto simp: demo_frames)

text \<open>
  C25. \<open>alloc_frame\<close> never panics and fails exactly when every frame of the memory map is held;
  otherwise it returns a frame of the map that nobody holds, page aligned and not frame 0.
\<close>

theorem frame_alloc_exact:
  assumes "map_ok rs" and "frame_init rs s = Some (n, s0)" and "n \<noteq> 0" and "frame_client s0 s' L"
  shows "\<exists>r s''. alloc_frame s' = Some (r, s'') \<and> (r = None \<longleftrightarrow> card L = unat n) \<and>
    (\<forall>a. r = Some a \<longrightarrow> unat a \<in> set (map_frames rs) \<and> (a, ()) \<notin> L \<and> a mod PAGE_SIZE = 0 \<and> a \<noteq> 0)"
proof -
  note inv = frame_client_inv [OF assms]
  have fin: "finite (free_frames s')" using inv(3) by (metis List.finite_set finite_Un)
  show ?thesis
  proof (cases "free_frames s' = {}")
    case True
    then show ?thesis using alloc_frame_spec [OF inv(1)] inv(4) by auto
  next
    case False
    then obtain a s'' where r: "alloc_frame s' = Some (Some a, s'')" "unat a \<in> free_frames s'"
      using alloc_frame_spec [OF inv(1)] by auto
    have "(a, ()) \<notin> L" using r(2) inv(2) by force
    moreover have "unat a \<in> set (map_frames rs)" using r(2) inv(3) by auto
    moreover from this have "0 < unat a" "4096 dvd unat a" using map_frames_aligned by auto
    moreover have "card L \<noteq> unat n" using inv(4) False fin by auto
    ultimately show ?thesis using r(1) by (auto simp: mod_eq_0_unat dvd_eq_mod_eq_0)
  qed
qed

theorem frame_alloc_exact_witness:
  "\<exists>a s''. alloc_frame demo_s1 = Some (Some a, s'') \<and> a \<noteq> 0x1000 \<and>
    unat a \<in> {0x1000, 0x8000, 0x9000, 0xa000}"
  using frame_alloc_exact [OF demo_map_ok demo_init _ demo_client] by (auto simp: demo_frames)

text \<open>
  C26. A contiguous request (\<open>alloc_contiguous\<close>, what the heap is built on) either leaves every
  free frame free, or takes exactly the \<open>k\<close> consecutive frames from the address it returns, all
  of them free before; on a freshly initialised allocator it fails exactly when no usable
  region of the map has \<open>k\<close> whole frames.
\<close>

theorem alloc_contiguous_exact:
  assumes "map_ok rs" and "frame_init rs s = Some (n, s0)" and "n \<noteq> 0" and "frame_client s0 s' L"
    and "0 < unat k" and "unat k < 2 ^ 50"
  shows "open_runs s0 = map frames_of_run (runs_of rs) \<and>
    (\<exists>r s''. alloc_contiguous k s' = Some (r, s'') \<and>
      (r = None \<longleftrightarrow> (\<forall>run \<in> set (open_runs s'). length run < unat k)) \<and>
      (case r of
         None \<Rightarrow> free_frames s'' = free_frames s'
       | Some a \<Rightarrow> (let block = set (frames_between (unat a) (unat a + 4096 * unat k)) in
           block \<subseteq> free_frames s' \<and> free_frames s'' = free_frames s' - block)))"
  using alloc_contiguous_spec [OF frame_client_inv(1) [OF assms(1-4)] assms(5,6)]
    frame_init_inv(4) [OF assms(1-3)]
  by (auto simp: Let_def)

theorem alloc_contiguous_exact_witness:
  "\<exists>a s''. alloc_contiguous 2 demo_s0 = Some (Some a, s'') \<and>
    {unat a, unat a + 0x1000} \<subseteq> {0x1000, 0x8000, 0x9000, 0xa000}"
proof -
  have "map frames_of_run (runs_of demo_map) = [[0x1000], [0x8000, 0x9000, 0xa000]]"
  proof -
    have "runs_of demo_map =
        [\<lparr>fr_start = 0x1000, fr_frames = 1\<rparr>, \<lparr>fr_start = 0x8000, fr_frames = 3\<rparr>]" by code_simp
    then show ?thesis by (simp add: frames_of_run_def upt_rec)
  qed
  then show ?thesis
    using alloc_contiguous_exact [OF demo_map_ok demo_init _ client_reach.start, of 2]
      frame_init_inv(2) [OF demo_map_ok demo_init]
    by (auto simp: demo_frames Let_def frames_between_def upt_rec split: option.splits)
qed

text \<open>
  Frames are recycled last in, first out: freeing a frame and allocating again returns that
  frame and leaves the allocator exactly as it was (only the freed frame's first word changed).
\<close>

theorem frame_lifo:
  assumes "st_FRAMES s = Some fa" and "a \<noteq> 0" and "fa_in_use fa \<noteq> 0"
  shows "\<exists>s'. dealloc_frame a s = Some s' \<and>
    alloc_frame s' = Some (Some a, s\<lparr>st_phys := (st_phys s)(a := \<lparr>ff_next = fa_free fa\<rparr>)\<rparr>)"
  using assms by (rule dealloc_then_alloc)

theorem frame_lifo_witness:
  "\<exists>s'. dealloc_frame 0x1000 demo_s1 = Some s' \<and> map_option fst (alloc_frame s') = Some (Some 0x1000)"
proof -
  have "map_option fa_in_use (st_FRAMES demo_s1) = Some 1" by code_simp
  then obtain fa where "st_FRAMES demo_s1 = Some fa" "fa_in_use fa \<noteq> 0" by auto
  from frame_lifo [where a = "0x1000", OF this(1) _ this(2)] show ?thesis by auto
qed

text \<open>
  The boot-time self-test passes on any state with at least two free frames, and gives back
  every frame it took.
\<close>

theorem frame_selftest_passes:
  assumes "map_ok rs" and "frame_init rs s = Some (n, s0)" and "n \<noteq> 0" and "frame_client s0 s' L"
    and "card L + 2 \<le> unat n"
  shows "\<exists>s''. frame_selftest s' = Some (Inr (), s'') \<and> free_frames s'' = free_frames s' \<and>
    frame_inv (set (map_frames rs)) s''"
  using frame_selftest_ok [OF frame_client_inv(1) [OF assms(1-4)]] frame_client_inv(4) [OF assms(1-4)]
    assms(5) by simp

theorem frame_selftest_passes_witness:
  "\<exists>s''. frame_selftest demo_s1 = Some (Inr (), s'') \<and> free_frames s'' = free_frames demo_s1"
  using frame_selftest_passes [OF demo_map_ok demo_init _ demo_client] by auto

section \<open>The last page of the address space\<close>











end
