(* ===== verification/Heap_Props.thy ===== *)
theory Heap_Props
  imports Heap_Refine Frame_Props
begin

text \<open>
  What the kernel heap promises its clients: \<open>heap_is a z s bs\<close> (the heap occupies the bytes from
  \<open>a\<close> to \<open>z\<close> and its free list is \<open>bs\<close>), the public functions of kernel/src/heap.rs on it, the
  instance of the coalescing allocator contract, and the properties.
\<close>

section \<open>The state of the heap\<close>

definition heap_is :: "nat \<Rightarrow> nat \<Rightarrow> 'a heap_state_scheme \<Rightarrow> span list \<Rightarrow> bool" where
  "heap_is a z s bs \<longleftrightarrow>
     seg (st_heap s) (st_HEAP s) bs 0 \<and> chain (a - 1) z bs \<and> 0 < a \<and> z \<le> 2 ^ 63"

definition heap_inv :: "nat \<Rightarrow> nat \<Rightarrow> 'a heap_state_scheme \<Rightarrow> bool" where
  "heap_inv a z s \<longleftrightarrow> (\<exists>bs. heap_is a z s bs)"

text \<open>The blocks reachable from the head, and the bytes they cover.\<close>

inductive in_list :: "heap_mem \<Rightarrow> u64 \<Rightarrow> u64 \<Rightarrow> bool" for mem where
  here: "p \<noteq> 0 \<Longrightarrow> in_list mem p p"
| further: "p \<noteq> 0 \<Longrightarrow> in_list mem (hb_next (mem p)) w \<Longrightarrow> in_list mem p w"

inductive_simps in_list_null [simp]: "in_list mem 0 w"
inductive_simps in_list_step: "in_list mem p w"

definition heap_free :: "'a heap_state_scheme \<Rightarrow> nat set" where
  "heap_free s =
     (\<Union>w \<in> {w. in_list (st_heap s) (st_HEAP s) w}. {unat w..<unat w + unat (hb_size (st_heap s w))})"

lemma in_list_spans:
  "seg mem p bs 0 \<Longrightarrow> (\<lambda>w. (unat w, unat (hb_size (mem w)))) ` {w. in_list mem p w} = set bs"
proof (induction bs arbitrary: p)
  case (Cons b bs)
  then obtain q where "p \<noteq> 0" "b = (unat p, unat (hb_size (mem p)))" "hb_next (mem p) = q" "seg mem q bs 0"
    by (cases b) auto
  moreover from this have "{w. in_list mem p w} = insert p {w. in_list mem q w}"
    by (auto simp: in_list_step [of mem p])
  ultimately show ?case using Cons.IH [of q] by simp
qed simp

lemma heap_free_is: "heap_is a z s bs \<Longrightarrow> heap_free s = span_bytes bs"
proof -
  assume "heap_is a z s bs"
  then have "set bs = (\<lambda>w. (unat w, unat (hb_size (st_heap s w)))) ` {w. in_list (st_heap s) (st_HEAP s) w}"
    using in_list_spans [of "st_heap s" "st_HEAP s" bs] by (simp add: heap_is_def)
  then show ?thesis by (simp add: heap_free_def span_bytes_def)
qed

lemma heap_is_unique: "heap_is a z s bs \<Longrightarrow> heap_is a z s cs \<Longrightarrow> bs = cs"
  using chain_unique heap_free_is by (metis heap_is_def)

section \<open>The public functions\<close>

lemma critical_heap:
  assumes "f (st_heap s) (st_HEAP s) = Some (r, mem, head)"
  shows "without_interrupts (\<lambda>s. do { (r, mem, head) \<leftarrow> f (st_heap s) (st_HEAP s);
      Some (r, s\<lparr>st_heap := mem, st_HEAP := head\<rparr>) }) s =
    Some (r, s\<lparr>st_heap := mem, st_HEAP := head\<rparr>)"
proof -
  let ?g = "\<lambda>s. do { (r, mem, head) \<leftarrow> f (st_heap s) (st_HEAP s);
      Some (r, s\<lparr>st_heap := mem, st_HEAP := head\<rparr>) }"
  have "?g (cli s) = Some (r, (cli s)\<lparr>st_heap := mem, st_HEAP := head\<rparr>)"
    using assms by (simp add: cli_def)
  from without_interrupts_returns [of ?g, OF this] show ?thesis by (simp add: cli_def)
qed

lemma global_alloc_refines:
  assumes "heap_is a z s bs" and "layout_ok l"
  shows "case span_alloc (block_len l) (block_align l) bs of
      None \<Rightarrow> global_alloc l s = Some (0, s)
    | Some (p, bs') \<Rightarrow> \<exists>w mem head. global_alloc l s = Some (w, s\<lparr>st_heap := mem, st_HEAP := head\<rparr>) \<and>
        unat w = p \<and> heap_is a z (s\<lparr>st_heap := mem, st_HEAP := head\<rparr>) bs' \<and>
        (\<forall>x. unat x \<notin> heap_free s \<longrightarrow> mem x = st_heap s x)"
proof -
  have h: "seg (st_heap s) (st_HEAP s) bs 0" "chain (a - 1) z bs" "z \<le> 2 ^ 63" "0 < a"
    using assms(1) by (auto simp: heap_is_def)
  obtain len align where nm: "normalise l = Some (len, align)" "unat len = block_len l"
    "unat align = block_align l" "16 dvd block_len l" "0 < block_len l" "16 dvd block_align l"
    "0 < block_align l" "block_align l \<le> 2 ^ 63" "block_align l + block_len l < 2 ^ 64"
    using normalise_spec [OF assms(2)] by metis
  have "prev_of [] 0" by (simp add: prev_of_def)
  have "seg (st_heap s) (st_HEAP s) [] (st_HEAP s)" "chain (a - 1) z ([] @ bs)" using h(2) by simp_all
  note w = alloc_walk_refines [OF this(1) \<open>prev_of [] 0\<close> h(1) this(2) h(3) nm(3,6,7,8,2,4,5,9)]
  let ?f = "\<lambda>mem head. heap_alloc l mem head"
  have run: "?f (st_heap s) (st_HEAP s) = Some (w, mem, head) \<Longrightarrow>
      global_alloc l s = Some (w, s\<lparr>st_heap := mem, st_HEAP := head\<rparr>)" for w mem head
    using critical_heap [of ?f] by (simp add: global_alloc_def)
  show ?thesis
  proof (cases "span_alloc (block_len l) (block_align l) bs")
    case None
    then have "heap_alloc l (st_heap s) (st_HEAP s) = Some (0, st_heap s, st_HEAP s)"
      using w nm(1) by (simp add: heap_alloc_def)
    from run [OF this] show ?thesis using None by simp
  next
    case (Some r)
    obtain p bs' where r: "r = (p, bs')" by (cases r)
    with Some w nm(1) obtain v mem head where
      "heap_alloc l (st_heap s) (st_HEAP s) = Some (v, mem, head)" "unat v = p" "seg mem head bs' 0"
      "\<forall>x. unat x \<notin> span_bytes bs \<longrightarrow> mem x = st_heap s x"
      by (auto simp: heap_alloc_def)
    moreover have "chain (a - 1) z bs'"
      using span_alloc_spec [OF h(2) nm(4,5,6,7)] Some r by blast
    ultimately show ?thesis
      using run Some r h(3,4) heap_free_is [OF assms(1)]
      by (auto simp: heap_is_def intro!: exI [of _ v] exI [of _ mem] exI [of _ head])
  qed
qed

definition heap_granted :: "nat \<Rightarrow> nat \<Rightarrow> u64 \<Rightarrow> layout \<Rightarrow> bool" where
  "heap_granted a z p l \<longleftrightarrow> a \<le> unat p \<and> unat p + block_len l \<le> z \<and> 16 dvd unat p \<and>
     unat (ly_align l) dvd unat p"

definition heap_block :: "u64 \<Rightarrow> layout \<Rightarrow> nat set" where
  "heap_block p l = {unat p..<unat p + block_len l}"

lemma global_dealloc_refines:
  assumes "heap_is a z s bs" and "layout_ok l" and "heap_granted a z p l"
    and "heap_block p l \<inter> heap_free s = {}"
  shows "\<exists>mem head. global_dealloc p l s = Some (s\<lparr>st_heap := mem, st_HEAP := head\<rparr>) \<and>
    heap_is a z (s\<lparr>st_heap := mem, st_HEAP := head\<rparr>) (span_free (unat p) (block_len l) bs) \<and>
    (\<forall>x. unat x \<notin> heap_free s \<union> heap_block p l \<longrightarrow> mem x = st_heap s x)"
proof -
  have h: "seg (st_heap s) (st_HEAP s) bs 0" "chain (a - 1) z bs" "z \<le> 2 ^ 63" "0 < a"
    using assms(1) by (auto simp: heap_is_def)
  have g: "a - 1 < unat p" "16 dvd unat p" "unat p + block_len l \<le> z"
    using assms(3) h(4) by (auto simp: heap_granted_def)
  have apart: "{unat p..<unat p + block_len l} \<inter> span_bytes bs = {}"
    using assms(4) heap_free_is [OF assms(1)] by (simp add: heap_block_def)
  have z: "z < 2 ^ 64" using h(3) by simp
  obtain mem head where d: "heap_dealloc p l (st_heap s) (st_HEAP s) = Some (mem, head)"
    "seg mem head (span_free (unat p) (block_len l) bs) 0"
    "\<forall>x. unat x \<notin> span_bytes bs \<union> {unat p..<unat p + block_len l} \<longrightarrow> mem x = st_heap s x"
    using heap_dealloc_refines [OF h(1,2) z assms(2) g apart] by blast
  have "16 dvd block_len l" "0 < block_len l" using normalise_spec [OF assms(2)] by metis+
  then have "chain (a - 1) z (span_free (unat p) (block_len l) bs)"
    using span_free_spec [OF h(2) g(1,2)] g(3) apart by blast
  moreover have "global_dealloc p l s = Some (s\<lparr>st_heap := mem, st_HEAP := head\<rparr>)"
  proof -
    let ?f = "\<lambda>mem head. do { (mem, head) \<leftarrow> heap_dealloc p l mem head; Some ((), mem, head) }"
    have eq: "(\<lambda>s. do { (mem, head) \<leftarrow> heap_dealloc p l (st_heap s) (st_HEAP s);
          Some ((), s\<lparr>st_heap := mem, st_HEAP := head\<rparr>) }) =
        (\<lambda>s. do { (r, mem, head) \<leftarrow> ?f (st_heap s) (st_HEAP s);
          Some (r, s\<lparr>st_heap := mem, st_HEAP := head\<rparr>) })"
      by (rule ext) (simp add: split_def split: bind_split)
    show ?thesis
      using critical_heap [of ?f s "()" mem head] d(1) unfolding global_dealloc_def eq by simp
  qed
  ultimately show ?thesis using d h(3,4) heap_free_is [OF assms(1)]
    by (auto simp: heap_is_def heap_block_def)
qed

lemma critical_read:
  assumes "f (st_heap s) (st_HEAP s) = Some r"
  shows "without_interrupts (\<lambda>s. do { n \<leftarrow> f (st_heap s) (st_HEAP s); Some (n, s) }) s = Some (r, s)"
proof -
  let ?g = "\<lambda>s. do { n \<leftarrow> f (st_heap s) (st_HEAP s); Some (n, s) }"
  have "?g (cli s) = Some (r, cli s)" using assms by (simp add: cli_def)
  from without_interrupts_returns [of ?g, OF this] show ?thesis by (simp add: cli_def)
qed

lemma free_counts:
  assumes "heap_is a z s bs"
  shows "\<exists>n. free_bytes s = Some (n, s) \<and> unat n = card (heap_free s)"
    and "\<exists>n. free_blocks s = Some (n, s) \<and> unat n = length bs"
proof -
  have h: "seg (st_heap s) (st_HEAP s) bs 0" "chain (a - 1) z bs" "z \<le> 2 ^ 63"
    using assms by (auto simp: heap_is_def)
  have "span_bytes bs \<subseteq> {..<z}" using chain_bytes [OF h(2)] by auto
  then have "card (span_bytes bs) \<le> z" by (metis card_lessThan card_mono finite_lessThan)
  then have lt: "sum_list (map snd bs) < 2 ^ 64" "sum_list (map snd bs) = card (heap_free s)"
    using chain_sum [OF h(2)] h(3) heap_free_is [OF assms] by auto
  obtain n where n: "sum_blocks (st_heap s) 0 (st_HEAP s) = Some n" "unat n = card (heap_free s)"
    using sum_blocks_spec [OF h(1), of 0] lt by auto
  show "\<exists>n. free_bytes s = Some (n, s) \<and> unat n = card (heap_free s)"
    using critical_read [of "\<lambda>m h. sum_blocks m 0 h", OF n(1)] n(2) by (simp add: free_bytes_def)
  have "length bs < 2 ^ 64" using chain_length [OF h(2)] lt(1) by linarith
  then obtain k where k: "count_blocks (st_heap s) 0 (st_HEAP s) = Some k" "unat k = length bs"
    using count_blocks_spec [OF h(1), of 0] by auto
  show "\<exists>n. free_blocks s = Some (n, s) \<and> unat n = length bs"
    using critical_read [of "\<lambda>m h. count_blocks m 0 h", OF k(1)] k(2) by (simp add: free_blocks_def)
qed

section \<open>The allocator contract\<close>

text \<open>
  \<open>heap_take\<close> reads the null pointer as a failure. A client may write into its blocks: a header
  cell changes only where it overlaps bytes of \<open>W\<close>. \<open>heap_shape\<close> is what \<open>free_bytes\<close> and
  \<open>free_blocks\<close> report.
\<close>

definition heap_take :: "layout \<Rightarrow> 'a heap_state_scheme \<Rightarrow> (u64 option \<times> 'a heap_state_scheme) run" where
  "heap_take l s = do { (p, s') \<leftarrow> global_alloc l s; Some (nonnull_new p, s') }"

definition heap_scribble ::
    "nat set \<Rightarrow> 'a heap_state_scheme \<Rightarrow> 'a heap_state_scheme \<Rightarrow> bool" where
  "heap_scribble W s s' \<longleftrightarrow>
     (\<exists>m. s' = s\<lparr>st_heap := m\<rparr> \<and> (\<forall>x. {unat x..<unat x + 16} \<inter> W = {} \<longrightarrow> m x = st_heap s x))"

definition heap_shape :: "'a heap_state_scheme \<Rightarrow> usize option \<times> usize option" where
  "heap_shape s = (map_option fst (free_bytes s), map_option fst (free_blocks s))"

lemma heap_take_spec:
  assumes "heap_is a z s bs" and "layout_ok l"
  shows "case span_alloc (block_len l) (block_align l) bs of
      None \<Rightarrow> heap_take l s = Some (None, s)
    | Some (p, bs') \<Rightarrow> \<exists>w s'. heap_take l s = Some (Some w, s') \<and> unat w = p \<and> heap_is a z s' bs' \<and>
        heap_granted a z w l \<and> heap_block w l \<subseteq> heap_free s \<and>
        heap_free s' = heap_free s - heap_block w l"
proof (cases "span_alloc (block_len l) (block_align l) bs")
  case None
  then show ?thesis using global_alloc_refines [OF assms] by (simp add: heap_take_def nonnull_new_def)
next
  case (Some r)
  obtain p bs' where r: "r = (p, bs')" by (cases r)
  with Some global_alloc_refines [OF assms] obtain w s' where w: "global_alloc l s = Some (w, s')"
    "unat w = p" "heap_is a z s' bs'" by auto
  have h: "chain (a - 1) z bs" "0 < a" using assms(1) by (auto simp: heap_is_def)
  have nm: "16 dvd block_len l" "0 < block_len l" "16 dvd block_align l" "0 < block_align l"
    "unat (ly_align l) dvd block_align l"
    using normalise_spec [OF assms(2)] by metis+
  from span_alloc_spec [OF h(1) nm(1-4)] Some r
  have sp: "block_align l dvd p" "16 dvd p" "a - 1 < p" "{p..<p + block_len l} \<subseteq> span_bytes bs"
    "span_bytes bs' = span_bytes bs - {p..<p + block_len l}" by blast+
  have "p + block_len l - 1 \<in> span_bytes bs" using sp(4) nm(2) by auto
  then have "p + block_len l \<le> z" using chain_bytes [OF h(1)] nm(2) by fastforce
  then have "heap_granted a z w l"
    using sp(1-3) w(2) nm(5) h(2) dvd_trans by (auto simp: heap_granted_def)
  moreover have "w \<noteq> 0" using sp(3) w(2) by auto
  ultimately show ?thesis
    using w sp(4,5) Some r heap_free_is [OF assms(1)] heap_free_is [OF w(3)]
    by (auto simp: heap_take_def nonnull_new_def heap_block_def)
qed

lemma heap_scribble_is:
  assumes "heap_is a z s bs" and "W \<inter> heap_free s = {}" and "heap_scribble W s s'"
  shows "heap_is a z s' bs"
proof -
  from assms(3) obtain m where m: "s' = s\<lparr>st_heap := m\<rparr>"
    "\<And>x. {unat x..<unat x + 16} \<inter> W = {} \<Longrightarrow> m x = st_heap s x" by (auto simp: heap_scribble_def)
  have "seg m (st_HEAP s) bs 0 = seg (st_heap s) (st_HEAP s) bs 0"
  proof (rule seg_cong)
    fix x :: u64 assume "unat x \<in> fst ` set bs"
    then obtain n where n: "(unat x, n) \<in> set bs" by auto
    then have "16 \<le> n" using chain_starts assms(1) by (force simp: heap_is_def dest: dvd_imp_le)
    then have "{unat x..<unat x + 16} \<subseteq> {unat x..<unat x + n}" by simp
    also have "\<dots> \<subseteq> span_bytes bs" using n by (auto simp: span_bytes_def)
    finally have "{unat x..<unat x + 16} \<subseteq> span_bytes bs" .
    then show "m x = st_heap s x" using m(2) assms(2) heap_free_is [OF assms(1)] by blast
  qed
  then show ?thesis using assms(1) m(1) by (simp add: heap_is_def)
qed

interpretation heap: coalescing_allocator
  heap_take global_dealloc "heap_inv a z" heap_free layout_ok "heap_granted a z" heap_block
  heap_scribble heap_shape
  for a z
proof
  fix s :: "'a heap_state_scheme" and l
  assume "heap_inv a z s" "layout_ok l"
  then obtain bs where "heap_is a z s bs" by (auto simp: heap_inv_def)
  from heap_take_spec [OF this \<open>layout_ok l\<close>] show "\<exists>r. heap_take l s = Some r"
    by (auto split: option.splits)
next
  fix s s' :: "'a heap_state_scheme" and l p
  assume h: "heap_inv a z s" "layout_ok l" "heap_take l s = Some (Some p, s')"
  then obtain bs where "heap_is a z s bs" by (auto simp: heap_inv_def)
  from heap_take_spec [OF this h(2)] h(3)
  show "heap_inv a z s' \<and> heap_granted a z p l \<and> heap_block p l \<subseteq> heap_free s \<and>
      heap_free s' = heap_free s - heap_block p l"
    by (auto simp: heap_inv_def split: option.splits)
next
  fix s s' :: "'a heap_state_scheme" and l
  assume h: "heap_inv a z s" "layout_ok l" "heap_take l s = Some (None, s')"
  then obtain bs where "heap_is a z s bs" by (auto simp: heap_inv_def)
  from heap_take_spec [OF this h(2)] h(1,3) show "heap_inv a z s' \<and> heap_free s' = heap_free s"
    by (auto split: option.splits)
next
  fix s :: "'a heap_state_scheme" and l p
  assume h: "heap_inv a z s" "layout_ok l" "heap_granted a z p l" "heap_block p l \<inter> heap_free s = {}"
  then obtain bs where bs: "heap_is a z s bs" by (auto simp: heap_inv_def)
  from global_dealloc_refines [OF this h(2-4)] obtain s' where s':
    "global_dealloc p l s = Some s'" "heap_is a z s' (span_free (unat p) (block_len l) bs)" by blast
  have c: "chain (a - 1) z bs" "0 < a" using bs by (auto simp: heap_is_def)
  have nm: "16 dvd block_len l" "0 < block_len l" using normalise_spec [OF h(2)] by metis+
  have "{unat p..<unat p + block_len l} \<inter> span_bytes bs = {}"
    using h(4) heap_free_is [OF bs] by (simp add: heap_block_def)
  then have "span_bytes (span_free (unat p) (block_len l) bs) =
      span_bytes bs \<union> {unat p..<unat p + block_len l}"
    using span_free_spec [OF c(1) _ _ nm] h(3) c(2) by (auto simp: heap_granted_def)
  then have "heap_free s' = heap_free s \<union> heap_block p l"
    using heap_free_is [OF bs] heap_free_is [OF s'(2)] by (simp add: heap_block_def)
  then show "\<exists>s'. global_dealloc p l s = Some s' \<and> heap_inv a z s' \<and>
      heap_free s' = heap_free s \<union> heap_block p l"
    using s' by (auto simp: heap_inv_def)
next
  fix s s' :: "'a heap_state_scheme" and W
  assume h: "heap_inv a z s" "W \<inter> heap_free s = {}" "heap_scribble W s s'"
  then obtain bs where bs: "heap_is a z s bs" by (auto simp: heap_inv_def)
  from heap_scribble_is [OF this h(2,3)] have bs': "heap_is a z s' bs" .
  then show "heap_inv a z s' \<and> heap_free s' = heap_free s"
    using heap_free_is [OF bs] heap_free_is [OF bs'] by (auto simp: heap_inv_def)
next
  fix l p assume "layout_ok l"
  then have "0 < block_len l" using normalise_spec by metis
  then show "heap_block p l \<noteq> {}" by (simp add: heap_block_def)
next
  fix s s' :: "'a heap_state_scheme"
  assume h: "heap_inv a z s" "heap_inv a z s'" "heap_free s = heap_free s'"
  then obtain bs bs' where bs: "heap_is a z s bs" "heap_is a z s' bs'" by (auto simp: heap_inv_def)
  then have "span_bytes bs = span_bytes bs'" using h(3) heap_free_is by metis
  then have "bs = bs'" using chain_unique bs by (metis heap_is_def)
  then show "heap_shape s = heap_shape s'"
    using free_counts [OF bs(1)] free_counts [OF bs(2)] h(3)
    by (auto simp: heap_shape_def word_unat_eq_iff)
qed

end
