(* ===== verification/Heap_Theorems.thy ===== *)
theory Heap_Theorems
  imports Heap_Props
begin

text \<open>
  The properties of the kernel heap, from its initialisation out of the frame allocator to what
  every client can rely on.
\<close>

section \<open>Initialisation from the frame allocator\<close>

lemma frame_inv_heap_update [simp]:
  "frame_inv U (s\<lparr>st_heap := m, st_HEAP := h\<rparr>) = frame_inv U s"
  "free_frames (s\<lparr>st_heap := m, st_HEAP := h\<rparr>) = free_frames s"
  by (auto simp: frame_inv_def frame_state_is_def free_frames_def split: option.splits)

lemma heap_init_spec:
  assumes inv: "frame_inv U s" and low: "\<forall>f \<in> U. f + 4096 \<le> 2 ^ 52"
  shows "\<exists>r s'. heap_init s = Some (r, s') \<and> frame_inv U s' \<and>
    (r = None \<longleftrightarrow> (\<forall>run \<in> set (open_runs s). length run < 256)) \<and>
    (case r of
       None \<Rightarrow> (\<forall>run \<in> set (open_runs s). length run < 256) \<and> free_frames s' = free_frames s
     | Some (start, len) \<Rightarrow> len = 0x100000 \<and>
         heap_is (unat start) (unat start + 0x100000) s' [(unat start, 0x100000)] \<and>
         (let frames = set (frames_between (unat start) (unat start + 0x100000)) in
           frames \<subseteq> free_frames s \<and> free_frames s' = free_frames s - frames))"
proof -
  have n: "unat HEAP_FRAMES = 256" by (simp add: HEAP_FRAMES_def)
  then have "0 < unat HEAP_FRAMES" "unat HEAP_FRAMES < 2 ^ 50" by simp_all
  from alloc_contiguous_spec [OF inv this, unfolded n] obtain w s1 where w: "alloc_contiguous HEAP_FRAMES s = Some (w, s1)" "frame_inv U s1"
    "w = None \<longleftrightarrow> (\<forall>run \<in> set (open_runs s). length run < 256)"
    "case w of None \<Rightarrow> free_frames s1 = free_frames s
     | Some a \<Rightarrow> set (frames_between (unat a) (unat a + 4096 * 256)) \<subseteq> free_frames s \<and>
         free_frames s1 = free_frames s - set (frames_between (unat a) (unat a + 4096 * 256))"
    by (elim exE conjE)
  show ?thesis
  proof (cases w)
    case None
    then have "heap_init s = Some (None, s1)" using w(1) by (simp add: heap_init_def)
    then show ?thesis using w(2-4) None by simp
  next
    case (Some start)
    let ?mem = "(st_heap s1)(start := \<lparr>hb_size = 0x100000, hb_next = 0\<rparr>)"
    let ?s = "s1\<lparr>st_heap := ?mem, st_HEAP := start\<rparr>"
    have fr: "set (frames_between (unat start) (unat start + 0x100000)) \<subseteq> free_frames s"
      "free_frames s1 = free_frames s - set (frames_between (unat start) (unat start + 0x100000))"
      using w(4) Some by auto
    have "free_frames s \<subseteq> U" using inv free_frames_is by (metis frame_invE)
    moreover have "unat start \<in> set (frames_between (unat start) (unat start + 0x100000))"
      "unat start + 0xff000 \<in> set (frames_between (unat start) (unat start + 0x100000))"
      by (auto simp: frames_between_def image_iff intro: bexI [of _ 255])
    ultimately have U: "unat start \<in> U" "unat start + 0xff000 \<in> U" using fr(1) by auto
    then have start: "0 < unat start" "4096 dvd unat start" "unat start + 0x100000 \<le> 2 ^ 52"
      using inv low by (auto elim: frame_invE)
    have "checked_mul HEAP_FRAMES PAGE_SIZE = Some 0x100000" by code_simp
    moreover have "without_interrupts (\<lambda>s. Some ((), s\<lparr>st_heap := (st_heap s)(start := \<lparr>hb_size = 0x100000, hb_next = 0\<rparr>),
        st_HEAP := start\<rparr>)) s1 = Some ((), ?s)"
      using without_interrupts_returns [of "\<lambda>s. Some ((), s\<lparr>st_heap := (st_heap s)(start := \<lparr>hb_size = 0x100000, hb_next = 0\<rparr>),
        st_HEAP := start\<rparr>)" s1] by (simp add: cli_def)
    ultimately have "heap_init s = Some (Some (start, 0x100000), ?s)"
      using w(1) Some by (simp add: heap_init_def heap_arm_def del: checked_mul_Some_iff)
    moreover have "heap_is (unat start) (unat start + 0x100000) ?s [(unat start, 0x100000)]"
    proof -
      have "16 dvd unat start" using start(2) by (rule dvd_trans [rotated]) simp
      moreover have "start \<noteq> 0" using start(1) by auto
      ultimately show ?thesis using start by (simp add: heap_is_def)
    qed
    moreover have "\<not> (\<forall>run \<in> set (open_runs s). length run < 256)" using w(3) Some by simp
    moreover have "frame_inv U ?s" using w(2) by simp
    ultimately show ?thesis using fr by (intro exI [of _ "Some (start, 0x100000)"] exI [of _ ?s] conjI) simp_all
  qed
qed

text \<open>The state of the witnesses: a heap taken from a map of 300 free frames.\<close>

definition heap_map :: "memory_region list" where
  "heap_map = [memory_region_new 0x100000 300 CONVENTIONAL]"

definition heap_s0 :: heap_state where
  "heap_s0 = \<lparr>rflags = 0x202, st_phys = (\<lambda>_. \<lparr>ff_next = None\<rparr>), st_FRAMES = None,
     st_heap = (\<lambda>_. \<lparr>hb_size = 0, hb_next = 0\<rparr>), st_HEAP = 0\<rparr>"

definition heap_s1 :: heap_state where
  "heap_s1 = snd (the (frame_init heap_map heap_s0))"

definition heap_s2 :: heap_state where
  "heap_s2 = snd (the (heap_init heap_s1))"

definition demo_layout :: layout where
  "demo_layout = \<lparr>ly_size = 24, ly_align = 8\<rparr>"

definition heap_s3 :: heap_state where
  "heap_s3 = snd (the (heap_take demo_layout heap_s2))"

lemma heap_map_runs: "runs_of heap_map = [\<lparr>fr_start = 0x100000, fr_frames = 300\<rparr>]"
  by code_simp

lemma heap_map_frames: "map_frames heap_map = frames_of_run \<lparr>fr_start = 0x100000, fr_frames = 300\<rparr>"
  by (simp add: map_frames_def heap_map_runs)

lemma heap_map_ok: "map_ok heap_map"
  unfolding map_ok_def heap_map_frames by (auto simp: distinct_frames_of_run) (auto simp: frames_of_run_def)

lemma heap_map_low: "\<forall>f \<in> set (map_frames heap_map). f + 4096 \<le> 2 ^ 52"
  unfolding heap_map_frames by (auto simp: frames_of_run_def)

lemma heap_frames_run: "frame_init heap_map heap_s0 = Some (300, heap_s1)"
  unfolding heap_s1_def by (rule run_result) code_simp

lemma heap_init_run: "heap_init heap_s1 = Some (Some (0x100000, 0x100000), heap_s2)"
  unfolding heap_s2_def by (rule run_result) code_simp

lemma heap_take_run: "heap_take demo_layout heap_s2 = Some (Some 0x100000, heap_s3)"
  unfolding heap_s3_def by (rule run_result) code_simp

lemma heap_s2_is: "heap_is 0x100000 0x200000 heap_s2 [(0x100000, 0x100000)]"
  using heap_init_spec [OF frame_init_inv(1) [OF heap_map_ok heap_frames_run] heap_map_low] heap_init_run
  by auto

lemma demo_layout_ok: "layout_ok demo_layout"
  by (auto simp: layout_ok_def demo_layout_def round_up_def intro: bexI [of _ 3])

section \<open>Clients\<close>

abbreviation heap_client ::
    "'a heap_state_scheme \<Rightarrow> 'a heap_state_scheme \<Rightarrow> (u64 \<times> layout) set \<Rightarrow> bool" where
  "heap_client \<equiv> client_reach heap_take global_dealloc layout_ok heap_block heap_scribble"

lemma heap_is_inv: "heap_is a z s bs \<Longrightarrow> heap_inv a z s"
  by (auto simp: heap_inv_def)

lemma heap_client_demo: "heap_client heap_s2 heap_s3 {(0x100000, demo_layout)}"
  by (rule client_reach.alloc [OF client_reach.start], rule demo_layout_ok, rule heap_take_run)

definition heap_s4 :: heap_state where
  "heap_s4 = the (global_dealloc 0x100000 demo_layout heap_s3)"

lemma heap_give_run: "global_dealloc 0x100000 demo_layout heap_s3 = Some heap_s4"
proof -
  have "global_dealloc 0x100000 demo_layout heap_s3 \<noteq> None"
    using heap.client_never_stuck(2) [OF heap_client_demo heap_is_inv [OF heap_s2_is]] by blast
  then show ?thesis by (auto simp: heap_s4_def)
qed

lemma heap_client_freed: "heap_client heap_s2 heap_s4 {}"
  using client_reach.dealloc [OF heap_client_demo _ heap_give_run] by simp

text \<open>First fit, spelled out.\<close>

lemma span_alloc_first_fit:
  "span_alloc len align bs = Some (p, bs') \<longleftrightarrow>
     (\<exists>pre b n post. bs = pre @ (b, n) # post \<and>
        (\<forall>(b', n') \<in> set pre. n' < round_up b' align - b' + len) \<and>
        p = round_up b align \<and> p - b + len \<le> n \<and>
        bs' = pre @ keep b (p - b) @ keep (p + len) (n - (p - b) - len) @ post)"
proof (induction bs arbitrary: bs')
  case (Cons x bs)
  obtain b n where x: "x = (b, n)" by (cases x)
  show ?case
  proof (cases "round_up b align - b + len \<le> n")
    case True
    let ?p = "round_up b align"
    have r: "span_alloc len align (x # bs) =
        Some (?p, keep b (?p - b) @ keep (?p + len) (n - (?p - b) - len) @ bs)"
      using True x by (simp add: Let_def)
    show ?thesis (is "_ \<longleftrightarrow> ?R")
    proof
      assume "span_alloc len align (x # bs) = Some (p, bs')"
      then have "p = ?p" "bs' = keep b (?p - b) @ keep (?p + len) (n - (?p - b) - len) @ bs"
        unfolding r option.inject prod.inject by metis+
      then show ?R using True x
        by (intro exI [of _ "[]"] exI [of _ b] exI [of _ n] exI [of _ bs]) simp
    next
      assume ?R
      then obtain pre b' n' post where h: "x # bs = pre @ (b', n') # post"
        "\<forall>(b', n') \<in> set pre. n' < round_up b' align - b' + len" "p = round_up b' align"
        "bs' = pre @ keep b' (p - b') @ keep (p + len) (n' - (p - b') - len) @ post"
        by blast
      then have "pre = []" using True x by (cases pre) auto
      then show "span_alloc len align (x # bs) = Some (p, bs')" using h r x by simp
    qed
  next
    case False
    have "span_alloc len align (x # bs) = Some (p, bs') \<longleftrightarrow>
        (\<exists>cs. span_alloc len align bs = Some (p, cs) \<and> bs' = (b, n) # cs)"
      using False x by (auto simp: Let_def)
    also have "\<dots> \<longleftrightarrow> (\<exists>pre b' n' post. x # bs = pre @ (b', n') # post \<and>
        (\<forall>(b', n') \<in> set pre. n' < round_up b' align - b' + len) \<and>
        p = round_up b' align \<and> p - b' + len \<le> n' \<and>
        bs' = pre @ keep b' (p - b') @ keep (p + len) (n' - (p - b') - len) @ post)"
      (is "_ \<longleftrightarrow> ?R")
    proof
      assume "\<exists>cs. span_alloc len align bs = Some (p, cs) \<and> bs' = (b, n) # cs"
      then obtain cs pre b' n' post where h: "bs' = (b, n) # cs" "bs = pre @ (b', n') # post"
        "\<forall>(b', n') \<in> set pre. n' < round_up b' align - b' + len" "p = round_up b' align"
        "p - b' + len \<le> n'" "cs = pre @ keep b' (p - b') @ keep (p + len) (n' - (p - b') - len) @ post"
        using Cons.IH by blast
      then show ?R using False x
        by (intro exI [of _ "x # pre"] exI [of _ b'] exI [of _ n'] exI [of _ post]) auto
    next
      assume ?R
      then obtain pre b' n' post where h: "x # bs = pre @ (b', n') # post"
        "\<forall>(b', n') \<in> set pre. n' < round_up b' align - b' + len" "p = round_up b' align"
        "p - b' + len \<le> n'" "bs' = pre @ keep b' (p - b') @ keep (p + len) (n' - (p - b') - len) @ post"
        by blast
      then obtain pre' where pre: "pre = x # pre'" using False x by (cases pre) auto
      let ?cs = "pre' @ keep b' (p - b') @ keep (p + len) (n' - (p - b') - len) @ post"
      have "bs = pre' @ (b', n') # post" "bs' = (b, n) # ?cs"
        "\<forall>(b', n') \<in> set pre'. n' < round_up b' align - b' + len"
        using h(1,2,5) pre x by simp_all
      moreover from this h(3,4) have "span_alloc len align bs = Some (p, ?cs)"
        unfolding Cons.IH by blast
      ultimately show "\<exists>cs. span_alloc len align bs = Some (p, cs) \<and> bs' = (b, n) # cs" by blast
    qed
    finally show ?thesis .
  qed
qed simp

section \<open>Properties\<close>

text \<open>
  C13. \<open>heap::init\<close>, run after any use of the frame allocator, never panics. It fails exactly when
  no run still open to contiguous requests has 256 frames, and otherwise owns 1 MiB of frames that were free
  and are free no more, as a single free block of 1048576 bytes.
\<close>

theorem heap_init_claims:
  assumes "map_ok rs" and "\<forall>f \<in> set (map_frames rs). f + 4096 \<le> 2 ^ 52"
    and "frame_init rs s = Some (n, s0)" and "n \<noteq> 0" and "frame_client s0 s1 L"
  shows "\<exists>r s2. heap_init s1 = Some (r, s2) \<and>
    (r = None \<longleftrightarrow> (\<forall>run \<in> set (open_runs s1). length run < 256)) \<and>
    (case r of
       None \<Rightarrow> free_frames s2 = free_frames s1
     | Some (start, len) \<Rightarrow> len = 0x100000 \<and>
         (let frames = set (frames_between (unat start) (unat start + 0x100000)) in
           frames \<subseteq> free_frames s1 \<and> free_frames s2 = free_frames s1 - frames) \<and>
         heap_free s2 = {unat start..<unat start + 0x100000} \<and>
         free_bytes s2 = Some (0x100000, s2) \<and> free_blocks s2 = Some (1, s2))"
proof -
  obtain r s2 where r: "heap_init s1 = Some (r, s2)"
    "r = None \<longleftrightarrow> (\<forall>run \<in> set (open_runs s1). length run < 256)"
    "case r of
       None \<Rightarrow> (\<forall>run \<in> set (open_runs s1). length run < 256) \<and> free_frames s2 = free_frames s1
     | Some (start, len) \<Rightarrow> len = 0x100000 \<and>
         heap_is (unat start) (unat start + 0x100000) s2 [(unat start, 0x100000)] \<and>
         (let frames = set (frames_between (unat start) (unat start + 0x100000)) in
           frames \<subseteq> free_frames s1 \<and> free_frames s2 = free_frames s1 - frames)"
    using heap_init_spec [OF frame_client_inv(1) [OF assms(1,3-5)] assms(2)] by (elim exE conjE)
  show ?thesis
  proof (cases r)
    case None
    then show ?thesis using r by auto
  next
    case (Some x)
    obtain start len where x: "x = (start, len)" by (cases x)
    then have h: "heap_is (unat start) (unat start + 0x100000) s2 [(unat start, 0x100000)]"
      using r(3) Some by simp
    then have "free_bytes s2 = Some (0x100000, s2)" "free_blocks s2 = Some (1, s2)"
      using free_counts [OF h] heap_free_is [OF h] by (auto simp: word_unat_eq_iff)
    then show ?thesis using r heap_free_is [OF h] Some x by simp
  qed
qed

theorem heap_init_claims_witness:
  "\<exists>s2. heap_init heap_s1 = Some (Some (0x100000, 0x100000), s2) \<and>
    free_bytes s2 = Some (0x100000, s2) \<and> free_blocks s2 = Some (1, s2)"
  using heap_init_claims [OF heap_map_ok heap_map_low heap_frames_run _ client_reach.start]
    heap_init_run by auto

text \<open>
  C6. Heap safety: whatever a client does with \<open>alloc\<close> and \<open>dealloc\<close> (any valid layouts in any
  order, freeing what it holds, writing anything into what it holds), its live blocks are
  aligned as asked, lie inside the heap, never overlap each other or a free block, live and free
  bytes are together what was free at the start, and no call panics or loops.
\<close>

theorem heap_clients_safe:
  assumes "heap_is a z s0 bs" and "heap_client s0 s L"
  shows "live_disjoint heap_block L \<and> live_units heap_block L \<inter> heap_free s = {} \<and>
    live_units heap_block L \<union> heap_free s = heap_free s0 \<and>
    (\<forall>(p, l) \<in> L. unat (ly_align l) dvd unat p \<and> a \<le> unat p \<and> unat p + unat (ly_size l) \<le> z \<and>
       (\<exists>s'. global_dealloc p l s = Some s')) \<and>
    (\<forall>l. layout_ok l \<longrightarrow> (\<exists>r. global_alloc l s = Some r))"
proof -
  note inv = heap.client_invariant [OF assms(2) heap_is_inv [OF assms(1)]]
  note stuck = heap.client_never_stuck [OF assms(2) heap_is_inv [OF assms(1)]]
  have "unat (ly_size l) \<le> block_len l" for l
    unfolding block_len_def by (rule order.trans [OF max.cobounded1 round_up_ge])
  then have "unat (ly_align l) dvd unat p \<and> a \<le> unat p \<and> unat p + unat (ly_size l) \<le> z"
    if "heap_granted a z p l" for p l
    using that unfolding heap_granted_def by (meson add_left_mono order_trans)
  then have "\<forall>(p, l) \<in> L. unat (ly_align l) dvd unat p \<and> a \<le> unat p \<and>
      unat p + unat (ly_size l) \<le> z \<and> (\<exists>s'. global_dealloc p l s = Some s')"
    using inv stuck(2) by blast
  moreover have "\<exists>r. global_alloc l s = Some r" if "layout_ok l" for l
    using stuck(1) [OF that] by (auto simp: heap_take_def bind_eq_Some_conv)
  ultimately show ?thesis using inv by blast
qed

theorem heap_clients_safe_witness:
  "0x100000 \<notin> heap_free heap_s3 \<and> insert 0x100000 (heap_free heap_s3) \<subseteq> heap_free heap_s2 \<and>
   (\<exists>s'. global_dealloc 0x100000 demo_layout heap_s3 = Some s')"
proof -
  have "0x100000 \<in> live_units heap_block {(0x100000, demo_layout)}"
    by (simp add: live_units_def heap_block_def demo_layout_def block_len_def round_up_def)
  then show ?thesis using heap_clients_safe [OF heap_s2_is heap_client_demo] by blast
qed

text \<open>A heap that was one free block is one again once its clients have freed everything.\<close>

lemma heap_one_block:
  assumes "heap_is a z s0 [(a, z - a)]" and "heap_client s0 s {}"
  shows "heap_is a z s [(a, z - a)]"
proof -
  from heap.client_all_freed [OF assms(2) heap_is_inv [OF assms(1)]]
  obtain bs where bs: "heap_is a z s bs" "heap_free s = heap_free s0" by (auto simp: heap_inv_def)
  then have "span_bytes bs = span_bytes [(a, z - a)]" using heap_free_is assms(1) by metis
  then have "bs = [(a, z - a)]" using chain_unique bs(1) assms(1) by (metis heap_is_def)
  then show ?thesis using bs(1) by simp
qed

text \<open>
  Nothing leaks and everything coalesces: from a heap of one free block, once a client has
  freed all it allocated, in whatever order, \<open>free_blocks\<close> is 1 and \<open>free_bytes\<close> is the size of
  the heap again, the two facts the boot-time self-test checks.
\<close>

theorem heap_all_freed:
  assumes "heap_is a z s0 [(a, z - a)]" and "heap_client s0 s {}"
  shows "free_blocks s = Some (1, s) \<and> (\<exists>n. free_bytes s = Some (n, s) \<and> unat n = z - a)"
proof -
  note one = heap_one_block [OF assms]
  show ?thesis using free_counts [OF one] heap_free_is [OF one] by (auto simp: word_unat_eq_iff)
qed

theorem heap_all_freed_witness:
  "free_blocks heap_s4 = Some (1, heap_s4) \<and> (\<exists>n. free_bytes heap_s4 = Some (n, heap_s4) \<and> unat n = 0x100000)"
  using heap_all_freed [where a = "0x100000" and z = "0x200000", OF _ heap_client_freed] heap_s2_is by simp

text \<open>
  C9. \<open>GlobalAlloc::alloc\<close> is first fit with alignment, exactly: for every valid layout it returns,
  it returns null iff no free block has room after aligning its start, and then changes nothing;
  otherwise it carves the allocation out of the first block with room, at that block's first
  aligned address, and what is left before and behind stays on the list.
\<close>

theorem heap_alloc_first_fit:
  assumes "heap_is a z s bs" and "layout_ok l"
  shows "\<exists>w s'. global_alloc l s = Some (w, s') \<and>
    (if \<forall>(b, n) \<in> set bs. n < round_up b (block_align l) - b + block_len l then w = 0 \<and> s' = s
     else w \<noteq> 0 \<and> (\<exists>pre b n post. bs = pre @ (b, n) # post \<and>
       (\<forall>(b', n') \<in> set pre. n' < round_up b' (block_align l) - b' + block_len l) \<and>
       unat w = round_up b (block_align l) \<and> unat w - b + block_len l \<le> n \<and>
       heap_is a z s' (pre @ keep b (unat w - b) @
         keep (unat w + block_len l) (n - (unat w - b) - block_len l) @ post)))"
proof (cases "span_alloc (block_len l) (block_align l) bs")
  case None
  then show ?thesis
    using global_alloc_refines [OF assms] span_alloc_None [of "block_len l" "block_align l" bs] by auto
next
  case (Some r)
  obtain p bs' where r: "r = (p, bs')" by (cases r)
  obtain w s' where w: "global_alloc l s = Some (w, s')" "unat w = p" "heap_is a z s' bs'"
    using global_alloc_refines [OF assms] Some r by auto
  have "\<not> (\<forall>(b, n) \<in> set bs. n < round_up b (block_align l) - b + block_len l)"
    using Some span_alloc_None [of "block_len l" "block_align l" bs] by auto
  moreover have "w \<noteq> 0"
    using heap_take_spec [OF assms] w Some r by (auto simp: heap_take_def nonnull_new_def split: if_splits)
  ultimately show ?thesis
    using w Some [unfolded r, unfolded span_alloc_first_fit] by (intro exI [of _ w] exI [of _ s']) auto
qed

theorem heap_alloc_first_fit_witness:
  "\<exists>w s'. global_alloc demo_layout heap_s2 = Some (w, s') \<and> unat w = 0x100000 \<and>
    heap_is 0x100000 0x200000 s' [(0x100020, 0xfffe0)]"
proof -
  have "block_align demo_layout = 16" "block_len demo_layout = 32" "round_up 0x100000 16 = 0x100000"
    by (simp_all add: block_align_def block_len_def demo_layout_def round_up_def)
  then show ?thesis
    using heap_alloc_first_fit [OF heap_s2_is demo_layout_ok]
    by (auto simp: keep_def Cons_eq_append_conv)
qed

text \<open>
  C10. Freeing undoes allocating: after \<open>alloc\<close> succeeds and the owner writes anything into its
  block, \<open>dealloc\<close> returns and the free list is, block for block, the one before the allocation.
\<close>

theorem heap_alloc_dealloc:
  assumes "heap_is a z s bs" and "layout_ok l" and "global_alloc l s = Some (p, s1)" and "p \<noteq> 0"
    and "heap_scribble (heap_block p l) s1 s2"
  shows "\<exists>s3. global_dealloc p l s2 = Some s3 \<and> heap_is a z s3 bs"
proof -
  have take: "heap_take l s = Some (Some p, s1)" using assms(3,4) by (simp add: heap_take_def nonnull_new_def)
  note inv = heap_is_inv [OF assms(1)]
  from heap.alloc_some [OF inv assms(2) take]
  have s1: "heap_inv a z s1" "heap_granted a z p l" "heap_block p l \<subseteq> heap_free s"
    "heap_free s1 = heap_free s - heap_block p l" by auto
  then have "heap_block p l \<inter> heap_free s1 = {}" by auto
  from heap.scribble_ok [OF s1(1) this assms(5)]
  have s2: "heap_inv a z s2" "heap_free s2 = heap_free s1" by auto
  then have "heap_block p l \<inter> heap_free s2 = {}" using s1(4) by auto
  from heap.dealloc_ok [OF s2(1) assms(2) s1(2) this]
  obtain s3 cs where s3: "global_dealloc p l s2 = Some s3" "heap_is a z s3 cs"
    "heap_free s3 = heap_free s2 \<union> heap_block p l" by (auto simp: heap_inv_def)
  then have "heap_free s3 = heap_free s" using s1(3,4) s2(2) by auto
  then have "span_bytes cs = span_bytes bs" using heap_free_is [OF s3(2)] heap_free_is [OF assms(1)] by simp
  then have "cs = bs" using chain_unique s3(2) assms(1) by (metis heap_is_def)
  then show ?thesis using s3 by auto
qed

theorem heap_alloc_dealloc_witness:
  "\<exists>s. global_dealloc 0x100000 demo_layout heap_s3 = Some s \<and>
    heap_is 0x100000 0x200000 s [(0x100000, 0x100000)]"
proof -
  have "global_alloc demo_layout heap_s2 = Some (0x100000, heap_s3)"
    using heap_take_run by (auto simp: heap_take_def nonnull_new_def bind_eq_Some_conv split: if_splits)
  moreover have "heap_scribble (heap_block 0x100000 demo_layout) heap_s3 heap_s3"
    by (auto simp: heap_scribble_def intro: exI [of _ "st_heap heap_s3"])
  ultimately show ?thesis using heap_alloc_dealloc [OF heap_s2_is demo_layout_ok] by simp
qed

text \<open>
  C11. Coalescing is complete: in every state a client can reach, the free blocks on the list lie
  in the heap, on the 16-byte grid, and no free block ends where another begins.
\<close>

theorem heap_coalesced:
  assumes "heap_is a z s0 bs" and "heap_client s0 s L"
    and "in_list (st_heap s) (st_HEAP s) v" and "in_list (st_heap s) (st_HEAP s) w"
  shows "16 dvd unat v \<and> 16 dvd unat (hb_size (st_heap s v)) \<and> a \<le> unat v \<and>
    unat v + unat (hb_size (st_heap s v)) \<le> z \<and> unat v + unat (hb_size (st_heap s v)) \<noteq> unat w"
proof -
  from heap.client_invariant [OF assms(2) heap_is_inv [OF assms(1)]]
  obtain cs where cs: "heap_is a z s cs" by (auto simp: heap_inv_def)
  then have ch: "chain (a - 1) z cs" and seg: "seg (st_heap s) (st_HEAP s) cs 0" by (auto simp: heap_is_def)
  have v: "(unat v, unat (hb_size (st_heap s v))) \<in> set cs" and w: "(unat w, unat (hb_size (st_heap s w))) \<in> set cs"
    using in_list_spans [OF seg] assms(3,4) by blast+
  have "s + n \<noteq> t" if "chain lo z cs" "(s, n) \<in> set cs" "(t, m) \<in> set cs" for lo s n t m
    using that
  proof (induction cs arbitrary: lo)
    case (Cons x xs)
    obtain s' n' where x: "x = (s', n')" by (cases x)
    then have c: "chain (s' + n') z xs" "0 < n'" using Cons.prems(1) by auto
    show ?case
      using Cons.prems(2,3) Cons.IH [OF c(1)] chain_starts [OF c(1)] c(2) x by fastforce
  qed simp
  then show ?thesis using chain_starts [OF ch v] ch v w by force
qed

theorem heap_coalesced_witness:
  "16 dvd unat (st_HEAP heap_s3) \<and>
   unat (st_HEAP heap_s3) + unat (hb_size (st_heap heap_s3 (st_HEAP heap_s3))) \<le> 0x200000"
proof -
  have "st_HEAP heap_s3 \<noteq> 0" by code_simp
  then have "in_list (st_heap heap_s3) (st_HEAP heap_s3) (st_HEAP heap_s3)" by (rule in_list.here)
  from heap_coalesced [OF heap_s2_is heap_client_demo this this] show ?thesis by blast
qed

text \<open>
  C12. The allocator writes only where nobody else may: \<open>alloc\<close> changes header cells only inside
  bytes that were free, \<open>dealloc\<close> only there or inside the block being freed, and neither
  touches anything else of the machine state (the flags are as the caller left them).
\<close>

theorem heap_writes_confined:
  assumes "heap_is a z s bs" and "layout_ok l"
  shows "(\<exists>w m h. global_alloc l s = Some (w, s\<lparr>st_heap := m, st_HEAP := h\<rparr>) \<and>
      (\<forall>x. unat x \<notin> heap_free s \<longrightarrow> m x = st_heap s x)) \<and>
    (\<forall>p. heap_granted a z p l \<and> heap_block p l \<inter> heap_free s = {} \<longrightarrow>
      (\<exists>m h. global_dealloc p l s = Some (s\<lparr>st_heap := m, st_HEAP := h\<rparr>) \<and>
        (\<forall>x. unat x \<notin> heap_free s \<union> heap_block p l \<longrightarrow> m x = st_heap s x)))"
proof -
  have "\<exists>w m h. global_alloc l s = Some (w, s\<lparr>st_heap := m, st_HEAP := h\<rparr>) \<and>
      (\<forall>x. unat x \<notin> heap_free s \<longrightarrow> m x = st_heap s x)"
  proof (cases "span_alloc (block_len l) (block_align l) bs")
    case None
    then have "global_alloc l s = Some (0, s\<lparr>st_heap := st_heap s, st_HEAP := st_HEAP s\<rparr>)"
      using global_alloc_refines [OF assms] by simp
    then show ?thesis by blast
  next
    case (Some r)
    obtain p bs' where "r = (p, bs')" by (cases r)
    then show ?thesis using global_alloc_refines [OF assms] Some by simp blast
  qed
  then show ?thesis using global_dealloc_refines [OF assms] by blast
qed

theorem heap_writes_confined_witness:
  "\<exists>w m h. global_alloc demo_layout heap_s3 = Some (w, heap_s3\<lparr>st_heap := m, st_HEAP := h\<rparr>) \<and>
    m 0x100000 = st_heap heap_s3 0x100000"
proof -
  from heap.client_invariant [OF heap_client_demo heap_is_inv [OF heap_s2_is]]
  obtain bs where bs: "heap_is 0x100000 0x200000 heap_s3 bs"
    "live_units heap_block {(0x100000, demo_layout)} \<inter> heap_free heap_s3 = {}"
    by (auto simp: heap_inv_def)
  moreover have "0x100000 \<in> live_units heap_block {(0x100000, demo_layout)}"
    by (simp add: live_units_def heap_block_def demo_layout_def block_len_def round_up_def)
  ultimately have "unat (0x100000 :: u64) \<notin> heap_free heap_s3" by auto
  then show ?thesis using heap_writes_confined [OF bs(1) demo_layout_ok] by blast
qed

end
