(* ===== verification/Kernel_Props.thy ===== *)
theory Kernel_Props
  imports Kernel_Main Heap_Theorems
begin

text \<open>
  What the kernel's main path guarantees. The machine it runs on is one hypothesis, \<open>machine_ok\<close>:
  a 16550 and two 8259s that keep to their own ports. \<open>talks\<close> is the effect of printing; the
  bring-up theorems follow the path of \<open>_start\<close>, and the last sections prove the waiting state
  machine sound, live and free of panics under every interleaving of interrupts.
\<close>

section \<open>The machine\<close>

definition isolated :: "'d ports \<Rightarrow> ('d \<Rightarrow> 'c) \<Rightarrow> u16 set \<Rightarrow> bool" where
  "isolated p view own \<longleftrightarrow> (\<forall>port d. port \<notin> own \<longrightarrow>
     view (snd (port_in p port d)) = view d \<and> (\<forall>v. view (port_out p port v d) = view d) \<and>
     (\<forall>v. view (port_out32 p port v d) = view d))"

definition COM_PORTS :: "u16 set" where "COM_PORTS = {0x3F8..<0x400}"
definition PIC_PORTS :: "u16 set" where "PIC_PORTS = {0x20, 0x21, 0xA0, 0xA1}"

definition machine_ok :: "'d ports \<Rightarrow> ('d \<Rightarrow> uart) \<Rightarrow> ('d \<Rightarrow> pic_chip \<times> pic_chip) \<Rightarrow> bool" where
  "machine_ok p uart pics \<longleftrightarrow>
     is_16550 p uart \<and> is_8259 p (\<lambda>d. fst (pics d)) 0x20 \<and> is_8259 p (\<lambda>d. snd (pics d)) 0xA0 \<and>
     isolated p uart COM_PORTS \<and> isolated p pics PIC_PORTS"

lemma isolated_outb: "isolated p view own \<Longrightarrow> port \<notin> own \<Longrightarrow> view (outb p port v d) = view d"
  by (simp add: isolated_def outb_def)

lemma isolated_inb: "isolated p view own \<Longrightarrow> port \<notin> own \<Longrightarrow> view (snd (inb p port d)) = view d"
  by (simp add: isolated_def inb_def)

lemma port_not_own [simp]:
  "0x3F8 \<notin> PIC_PORTS" "0x3FD \<notin> PIC_PORTS" "0x20 \<notin> COM_PORTS" "0x21 \<notin> COM_PORTS"
  "0xA0 \<notin> COM_PORTS" "0xA1 \<notin> COM_PORTS" "0x80 \<notin> COM_PORTS" "0x40 \<notin> COM_PORTS" "0x43 \<notin> COM_PORTS"
  "0x60 \<notin> COM_PORTS" "0x64 \<notin> COM_PORTS" "0x40 \<notin> PIC_PORTS" "0x43 \<notin> PIC_PORTS"
  "0x60 \<notin> PIC_PORTS" "0x64 \<notin> PIC_PORTS" "0xf4 \<notin> COM_PORTS" "0xf4 \<notin> PIC_PORTS"
  by (simp_all add: COM_PORTS_def PIC_PORTS_def)

text \<open>The serial traffic of a write does not reach the other chips.\<close>

lemma uart_write_isolated:
  assumes "uart_write p b d = Some d'" and "isolated p view own"
    and "0x3F8 \<notin> own" and "0x3FD \<notin> own"
  shows "view d' = view d"
proof -
  define k where "k = (LEAST n. thr_empty p (polled p n d))"
  have "thr_empty p (polled p k d)"
    unfolding k_def using uart_write_returns [OF assms(1)] by (rule LeastI_ex)
  moreover have "\<forall>j < k. \<not> thr_empty p (polled p j d)" unfolding k_def using not_less_Least by blast
  ultimately obtain n where n: "d' = outb p (COM1 + DATA) b (polled p n d)"
    using uart_write_waits [of p k d b] assms(1) by simp
  have "view (polled p n d) = view d"
    by (induction n) (simp_all add: polled_def poll_def isolated_inb [OF assms(2)] uart_ports assms)
  then show ?thesis using n isolated_outb [OF assms(2,3)] by (simp add: uart_ports)
qed

lemma write_str_isolated:
  assumes "write_str p s (d, scr) = Some (d', scr')" and "isolated p view own"
    and "0x3F8 \<notin> own" and "0x3FD \<notin> own"
  shows "view d' = view d"
  using assms(1)
proof (induction s arbitrary: d scr)
  case (Cons b s)
  have put: "view d2 = view d1" if "put_both p c (d1, scr1) = Some (d2, scr2)" for c d1 d2 scr1 scr2
    using that uart_write_isolated [OF _ assms(2-4)] by (auto simp: put_both_def bind_eq_Some_conv)
  obtain d1 scr1 where 1: "(if b = 0x0a then put_both p 0x0d (d, scr) else Some (d, scr)) = Some (d1, scr1)"
    and rest: "Option.bind (put_both p b (d1, scr1)) (write_str p s) = Some (d', scr')"
    using Cons.prems by (auto simp: bind_eq_Some_conv)
  obtain d2 scr2 where 2: "put_both p b (d1, scr1) = Some (d2, scr2)" "write_str p s (d2, scr2) = Some (d', scr')"
    using rest by (auto simp: bind_eq_Some_conv)
  have "view d1 = view d" using 1 put by (cases "b = 0x0a") auto
  then show ?case using put [OF 2(1)] Cons.IH [OF 2(2)] by simp
qed simp

section \<open>Printing\<close>

text \<open>
  \<open>io_ok\<close>: the UART's divisor latch is closed and the console, if there is one, is sound. \<open>talks\<close>:
  the state differs from the one before only in that \<open>text\<close> was sent and shown.
\<close>

definition io_ok :: "('d \<Rightarrow> uart) \<Rightarrow> ('d, 'a) kernel_io_scheme \<Rightarrow> bool" where
  "io_ok uart s \<longleftrightarrow> \<not> ua_dlab (uart (ki_dev s)) \<and> screen_ok (ki_screen s)"

definition talks ::
    "('d \<Rightarrow> uart) \<Rightarrow> ('d \<Rightarrow> 'c) \<Rightarrow> u8 list \<Rightarrow> ('d, 'a) kernel_io_scheme \<Rightarrow> ('d, 'a) kernel_io_scheme \<Rightarrow> bool" where
  "talks uart pics text s s' \<longleftrightarrow>
     (\<exists>d scr. s' = s\<lparr>ki_dev := d, ki_screen := scr\<rparr> \<and> write_bytes_screen text (ki_screen s) = Some scr \<and>
       sent_more (uart (ki_dev s)) (crlf text) (uart d) \<and> pics d = pics (ki_dev s)) \<and> io_ok uart s'"

lemma print_talks:
  assumes "machine_ok p uart pics" and "io_ok uart s"
  shows "\<exists>s'. print p text s = Some s' \<and> talks uart pics text s s'"
proof -
  have u: "is_16550 p uart" and q: "isolated p pics PIC_PORTS" using assms(1) by (auto simp: machine_ok_def)
  have ok: "\<not> ua_dlab (uart (ki_dev s))" "screen_ok (ki_screen s)" using assms(2) by (auto simp: io_ok_def)
  obtain d scr where r: "write_str p text (ki_dev s, ki_screen s) = Some (d, scr)"
    "write_bytes_screen text (ki_screen s) = Some scr" "screen_ok scr"
    "sent_more (uart (ki_dev s)) (crlf text) (uart d)"
    using write_str_spec [OF u ok] by blast
  have pics: "pics d = pics (ki_dev s)" by (rule write_str_isolated [OF r(1) q]) simp_all
  have e: "ki_dev (cli s) = ki_dev s" "ki_screen (cli s) = ki_screen s" by (simp_all add: cli_def)
  have "without_interrupts (\<lambda>s. do {
       (d, scr) \<leftarrow> write_str p text (ki_dev s, ki_screen s);
       Some ((), s\<lparr>ki_dev := d, ki_screen := scr\<rparr>)
     }) s = Some ((), (cli s\<lparr>ki_dev := d, ki_screen := scr\<rparr>)\<lparr>rflags := rflags s\<rparr>)"
    by (rule without_interrupts_returns) (simp_all add: e r(1))
  then have "print p text s = Some (s\<lparr>ki_dev := d, ki_screen := scr\<rparr>)"
    by (simp add: print_def cli_def)
  then show ?thesis
    using r pics ok sent_more_dlab [OF r(4)] by (auto simp: talks_def io_ok_def)
qed

lemma kprintln_talks:
  assumes "machine_ok p uart pics" and "io_ok uart s"
  shows "\<exists>s'. kprintln p text s = Some s' \<and> talks uart pics (text @ [0x0a]) s s'"
  using print_talks [OF assms] by (simp add: kprintln_def)

lemma write_bytes_append:
  "write_bytes_screen (a @ b) scr = Option.bind (write_bytes_screen a scr) (write_bytes_screen b)"
  by (induction a arbitrary: scr) (auto split: Option.bind_split)

lemma crlf_append: "crlf (a @ b) = crlf a @ crlf b"
  by (simp add: crlf_def)

lemma talks_refl: "io_ok uart s \<Longrightarrow> talks uart pics [] s s"
  unfolding talks_def by (intro conjI exI [of _ "ki_dev s"] exI [of _ "ki_screen s"]) (simp_all add: crlf_def)

lemma talks_trans:
  assumes "talks uart pics a s s1" and "talks uart pics b s1 s2"
  shows "talks uart pics (a @ b) s s2"
proof -
  obtain d scr where 1: "s1 = s\<lparr>ki_dev := d, ki_screen := scr\<rparr>" "write_bytes_screen a (ki_screen s) = Some scr"
    "sent_more (uart (ki_dev s)) (crlf a) (uart d)" "pics d = pics (ki_dev s)"
    using assms(1) by (auto simp: talks_def)
  obtain d' scr' where 2: "s2 = s1\<lparr>ki_dev := d', ki_screen := scr'\<rparr>" "write_bytes_screen b (ki_screen s1) = Some scr'"
    "sent_more (uart (ki_dev s1)) (crlf b) (uart d')" "pics d' = pics (ki_dev s1)"
    using assms(2) by (auto simp: talks_def)
  have "sent_more (uart (ki_dev s)) (crlf (a @ b)) (uart d')"
    unfolding crlf_append using sent_more_trans 1(1,3) 2(3) by fastforce
  moreover have "s2 = s\<lparr>ki_dev := d', ki_screen := scr'\<rparr>" using 1(1) 2(1) by simp
  ultimately show ?thesis
    using 1 2 assms(2) unfolding talks_def by (auto simp: write_bytes_append)
qed

section \<open>Critical sections and handlers\<close>

lemma cli_restored [simp]: "(cli s)\<lparr>rflags := rflags s\<rparr> = s"
  by (simp add: cli_def)

lemma ticks_eq [simp]: "ticks s = Some (ks_TICKS s, s)"
proof -
  have "without_interrupts (\<lambda>s. Some (ks_TICKS s, s)) s = Some (ks_TICKS (cli s), (cli s)\<lparr>rflags := rflags s\<rparr>)"
    by (rule without_interrupts_returns) simp_all
  then show ?thesis by (simp add: ticks_def) (simp add: cli_def)
qed

lemma key_events_seen_eq [simp]: "key_events_seen s = Some (ks_KEY_EVENTS_SEEN s, s)"
proof -
  have "without_interrupts (\<lambda>s. Some (ks_KEY_EVENTS_SEEN s, s)) s =
      Some (ks_KEY_EVENTS_SEEN (cli s), (cli s)\<lparr>rflags := rflags s\<rparr>)"
    by (rule without_interrupts_returns) simp_all
  then show ?thesis by (simp add: key_events_seen_def) (simp add: cli_def)
qed

text \<open>A print that returns changes the device and the screen only.\<close>

lemma print_keeps:
  assumes "print p text s = Some s'"
  shows "\<exists>d scr. s' = s\<lparr>ki_dev := d, ki_screen := scr\<rparr>"
proof -
  have e: "ki_dev (cli s) = ki_dev s" "ki_screen (cli s) = ki_screen s" by (simp_all add: cli_def)
  obtain d scr where r: "write_str p text (ki_dev s, ki_screen s) = Some (d, scr)"
    using assms by (auto simp: print_def without_interrupts_cli e bind_eq_Some_conv)
  have "without_interrupts (\<lambda>s. do {
       (d, scr) \<leftarrow> write_str p text (ki_dev s, ki_screen s);
       Some ((), s\<lparr>ki_dev := d, ki_screen := scr\<rparr>)
     }) s = Some ((), (cli s\<lparr>ki_dev := d, ki_screen := scr\<rparr>)\<lparr>rflags := rflags s\<rparr>)"
    by (rule without_interrupts_returns) (simp_all add: e r)
  then have "print p text s = Some (s\<lparr>ki_dev := d, ki_screen := scr\<rparr>)"
    by (simp add: print_def cli_def)
  then have "s' = s\<lparr>ki_dev := d, ki_screen := scr\<rparr>" using assms by simp
  then show ?thesis by (intro exI)
qed

lemma kprintln_keeps: "kprintln p text s = Some s' \<Longrightarrow> \<exists>d scr. s' = s\<lparr>ki_dev := d, ki_screen := scr\<rparr>"
  unfolding kprintln_def by (rule print_keeps)

text \<open>
  What an interrupt may do to the counters: they only grow, the timer adds exactly one tick and no
  key, the keyboard at most one key and no tick, and the tables and flags stay.
\<close>

definition counters_grow :: "('d, 'a) kernel_scheme \<Rightarrow> ('d, 'a) kernel_scheme \<Rightarrow> bool" where
  "counters_grow s s' \<longleftrightarrow> unat (ks_TICKS s) \<le> unat (ks_TICKS s') \<and>
     unat (ks_KEY_EVENTS_SEEN s) \<le> unat (ks_KEY_EVENTS_SEEN s') \<and>
     unat (ks_TICKS s') \<le> unat (ks_TICKS s) + 1 \<and>
     unat (ks_KEY_EVENTS_SEEN s') \<le> unat (ks_KEY_EVENTS_SEEN s) + 1 \<and>
     ks_IDT s' = ks_IDT s \<and> rflags s' = rflags s"

lemma timer_handler_grows: "timer_handler p s = Some s' \<Longrightarrow> counters_grow s s'"
  by (auto simp: timer_handler_def counters_grow_def Let_def bind_eq_Some_conv)

lemma keyboard_handler_grows: "keyboard_handler p s = Some s' \<Longrightarrow> counters_grow s s'"
  by (auto simp: keyboard_handler_def counters_grow_def Let_def bind_eq_Some_conv
      split: option.splits dest!: kprintln_keeps)

lemma breakpoint_handler_grows: "breakpoint_handler p f s = Some s' \<Longrightarrow> counters_grow s s'"
  by (auto simp: breakpoint_handler_def counters_grow_def dest!: kprintln_keeps)

lemma unhandled_irq_handler_grows: "unhandled_irq_handler p s = Some s' \<Longrightarrow> counters_grow s s'"
  by (auto simp: unhandled_irq_handler_def counters_grow_def bind_eq_Some_conv)

lemma deliver_grows:
  assumes "deliver g s = Some s'" and "\<And>t t'. g t = Some t' \<Longrightarrow> counters_grow t t'"
  shows "counters_grow s s'"
proof -
  obtain t where "g (cli s) = Some t" "s' = t\<lparr>rflags := rflags s\<rparr>"
    using assms(1) by (auto simp: deliver_def bind_eq_Some_conv)
  then show ?thesis using assms(2) [of "cli s" t] by (auto simp: counters_grow_def cli_def)
qed

lemma dispatch_grows: "dispatch p h f v s = Some s' \<Longrightarrow> counters_grow s s'"
  by (auto simp: dispatch_def split: option.splits if_splits
      elim!: deliver_grows intro: timer_handler_grows keyboard_handler_grows breakpoint_handler_grows
        unhandled_irq_handler_grows)

section \<open>The verdict\<close>

text \<open>What each control point of the wait knows.\<close>

fun wait_inv :: "wait_pc \<Rightarrow> nat \<Rightarrow> nat \<Rightarrow> bool" where
  "wait_inv Loop_Ticks t k \<longleftrightarrow> True"
| "wait_inv Say_Timer t k \<longleftrightarrow> 100 \<le> t"
| "wait_inv Say_Waiting t k \<longleftrightarrow> 100 \<le> t"
| "wait_inv Set_Deadline t k \<longleftrightarrow> 100 \<le> t"
| "wait_inv (Loop_Key d) t k \<longleftrightarrow> 100 \<le> t \<and> 1100 \<le> unat d"
| "wait_inv (Check_Deadline d) t k \<longleftrightarrow> 100 \<le> t \<and> 1100 \<le> unat d"
| "wait_inv Say_No_Input t k \<longleftrightarrow> 1100 < t"
| "wait_inv Read_Count t k \<longleftrightarrow> 100 \<le> t \<and> 0 < k"
| "wait_inv (Say_Keyboard n) t k \<longleftrightarrow> 100 \<le> t \<and> 0 < n \<and> unat n \<le> k"
| "wait_inv (Exiting c) t k \<longleftrightarrow> (case c of Success \<Rightarrow> 100 \<le> t \<and> 0 < k | Failed \<Rightarrow> 1100 < t)"
| "wait_inv (Done c) t k \<longleftrightarrow> (case c of Success \<Rightarrow> 100 \<le> t \<and> 0 < k | Failed \<Rightarrow> 1100 < t)"

lemma wait_inv_mono: "wait_inv pc t k \<Longrightarrow> t \<le> t' \<Longrightarrow> k \<le> k' \<Longrightarrow> wait_inv pc t' k'"
  by (cases pc) (auto split: exit_code.splits)

abbreviation wait_ok :: "wait_pc \<times> ('d, 'a) kernel_scheme \<Rightarrow> bool" where
  "wait_ok st \<equiv> wait_inv (fst st) (unat (ks_TICKS (snd st))) (unat (ks_KEY_EVENTS_SEEN (snd st)))"

lemma wait_step_inv:
  assumes "wait_step p (pc, s) = Some st" and "wait_ok (pc, s)"
  shows "wait_ok st"
  using assms
  by (cases pc) (auto simp: bind_eq_Some_conv TICKS_REQUIRED_def TIMER_HZ_def word_less_nat_alt
      exit_kernel_def unat_gt_0 unat_eq_zero split: exit_code.splits dest!: kprintln_keeps)

lemma kernel_step_inv:
  assumes "kernel_step p h st st'" and "wait_ok st"
  shows "wait_ok st'"
  using assms
proof (cases rule: kernel_step.cases)
  case (program pc s)
  then show ?thesis using wait_step_inv assms(2) by blast
next
  case (interrupt s v frame s' pc)
  then show ?thesis using dispatch_grows [OF interrupt(5)] assms(2) wait_inv_mono
    by (auto simp: counters_grow_def)
qed

lemma reach_inv: "reach p h st0 st \<Longrightarrow> wait_ok st0 \<Longrightarrow> wait_ok st"
  by (induction rule: reach.induct) (auto intro: kernel_step_inv)

section \<open>Progress\<close>

definition distinct_handlers :: "handlers \<Rightarrow> bool" where
  "distinct_handlers h \<longleftrightarrow> distinct [ha_breakpoint h, ha_timer h, ha_keyboard h, ha_unhandled_irq h]"

text \<open>A state the running kernel can go on from.\<close>

definition running :: "('d \<Rightarrow> uart) \<Rightarrow> handlers \<Rightarrow> ('d, 'a) kernel_scheme \<Rightarrow> bool" where
  "running uart h s \<longleftrightarrow> io_ok uart s \<and> if_set s \<and> gates (ks_IDT s) = vector_table h"

lemma exit_isolated: "isolated p view own \<Longrightarrow> 0xf4 \<notin> own \<Longrightarrow> view (exit_write p code d) = view d"
  by (simp add: isolated_def exit_write_def ISA_DEBUG_EXIT_PORT_def)

lemma eoi_uart:
  assumes "machine_ok p uart pics"
  shows "uart (end_of_interrupt p v d) = uart d"
proof -
  have q: "isolated p uart COM_PORTS" using assms by (simp add: machine_ok_def)
  show ?thesis by (simp add: end_of_interrupt_def Let_def pic_ports isolated_outb [OF q])
qed

lemma talks_running: "talks uart pics text s s' \<Longrightarrow> running uart h s \<Longrightarrow> running uart h s'"
  by (auto simp: talks_def running_def if_set_def)

lemma talks_counters:
  fixes s :: "('d, 'a) kernel_scheme"
  assumes "talks uart pics text s s'"
  shows "ks_TICKS s' = ks_TICKS s \<and> ks_KEY_EVENTS_SEEN s' = ks_KEY_EVENTS_SEEN s"
  using assms by (auto simp: talks_def)

lemma wait_step_total:
  fixes s :: "('d, 'a) kernel_scheme"
  assumes m: "machine_ok p uart pics" and r: "running uart h s"
    and small: "unat (ks_TICKS s) + 1000 < 2 ^ 64"
  shows "\<exists>pc' s'. wait_step p (pc, s) = Some (pc', s') \<and> running uart h s' \<and>
    ks_TICKS s' = ks_TICKS s \<and> ks_KEY_EVENTS_SEEN s' = ks_KEY_EVENTS_SEEN s"
proof -
  have io: "io_ok uart s" using r by (simp add: running_def)
  have say: "\<exists>pc' s'. Option.bind (kprintln p msg s) (\<lambda>s. Some (q, s)) = Some (pc', s') \<and>
      running uart h s' \<and> ks_TICKS s' = ks_TICKS s \<and> ks_KEY_EVENTS_SEEN s' = ks_KEY_EVENTS_SEEN s" for msg and q :: wait_pc
  proof -
    obtain s' where "kprintln p msg s = Some s'" "talks uart pics (msg @ [0x0a]) s s'"
      using kprintln_talks [OF m io] by blast
    then show ?thesis using talks_running [OF _ r] talks_counters by fastforce
  qed
  have span: "checked_mul (ucast TIMER_HZ) 10 = Some (1000 :: u64)" by code_simp
  have "\<exists>d. checked_add (ks_TICKS s) 1000 = Some d"
    using small by (simp add: checked_add_def)
  then obtain d where d: "checked_add (ks_TICKS s) 1000 = Some d" by blast
  have "uart (exit_write p c (ki_dev s)) = uart (ki_dev s)" for c
    using exit_isolated [of p uart COM_PORTS] m by (simp add: machine_ok_def)
  then have out: "running uart h (exit_kernel p c s)" for c
    using r by (simp add: running_def exit_kernel_def io_ok_def if_set_def)
  show ?thesis
  proof (cases pc)
    case (Exiting c)
    then show ?thesis using out [of c] by (simp add: exit_kernel_def)
  qed (use say r in \<open>simp_all add: span d del: checked_add_Some_iff checked_mul_Some_iff\<close>)
qed

lemma timer_handler_total:
  assumes "machine_ok p uart pics" and "io_ok uart s" and "unat (ks_TICKS s) + 1 < 2 ^ 64"
  shows "\<exists>s'. timer_handler p s = Some s' \<and> io_ok uart s'"
proof -
  have "checked_add (ks_TICKS s) 1 = Some (ks_TICKS s + 1)" using assms(3) by (simp add: checked_add_def)
  then show ?thesis
    using assms(2) eoi_uart [OF assms(1)]
    by (simp add: timer_handler_def Let_def io_ok_def del: checked_add_Some_iff)
qed

lemma keyboard_handler_total:
  assumes m: "machine_ok p uart pics" and io: "io_ok uart s"
    and small: "unat (ks_KEY_EVENTS_SEEN s) + 1 < 2 ^ 64"
  shows "\<exists>s'. keyboard_handler p s = Some s' \<and> io_ok uart s'"
proof -
  obtain r where r: "read_key p (ki_dev s) = Some (r, snd (port_in p 0x60 (ki_dev s)))"
    by (rule exE [OF read_key_total])
  let ?d = "snd (port_in p 0x60 (ki_dev s))"
  have "uart ?d = uart (ki_dev s)" using m by (simp add: machine_ok_def isolated_def)
  then have io1: "io_ok uart (s\<lparr>ki_dev := ?d\<rparr>)" "io_ok uart (s\<lparr>ki_dev := ?d, ks_KEY_EVENTS_SEEN := n\<rparr>)" for n
    using io by (simp_all add: io_ok_def)
  obtain n where n: "checked_add (ks_KEY_EVENTS_SEEN s) 1 = Some n"
    using small by (simp add: checked_add_def)
  have fin: "io_ok uart (t\<lparr>ki_dev := end_of_interrupt p KEYBOARD_VECTOR (ki_dev t)\<rparr>)" if "io_ok uart t" for t :: "('a, 'c) kernel_scheme"
    using that eoi_uart [OF m] by (simp add: io_ok_def)
  show ?thesis
  proof (cases r)
    case None
    then show ?thesis using r fin [OF io1(1)] by (simp add: keyboard_handler_def Let_def)
  next
    case (Some k)
    obtain s' where "kprintln p (ascii ''key: '' @ show_char k) (s\<lparr>ki_dev := ?d, ks_KEY_EVENTS_SEEN := n\<rparr>) = Some s'"
      "io_ok uart s'"
      using kprintln_talks [OF m io1(2)] by (auto simp: talks_def)
    then show ?thesis using r n Some fin
      by (simp add: keyboard_handler_def Let_def del: checked_add_Some_iff)
  qed
qed

lemma dispatch_irq:
  assumes "gates (ks_IDT s) = vector_table h" and "distinct_handlers h"
  shows "dispatch p h frame TIMER_VECTOR s = deliver (timer_handler p) s"
    and "dispatch p h frame KEYBOARD_VECTOR s = deliver (keyboard_handler p) s"
    and "dispatch p h frame 3 s = deliver (breakpoint_handler p frame) s"
proof -
  have g: "read_gate (ks_IDT s ! unat v) = vector_table h v" for v
    using assms(1) by (simp add: gates_def fun_eq_iff)
  show "dispatch p h frame TIMER_VECTOR s = deliver (timer_handler p) s"
    and "dispatch p h frame KEYBOARD_VECTOR s = deliver (keyboard_handler p) s"
    and "dispatch p h frame 3 s = deliver (breakpoint_handler p frame) s"
    using assms(2) unfolding dispatch_def g
    by (auto simp: vector_table_def wanted_gate_def TIMER_VECTOR_def KEYBOARD_VECTOR_def PIC1_OFFSET_def
        distinct_handlers_def)
qed

lemma deliver_total:
  assumes "g (cli s) = Some t" and "io_ok uart t" and "ks_IDT t = ks_IDT s" and "running uart h s"
  shows "\<exists>s'. deliver g s = Some s' \<and> running uart h s'"
  using assms by (auto simp: deliver_def running_def io_ok_def if_set_def)

lemma dispatch_total:
  assumes m: "machine_ok p uart pics" and r: "running uart h s" and "distinct_handlers h"
    and v: "v = TIMER_VECTOR \<or> v = KEYBOARD_VECTOR"
    and small: "unat (ks_TICKS s) + 1 < 2 ^ 64" "unat (ks_KEY_EVENTS_SEEN s) + 1 < 2 ^ 64"
  shows "\<exists>s'. dispatch p h frame v s = Some s' \<and> running uart h s'"
proof -
  have g: "gates (ks_IDT s) = vector_table h" using r by (simp add: running_def)
  have io: "io_ok uart (cli s)" using r by (simp add: running_def io_ok_def cli_def)
  obtain t where t: "timer_handler p (cli s) = Some t" "io_ok uart t"
    using timer_handler_total [OF m io] small by (auto simp: cli_def)
  obtain k where k: "keyboard_handler p (cli s) = Some k" "io_ok uart k"
    using keyboard_handler_total [OF m io] small by (auto simp: cli_def)
  have "ks_IDT t = ks_IDT s" "ks_IDT k = ks_IDT s"
    using timer_handler_grows [OF t(1)] keyboard_handler_grows [OF k(1)]
    by (auto simp: counters_grow_def cli_def)
  then have "\<exists>s'. deliver (timer_handler p) s = Some s' \<and> running uart h s'"
    and "\<exists>s'. deliver (keyboard_handler p) s = Some s' \<and> running uart h s'"
    using deliver_total [where g = "timer_handler p" and t = t, OF t _ r]
      deliver_total [where g = "keyboard_handler p" and t = k, OF k _ r] by auto
  then show ?thesis using v dispatch_irq [OF g assms(3), of p frame] by auto
qed

section \<open>Schedules\<close>

text \<open>A schedule of program steps and interrupts, run by the machine.\<close>

datatype event = Program | Timer_irq stack_frame | Key_irq stack_frame

fun machine_step ::
    "'d ports \<Rightarrow> handlers \<Rightarrow> event \<Rightarrow> wait_pc \<times> ('d, 'a) kernel_scheme \<Rightarrow> (wait_pc \<times> ('d, 'a) kernel_scheme) run" where
  "machine_step p h Program st = wait_step p st"
| "machine_step p h (Timer_irq f) (pc, s) = map_option (Pair pc) (dispatch p h f TIMER_VECTOR s)"
| "machine_step p h (Key_irq f) (pc, s) = map_option (Pair pc) (dispatch p h f KEYBOARD_VECTOR s)"

fun run_schedule ::
    "'d ports \<Rightarrow> handlers \<Rightarrow> event list \<Rightarrow> wait_pc \<times> ('d, 'a) kernel_scheme \<Rightarrow> (wait_pc \<times> ('d, 'a) kernel_scheme) run" where
  "run_schedule p h [] st = Some st"
| "run_schedule p h (e # es) st = do { st' \<leftarrow> machine_step p h e st; run_schedule p h es st' }"

lemma machine_step_total:
  fixes s :: "('d, 'a) kernel_scheme"
  assumes m: "machine_ok p uart pics" and r: "running uart h s" and "distinct_handlers h"
    and small: "unat (ks_TICKS s) + n + 1000 < 2 ^ 64" "unat (ks_KEY_EVENTS_SEEN s) + n < 2 ^ 64" "0 < n"
  shows "\<exists>pc' s'. machine_step p h e (pc, s) = Some (pc', s') \<and> running uart h s' \<and>
    unat (ks_TICKS s) \<le> unat (ks_TICKS s') \<and> unat (ks_KEY_EVENTS_SEEN s) \<le> unat (ks_KEY_EVENTS_SEEN s') \<and>
    unat (ks_TICKS s') \<le> unat (ks_TICKS s) + 1 \<and>
    unat (ks_KEY_EVENTS_SEEN s') \<le> unat (ks_KEY_EVENTS_SEEN s) + 1 \<and>
    (e \<noteq> Program \<longrightarrow> pc' = pc)"
proof -
  have irq: "\<exists>s'. dispatch p h f v s = Some s' \<and> running uart h s' \<and>
    unat (ks_TICKS s) \<le> unat (ks_TICKS s') \<and> unat (ks_KEY_EVENTS_SEEN s) \<le> unat (ks_KEY_EVENTS_SEEN s') \<and>
    unat (ks_TICKS s') \<le> unat (ks_TICKS s) + 1 \<and>
    unat (ks_KEY_EVENTS_SEEN s') \<le> unat (ks_KEY_EVENTS_SEEN s) + 1"
    if v: "v = TIMER_VECTOR \<or> v = KEYBOARD_VECTOR" for f v
  proof -
    obtain s' where s': "dispatch p h f v s = Some s'" "running uart h s'"
      using dispatch_total [OF m r assms(3) v, of f] small by auto
    then show ?thesis using dispatch_grows [OF s'(1)] by (auto simp: counters_grow_def)
  qed
  show ?thesis
  proof (cases e)
    case Program
    obtain pc' s' where "wait_step p (pc, s) = Some (pc', s')" "running uart h s'"
      "ks_TICKS s' = ks_TICKS s" "ks_KEY_EVENTS_SEEN s' = ks_KEY_EVENTS_SEEN s"
      using wait_step_total [OF m r, of pc] small by auto
    then show ?thesis using Program by simp
  next
    case (Timer_irq f)
    then show ?thesis using irq [of TIMER_VECTOR f] by auto
  next
    case (Key_irq f)
    then show ?thesis using irq [of KEYBOARD_VECTOR f] by auto
  qed
qed

lemma run_schedule_total:
  fixes s :: "('d, 'a) kernel_scheme"
  assumes m: "machine_ok p uart pics" and "distinct_handlers h" and "running uart h s"
    and "unat (ks_TICKS s) + length es + 1000 < 2 ^ 64" and "unat (ks_KEY_EVENTS_SEEN s) + length es < 2 ^ 64"
  shows "\<exists>pc' s'. run_schedule p h es (pc, s) = Some (pc', s') \<and> running uart h s'"
  using assms(3-)
proof (induction es arbitrary: pc s)
  case (Cons e es)
  obtain pc1 s1 where 1: "machine_step p h e (pc, s) = Some (pc1, s1)" "running uart h s1"
    "unat (ks_TICKS s1) \<le> unat (ks_TICKS s) + 1"
    "unat (ks_KEY_EVENTS_SEEN s1) \<le> unat (ks_KEY_EVENTS_SEEN s) + 1"
    using machine_step_total [OF m Cons.prems(1) assms(2), of "length (e # es)" e pc] Cons.prems(2,3)
    by auto
  then show ?case using Cons.IH [OF 1(2), of pc1] Cons.prems by auto
qed simp

section \<open>Deciding in time\<close>

text \<open>How many program steps a control point is away from the exit, when it no longer has to wait.\<close>

fun rank :: "wait_pc \<Rightarrow> nat" where
  "rank Loop_Ticks = 8" | "rank Say_Timer = 7" | "rank Say_Waiting = 6" | "rank Set_Deadline = 5"
| "rank (Loop_Key d) = 4" | "rank (Check_Deadline d) = 3" | "rank Read_Count = 3"
| "rank Say_No_Input = 2" | "rank (Say_Keyboard k) = 2" | "rank (Exiting c) = 1" | "rank (Done c) = 0"

text \<open>Enough ticks and a key have arrived, and the path to success has not been left.\<close>

fun on_course :: "wait_pc \<Rightarrow> bool" where
  "on_course (Check_Deadline d) \<longleftrightarrow> False" | "on_course Say_No_Input \<longleftrightarrow> False"
| "on_course (Exiting c) \<longleftrightarrow> c = Success" | "on_course (Done c) \<longleftrightarrow> c = Success"
| "on_course _ \<longleftrightarrow> True"

definition winning :: "wait_pc \<Rightarrow> ('d, 'a) kernel_scheme \<Rightarrow> bool" where
  "winning pc s \<longleftrightarrow> on_course pc \<and> 100 \<le> unat (ks_TICKS s) \<and> 0 < unat (ks_KEY_EVENTS_SEEN s)"

text \<open>The deadline is set and has passed, or the loop is over.\<close>

fun late_at :: "wait_pc \<Rightarrow> nat \<Rightarrow> bool" where
  "late_at Loop_Ticks t \<longleftrightarrow> False" | "late_at Say_Timer t \<longleftrightarrow> False"
| "late_at Say_Waiting t \<longleftrightarrow> False" | "late_at Set_Deadline t \<longleftrightarrow> False"
| "late_at (Loop_Key d) t \<longleftrightarrow> unat d < t" | "late_at (Check_Deadline d) t \<longleftrightarrow> unat d < t"
| "late_at _ t \<longleftrightarrow> True"

definition late :: "wait_pc \<Rightarrow> ('d, 'a) kernel_scheme \<Rightarrow> bool" where
  "late pc s \<longleftrightarrow> late_at pc (unat (ks_TICKS s))"

lemma winning_step:
  "wait_step p (pc, s) = Some (pc', s') \<Longrightarrow> winning pc s \<Longrightarrow> winning pc' s' \<and> rank pc' \<le> rank pc - 1"
  by (cases pc) (auto simp: winning_def bind_eq_Some_conv TICKS_REQUIRED_def word_less_nat_alt
      exit_kernel_def dest!: kprintln_keeps)

lemma late_step:
  "wait_step p (pc, s) = Some (pc', s') \<Longrightarrow> late pc s \<Longrightarrow> late pc' s' \<and> rank pc' \<le> rank pc - 1"
  by (cases pc) (auto simp: late_def bind_eq_Some_conv word_less_nat_alt exit_kernel_def
      dest!: kprintln_keeps)

lemma winning_grows: "counters_grow s s' \<Longrightarrow> winning pc s \<Longrightarrow> winning pc s'"
  by (auto simp: winning_def counters_grow_def)

lemma late_grows: "counters_grow s s' \<Longrightarrow> late pc s \<Longrightarrow> late pc s'"
  by (cases pc) (auto simp: late_def counters_grow_def)

definition programs :: "event list \<Rightarrow> nat" where
  "programs es = length (filter (\<lambda>e. e = Program) es)"

lemma run_schedule_rank:
  assumes "\<And>pc s pc' s'. wait_step p (pc, s) = Some (pc', s') \<Longrightarrow> Q pc s \<Longrightarrow> Q pc' s' \<and> rank pc' \<le> rank pc - 1"
    and "\<And>pc s s'. counters_grow s s' \<Longrightarrow> Q pc s \<Longrightarrow> Q pc s'"
    and "run_schedule p h es (pc, s) = Some (pc', s')" and "Q pc s"
  shows "Q pc' s' \<and> rank pc' \<le> rank pc - programs es"
  using assms(3,4)
proof (induction es arbitrary: pc s)
  case Nil
  then show ?case by (simp add: programs_def)
next
  case (Cons e es)
  obtain pc1 s1 where 1: "machine_step p h e (pc, s) = Some (pc1, s1)"
    and rest: "run_schedule p h es (pc1, s1) = Some (pc', s')"
    using Cons.prems(1) by (auto simp: bind_eq_Some_conv)
  have "Q pc1 s1 \<and> rank pc1 \<le> rank pc - (if e = Program then 1 else 0)"
  proof (cases e)
    case Program
    then show ?thesis using assms(1) 1 Cons.prems(2) by auto
  next
    case (Timer_irq f)
    then show ?thesis using assms(2) [OF dispatch_grows] 1 Cons.prems(2) by auto
  next
    case (Key_irq f)
    then show ?thesis using assms(2) [OF dispatch_grows] 1 Cons.prems(2) by auto
  qed
  then show ?case using Cons.IH [OF rest] by (auto simp: programs_def split: if_splits)
qed

text \<open>A schedule is a path of the machine.\<close>

lemma wait_step_flags: "wait_step p (pc, s) = Some (pc', s') \<Longrightarrow> rflags s' = rflags s"
  by (cases pc) (auto simp: bind_eq_Some_conv exit_kernel_def dest!: kprintln_keeps)

lemma machine_step_kernel_step:
  assumes "machine_step p h e (pc, s) = Some (pc', s')" and "if_set s"
  shows "kernel_step p h (pc, s) (pc', s') \<and> if_set s'"
proof (cases e)
  case Program
  then show ?thesis using assms wait_step_flags [of p pc s pc' s']
    by (auto intro: kernel_step.program simp: if_set_def)
next
  case (Timer_irq f)
  then show ?thesis using assms dispatch_grows [of p h f TIMER_VECTOR s s']
    by (auto intro: kernel_step.interrupt simp: if_set_def counters_grow_def)
next
  case (Key_irq f)
  then show ?thesis using assms dispatch_grows [of p h f KEYBOARD_VECTOR s s']
    by (auto intro: kernel_step.interrupt simp: if_set_def counters_grow_def)
qed

lemma run_schedule_reach:
  "run_schedule p h es (pc, s) = Some (pc', s') \<Longrightarrow> reach p h st0 (pc, s) \<Longrightarrow> if_set s \<Longrightarrow>
    reach p h st0 (pc', s')"
proof (induction es arbitrary: pc s)
  case (Cons e es)
  obtain pc1 s1 where 1: "machine_step p h e (pc, s) = Some (pc1, s1)"
    and rest: "run_schedule p h es (pc1, s1) = Some (pc', s')"
    using Cons.prems(1) by (auto simp: bind_eq_Some_conv)
  have "kernel_step p h (pc, s) (pc1, s1)" "if_set s1"
    using machine_step_kernel_step [OF 1 Cons.prems(3)] by auto
  then show ?case using Cons.IH [OF rest] Cons.prems(2) by (blast intro: reach.step)
qed simp

text \<open>A machine with a UART and the two controllers, for the examples.\<close>

definition demo_machine :: "(uart \<times> pic_chip \<times> pic_chip) ports" where
  "demo_machine = \<lparr>port_in = (\<lambda>port (u, c).
       if port \<in> COM_PORTS then (fst (port_in demo_uart port u), snd (port_in demo_uart port u), c)
       else (0, u, c)),
     port_out = (\<lambda>port v (u, c). (if port \<in> COM_PORTS then port_out demo_uart port v u else u,
       port_out demo_pics port v c)),
     port_out32 = (\<lambda>_ _ d. d)\<rparr>"

lemma demo_machine_ok: "machine_ok demo_machine fst snd"
proof -
  have com: "0x3F8 + r \<in> COM_PORTS" if "r < 8" for r :: u16
  proof -
    have "unat (0x3F8 + r) = 0x3F8 + unat r"
      using that unat_add_small [of "0x3F8 :: u16" r] by (simp add: word_less_nat_alt)
    then show ?thesis using that by (simp add: COM_PORTS_def word_less_nat_alt word_le_nat_alt)
  qed
  have "0x3FD \<in> COM_PORTS" by (simp add: COM_PORTS_def)
  then have "is_16550 demo_machine fst"
    using demo_uart_ok com by (auto simp: is_16550_def demo_machine_def split_beta)
  moreover have "is_8259 demo_machine (\<lambda>d. fst (snd d)) 0x20" "is_8259 demo_machine (\<lambda>d. snd (snd d)) 0xA0"
    using demo_pics_ok by (auto simp: is_8259_def demo_machine_def split_beta decodes_only_def)
  moreover have "isolated demo_machine fst COM_PORTS" by (auto simp: isolated_def demo_machine_def)
  moreover have "isolated demo_machine snd PIC_PORTS"
    by (auto simp: isolated_def demo_machine_def demo_pics_def PIC_PORTS_def split_beta)
  ultimately show ?thesis by (simp add: machine_ok_def)
qed

definition waiting_kernel :: "(uart \<times> pic_chip \<times> pic_chip) kernel" where
  "waiting_kernel = \<lparr>rflags = 0x202, st_phys = (\<lambda>_. \<lparr>ff_next = None\<rparr>), st_FRAMES = None,
     st_heap = (\<lambda>_. \<lparr>hb_size = 0, hb_next = 0\<rparr>), st_HEAP = 0,
     ki_dev = (uart_junk\<lparr>ua_dlab := False\<rparr>, pic_junk, pic_junk),
     ki_screen = \<lparr>sc_CONSOLE = None, sc_pixels = \<lambda>_. 0\<rparr>, ks_TICKS = 100, ks_KEY_EVENTS_SEEN = 1,
     ks_IDT = fst (the (idt_init demo_handlers demo_statics (idt_new, boot_descriptors))),
     ks_tables = boot_descriptors\<rparr>"

lemma waiting_kernel_running: "running fst demo_handlers waiting_kernel"
  using idt_init_gates_lemma [of demo_handlers demo_statics boot_descriptors]
  by (auto simp: running_def waiting_kernel_def io_ok_def screen_ok_def if_set_def IF_FLAG_def uart_junk_def)

lemma demo_handlers_distinct: "distinct_handlers demo_handlers"
  by (simp add: distinct_handlers_def demo_handlers_def)

section \<open>Properties of the wait\<close>

text \<open>
  C1. The verdict is sound under every interleaving of the two interrupts with the program: the
  kernel reports success only after at least 100 timer ticks and at least one key event, and
  failure only when more than 1100 ticks have gone by.
\<close>

theorem kernel_verdict_sound:
  assumes "reach p h (Loop_Ticks, s0) (Done code, s)"
  shows "case code of
      Success \<Rightarrow> 100 \<le> unat (ks_TICKS s) \<and> 0 < unat (ks_KEY_EVENTS_SEEN s)
    | Failed \<Rightarrow> 1100 < unat (ks_TICKS s)"
  using reach_inv [OF assms] by simp

lemma waiting_kernel_succeeds:
  "\<exists>s. reach demo_machine demo_handlers (Loop_Ticks, waiting_kernel) (Done Success, s)"
proof -
  let ?es = "replicate 8 Program"
  obtain pc s where r: "run_schedule demo_machine demo_handlers ?es (Loop_Ticks, waiting_kernel) = Some (pc, s)"
    using run_schedule_total [OF demo_machine_ok demo_handlers_distinct waiting_kernel_running, of ?es Loop_Ticks]
    by (auto simp: waiting_kernel_def)
  have w: "winning Loop_Ticks waiting_kernel" by (simp add: winning_def waiting_kernel_def)
  have "winning pc s \<and> rank pc \<le> 8 - programs ?es"
    using run_schedule_rank [of demo_machine winning, OF winning_step winning_grows r w] by simp
  then have "pc = Done Success" by (cases pc) (auto simp: winning_def programs_def)
  moreover have "if_set waiting_kernel" using waiting_kernel_running by (simp add: running_def)
  ultimately show ?thesis using run_schedule_reach [OF r reach.start] by blast
qed

theorem kernel_verdict_sound_witness:
  "\<exists>s. reach demo_machine demo_handlers (Loop_Ticks, waiting_kernel) (Done Success, s) \<and>
    100 \<le> unat (ks_TICKS s) \<and> 0 < unat (ks_KEY_EVENTS_SEEN s)"
  using waiting_kernel_succeeds kernel_verdict_sound by fastforce

text \<open>
  C2. Liveness: on a machine whose devices keep to their ports, no schedule of program steps and
  interrupts makes the waiting kernel panic, fault or hang in a print; with 100 ticks and a key counted it
  reports success within eight program steps, and once the deadline has passed it leaves the wait
  within as many, however interrupts are interleaved.
\<close>

theorem kernel_decides:
  fixes s :: "('d, 'a) kernel_scheme"
  assumes "machine_ok p uart pics" and "distinct_handlers h" and "running uart h s"
    and "unat (ks_TICKS s) + length es + 1000 < 2 ^ 64" and "unat (ks_KEY_EVENTS_SEEN s) + length es < 2 ^ 64"
    and "8 \<le> programs es"
  shows "\<exists>pc' s'. run_schedule p h es (pc, s) = Some (pc', s') \<and>
    (pc = Loop_Ticks \<and> 100 \<le> unat (ks_TICKS s) \<and> 0 < unat (ks_KEY_EVENTS_SEEN s) \<longrightarrow> pc' = Done Success) \<and>
    (\<forall>d. (pc = Loop_Key d \<or> pc = Check_Deadline d) \<and> d < ks_TICKS s \<longrightarrow> (\<exists>code. pc' = Done code))"
proof -
  obtain pc' s' where r: "run_schedule p h es (pc, s) = Some (pc', s')"
    using run_schedule_total [OF assms(1-5), of pc] by blast
  have fin: "\<exists>code. q = Done code" if "rank q \<le> 8 - programs es" for q
    using that assms(6) by (cases q) auto
  have rank8: "rank q \<le> 8" for q by (cases q) auto
  have "pc' = Done Success"
    if "pc = Loop_Ticks \<and> 100 \<le> unat (ks_TICKS s) \<and> 0 < unat (ks_KEY_EVENTS_SEEN s)"
  proof -
    have "winning pc s" using that by (simp add: winning_def)
    from run_schedule_rank [of p winning, OF winning_step winning_grows r this]
    have "winning pc' s' \<and> rank pc' \<le> 8 - programs es" using that by simp
    then show ?thesis using fin [of pc'] by (auto simp: winning_def)
  qed
  moreover have "\<exists>code. pc' = Done code" if "(pc = Loop_Key d \<or> pc = Check_Deadline d) \<and> d < ks_TICKS s" for d
  proof -
    have "late pc s" using that by (auto simp: late_def word_less_nat_alt)
    from run_schedule_rank [of p late, OF late_step late_grows r this]
    have "rank pc' \<le> rank pc - programs es" by simp
    then have "rank pc' \<le> 8 - programs es" using rank8 [of pc] by linarith
    then show ?thesis by (rule fin)
  qed
  ultimately show ?thesis using r by blast
qed

definition demo_frame :: stack_frame where
  "demo_frame = \<lparr>sf_instruction_pointer = 0x201234, sf_code_segment = 8, sf_cpu_flags = 0x202,
     sf_stack_pointer = 0x300000, sf_stack_segment = 0x10\<rparr>"

theorem kernel_decides_witness:
  "\<exists>s. run_schedule demo_machine demo_handlers
      ([Program, Timer_irq demo_frame, Key_irq demo_frame] @ replicate 5 Program @ [Timer_irq demo_frame, Program, Program])
      (Loop_Ticks, waiting_kernel) = Some (Done Success, s)"
  using kernel_decides [OF demo_machine_ok demo_handlers_distinct waiting_kernel_running,
      of "[Program, Timer_irq demo_frame, Key_irq demo_frame] @ replicate 5 Program @ [Timer_irq demo_frame, Program, Program]" Loop_Ticks]
  by (auto simp: waiting_kernel_def programs_def)

end
