(* ===== verification/Kernel_Boot.thy ===== *)
theory Kernel_Boot
  imports Kernel_Props
begin

text \<open>
  The path of \<open>_start\<close> to the point where interrupts come on: what \<open>fill_screen\<close> paints is the
  cleared screen the console starts from, and the bring-up either leaves everything the wait relies
  on in place or ends in a reported failure.
\<close>

section \<open>The painted screen\<close>

text \<open>The four bytes of the background in the two formats are the console's background.\<close>

lemma console_new_colours:
  assumes "console_new fb = Some c"
  obtains f where "fb_pixel_format fb = Some f" and "co_background c = pack f 0x00 0x33 0x99"
    and "fb_bytes_per_pixel fb = 4"
proof -
  obtain f where f: "fb_pixel_format fb = Some f"
    using assms by (auto simp: console_new_def split: option.splits)
  from assms [unfolded console_new_def f Let_def option.case]
  have "co_background c = pack f 0x00 0x33 0x99" "fb_bytes_per_pixel fb = 4"
    by (auto simp: usize_val_Some split: if_splits elim!: run_bindE)
  then show thesis using that f by blast
qed

lemma console_new_foreground:
  assumes "console_new fb = Some c" and "fb_pixel_format fb = Some f"
  shows "co_foreground c = pack f 0xE0 0xE0 0xE0"
  using assms(1) [unfolded console_new_def assms(2) Let_def option.case]
  by (auto simp: usize_val_Some split: if_splits elim!: run_bindE)

definition background_bytes :: "pixel_format_kind \<Rightarrow> u8 list" where
  "background_bytes f = (case f of Rgb \<Rightarrow> [0x00, 0x33, 0x99, 0] | Bgr \<Rightarrow> [0x99, 0x33, 0x00, 0])"

lemma copy_background: "copy_bytes q (background_bytes f) m = store32 q (pack f 0x00 0x33 0x99) m"
proof -
  have bytes: "(10040064 :: u8) = 0" "(39219 :: u8) = 51" "(13209 :: u8) = 153" by simp_all
  show ?thesis
    by (cases f) (simp_all add: background_bytes_def store32_def pack_def add.assoc bytes)
qed

lemma length_background: "length (background_bytes f) = 4"
  by (cases f) (simp_all add: background_bytes_def)

lemma fill_pixel_spec:
  assumes c: "console_new fb = Some c" and f: "fb_pixel_format fb = Some f"
    and x: "x < co_stride c" and y: "y < co_height c"
  shows "fill_pixel fb (background_bytes f) 4 y x (0, m) =
    Some (0, store32 (px_addr c (y * co_stride c + x)) (co_background c) m)"
proof -
  have ok: "console_ok c" and fb: "co_framebuffer c = fb" using console_new_Some [OF c] by auto
  have bg: "co_background c = pack f 0x00 0x33 0x99" using console_new_colours [OF c] f by auto
  let ?i = "y * co_stride c + x"
  have i: "?i < co_total c" by (rule index_bound [OF x y])
  have "4 * ?i + 4 \<le> 4 * co_total c"
    using mult_le_mono2 [of "Suc ?i" "co_total c" 4] i by simp
  also have "\<dots> \<le> unat (fb_size fb)" using ok fb by (simp add: console_ok_def)
  finally have size: "4 * ?i + 4 \<le> unat (fb_size fb)" .
  have s: "unat (fb_stride fb) = co_stride c" by (simp add: co_stride_def fb)
  have t: "co_total c < 4611686018427387904" by (rule total_small [OF ok])
  show ?thesis
    using i t size
    by (simp add: fill_pixel_def s length_background copy_background bg px_addr_def fb not_less mult.commute [of _ 4])
qed

lemma fill_line_spec:
  assumes c: "console_new fb = Some c" and f: "fb_pixel_format fb = Some f"
    and "y < co_height c" and "\<forall>x \<in> set xs. x < co_stride c"
  shows "\<exists>m'. fill_line fb (background_bytes f) 4 y xs (0, m) = Some (0, m') \<and>
    painted c (\<lambda>x' y'. y' = y \<and> x' \<in> set xs) (\<lambda>_ _. co_background c) m m'"
  using assms(4)
proof (induction xs arbitrary: m)
  case Nil
  then show ?case by (auto intro: painted_none)
next
  case (Cons x xs)
  let ?m = "store32 (px_addr c (y * co_stride c + x)) (co_background c) m"
  have x: "x < co_stride c" using Cons.prems by simp
  obtain m' where m': "fill_line fb (background_bytes f) 4 y xs (0, ?m) = Some (0, m')"
    "painted c (\<lambda>x' y'. y' = y \<and> x' \<in> set xs) (\<lambda>_ _. co_background c) ?m m'"
    using Cons by auto
  have "painted c (\<lambda>x' y'. y' = y \<and> x' \<in> set (x # xs)) (\<lambda>_ _. co_background c) m m'"
    by (rule painted_trans [OF painted_put [OF console_new_Some(1) [OF c] x assms(3)] m'(2)]) auto
  then show ?case using m'(1) by (simp add: fill_pixel_spec [OF c f x assms(3)])
qed

lemma fill_lines_spec:
  assumes c: "console_new fb = Some c" and f: "fb_pixel_format fb = Some f"
    and "\<forall>y \<in> set ys. y < co_height c"
  shows "\<exists>m'. fill_lines fb (background_bytes f) 4 ys (0, m) = Some (0, m') \<and>
    painted c (\<lambda>x' y'. y' \<in> set ys \<and> x' < co_width c) (\<lambda>_ _. co_background c) m m'"
  using assms(3)
proof (induction ys arbitrary: m)
  case Nil
  then show ?case by (auto intro: painted_none)
next
  case (Cons y ys)
  have w: "unat (fb_width fb) = co_width c" using console_new_Some(2) [OF c] by (simp add: co_width_def)
  have "\<forall>x \<in> set [0..<co_width c]. x < co_stride c"
    using console_new_Some(1) [OF c] by (auto simp: console_ok_def)
  then obtain m1 where m1: "fill_line fb (background_bytes f) 4 y [0..<co_width c] (0, m) = Some (0, m1)"
    "painted c (\<lambda>x' y'. y' = y \<and> x' \<in> set [0..<co_width c]) (\<lambda>_ _. co_background c) m m1"
    using fill_line_spec [OF c f, of y "[0..<co_width c]" m] Cons.prems by auto
  obtain m' where m': "fill_lines fb (background_bytes f) 4 ys (0, m1) = Some (0, m')"
    "painted c (\<lambda>x' y'. y' \<in> set ys \<and> x' < co_width c) (\<lambda>_ _. co_background c) m1 m'"
    using Cons by auto
  have "painted c (\<lambda>x' y'. y' \<in> set (y # ys) \<and> x' < co_width c) (\<lambda>_ _. co_background c) m m'"
    by (rule painted_trans [OF m1(2) m'(2)]) auto
  then show ?case using m1(1) m'(1) w by auto
qed

lemma fill_screen_clears:
  assumes c: "console_new (bi_framebuffer info) = Some c"
  shows "\<exists>m'. fill_screen info 0x00 0x33 0x99 m = Some ((0, False), m') \<and> cleared c m' \<and> confined c m m'"
proof -
  obtain f where f: "fb_pixel_format (bi_framebuffer info) = Some f" "fb_bytes_per_pixel (bi_framebuffer info) = 4"
    using console_new_colours [OF c] by metis
  have ok: "console_ok c" and fb: "co_framebuffer c = bi_framebuffer info"
    using console_new_Some [OF c] by auto
  have h: "unat (fb_height (bi_framebuffer info)) = co_height c" by (simp add: co_height_def fb)
  obtain m' where m': "fill_lines (bi_framebuffer info) (background_bytes f) 4 [0..<co_height c] (0, m) = Some (0, m')"
    "painted c (\<lambda>x' y'. y' \<in> set [0..<co_height c] \<and> x' < co_width c) (\<lambda>_ _. co_background c) m m'"
    using fill_lines_spec [OF c f(1), of "[0..<co_height c]" m] by auto
  have "fill_screen info 0x00 0x33 0x99 m = Some ((0, False), m')"
    using m'(1) by (simp add: fill_screen_def f h Let_def length_background flip: background_bytes_def)
  moreover have "cleared c m'"
    using m'(2) ok by (auto simp: cleared_def painted_def console_ok_def)
  ultimately show ?thesis using m'(2) by (auto simp: painted_def)
qed

end
