(* ===== verification/Screen_Props.thy ===== *)
theory Screen_Props
  imports Screen_Check Kernel_Boot
begin

unbundle bit_operations_syntax

text \<open>
  The harness' screen check against the kernel's console: a capture of a framebuffer that shows a
  terminal passes exactly when the terminal's first cell holds the letter the kernel prints first,
  and the kernel's own path to that letter produces a screen that passes.
\<close>

section \<open>Exactness of the check\<close>

lemma try_ensure: "try_with (ensure ok e) f = Inr v \<longleftrightarrow> ok \<and> f () = Inr v"
  by (simp add: try_with_def ensure_def)

lemma next_part_Cons [simp]: "next_part (p # ps) = (p, ps)"
  and next_part_Nil [simp]: "next_part [] = ([], [])"
  by (simp_all add: next_part_def)

lemma next_part_nonempty: "fst (next_part ps) \<noteq> [] \<Longrightarrow> ps = fst (next_part ps) # snd (next_part ps)"
  by (cases ps) auto

lemma try_ok_or: "try_with (ok_or (Some v) e) f = f v"
  by (simp add: try_with_def ok_or_def)

text \<open>
  C23. The screen check is exact: it accepts a file if and only if it is a P6 PPM of the header the
  harness expects, three bytes for each of 1280 * 800 pixels, and the top left 8 by 16 pixels are
  the bitmap of the first letter in the console's two colours; no other input passes.
\<close>

theorem check_capture_exact:
  "check_capture data = Inr () \<longleftrightarrow>
     (\<exists>pixels. data = kernel_capture pixels \<and> length pixels = 1280 * 800 * 3 \<and> shows_first_glyph pixels)"
proof
  assume ok: "check_capture data = Inr ()"
  obtain p1 ps1 where n1: "next_part (splitn 4 0x0a data) = (p1, ps1)" by fastforce
  obtain p2 ps2 where n2: "next_part ps1 = (p2, ps2)" by fastforce
  obtain p3 ps3 where n3: "next_part ps2 = (p3, ps3)" by fastforce
  obtain p4 ps4 where n4: "next_part ps3 = (p4, ps4)" by fastforce
  have parts: "p1 = [0x50, 0x36]" "p2 = KERNEL_SCREENSHOT_DIMENSIONS" "p3 = [0x32, 0x35, 0x35]"
    and len: "length p4 = 3072000" and scan: "check_scanlines p4 0 KERNEL_FIRST_GLYPH = Inr ()"
    using ok unfolding check_capture_def check_expected_len n1 n2 n3 n4 Let_def prod.case
    by (simp_all only: try_ensure n2 n3 n4 try_ok_or prod.case)
  have "ps1 = p2 # ps2" "ps2 = p3 # ps3" "splitn 4 0x0a data = p1 # ps1" "ps3 = p4 # ps4"
    using next_part_nonempty [of ps1] next_part_nonempty [of ps2] next_part_nonempty [of ps3]
      next_part_nonempty [of "splitn 4 0x0a data"] parts len n1 n2 n3 n4
    by (auto simp: KERNEL_SCREENSHOT_DIMENSIONS_def simp flip: length_greater_0_conv)
  then have "splitn (Suc (Suc (Suc (Suc 0)))) 0x0a data = p1 # p2 # p3 # p4 # ps4"
    by (simp add: numeral_eq_Suc)
  from splitn_first [OF this] obtain r1 where r1: "data = p1 @ [0x0a] @ r1"
    "splitn (Suc (Suc (Suc 0))) 0x0a r1 = p2 # p3 # p4 # ps4" by blast
  from splitn_first [OF r1(2)] obtain r2 where r2: "r1 = p2 @ [0x0a] @ r2"
    "splitn (Suc (Suc 0)) 0x0a r2 = p3 # p4 # ps4" by blast
  from splitn_first [OF r2(2)] obtain r3 where r3: "r2 = p3 @ [0x0a] @ r3"
    "splitn (Suc 0) 0x0a r3 = p4 # ps4" by blast
  have "r3 = p4" using r3(2) by simp
  then have "data = kernel_capture p4"
    using r1(1) r2(1) r3(1) parts by (simp add: kernel_capture_def ppm_file_def)
  moreover have "shows_first_glyph p4" using scan check_glyph [OF len] by (simp split: if_splits)
  ultimately show "\<exists>pixels. data = kernel_capture pixels \<and> length pixels = 1280 * 800 * 3 \<and> shows_first_glyph pixels"
    using len by (intro exI [of _ p4]) simp
next
  assume "\<exists>pixels. data = kernel_capture pixels \<and> length pixels = 1280 * 800 * 3 \<and> shows_first_glyph pixels"
  then obtain pixels where p: "data = kernel_capture pixels" "length pixels = 3072000" "shows_first_glyph pixels"
    by auto
  then show "check_capture data = Inr ()" by (simp add: check_kernel_capture)
qed

section \<open>Captures of the console\<close>

text \<open>The colour a format's pixel stands for, and what a capture of a framebuffer is.\<close>

definition rgb :: "pixel_format_kind \<Rightarrow> u32 \<Rightarrow> u8 list" where
  "rgb f v = (case f of
      Rgb \<Rightarrow> [ucast v, ucast (drop_bit 8 v), ucast (drop_bit 16 v)]
    | Bgr \<Rightarrow> [ucast (drop_bit 16 v), ucast (drop_bit 8 v), ucast v])"

definition captures :: "pixel_format_kind \<Rightarrow> console \<Rightarrow> pixels \<Rightarrow> u8 list \<Rightarrow> bool" where
  "captures f c m pixels \<longleftrightarrow> length pixels = 1280 * 800 * 3 \<and>
     (\<forall>x y. x < 1280 \<longrightarrow> y < 800 \<longrightarrow> capture_pixel pixels x y = rgb f (at c m x y))"

lemma rgb_pack: "rgb f (pack f r g b) = [r, g, b]"
proof -
  have byte: "ucast (v :: u32) = (w :: u8)" if "\<And>n. n < 8 \<Longrightarrow> bit v n = bit w n" for v w
    by (rule bit_word_eqI) (simp add: bit_simps that)
  have high: "\<not> bit (w :: u8) (8 + n)" "\<not> bit (w :: u8) (16 + n)" for w n
    using bit_imp_le_length [of w "8 + n"] bit_imp_le_length [of w "16 + n"] by auto
  show ?thesis
    by (cases f) (auto simp: rgb_def pack_def Let_def bit_simps high intro!: byte)
qed

lemma lit_bit: "x < 8 \<Longrightarrow> lit b x = bit b (7 - x)" for b :: u8
proof -
  assume x: "x < 8"
  have "x = 0 \<or> x = 1 \<or> x = 2 \<or> x = 3 \<or> x = 4 \<or> x = 5 \<or> x = 6 \<or> x = 7" using x by arith
  then have "drop_bit x (0x80 :: u8) = 2 ^ (7 - x)" by (elim disjE) simp_all
  then show ?thesis by (simp add: lit_def and_exp_eq_0_iff_not_bit)
qed

lemma same_lit:
  assumes "\<forall>x < 8. lit a x = lit b x"
  shows "a = b"
proof (rule bit_word_eqI)
  fix n assume "n < LENGTH(8)"
  then have "7 - n < 8" "7 - (7 - n) = n" by simp_all
  then show "bit a n = bit b n" using assms lit_bit by metis
qed

lemma glyph_first: "glyph b = KERNEL_FIRST_GLYPH \<longleftrightarrow> b = 0x66"
proof
  have table: "\<forall>i \<in> set [0..<95]. GLYPHS ! i = KERNEL_FIRST_GLYPH \<longrightarrow> i = 70" by code_simp
  assume g: "glyph b = KERNEL_FIRST_GLYPH"
  show "b = 0x66"
  proof (cases "FIRST \<le> b \<and> b \<le> LAST")
    case True
    then have u: "unat (b - FIRST) = unat b - 32" "32 \<le> unat b" "unat b \<le> 126"
      by (auto simp: FIRST_def LAST_def unat_sub_le word_le_nat_alt)
    then have "unat b - 32 = 70" using table g True by (auto simp: glyph_def)
    then have "unat b = unat (0x66 :: u8)" using u by simp
    then show ?thesis by (rule word_unat_eq_iff [THEN iffD2])
  next
    case False
    have "unat (0x3f - FIRST :: u8) = 31" by (simp add: FIRST_def)
    then show ?thesis using table g False by (auto simp: glyph_def)
  qed
next
  have "glyph 0x66 = KERNEL_FIRST_GLYPH" by code_simp
  then show "b = 0x66 \<Longrightarrow> glyph b = KERNEL_FIRST_GLYPH" by (simp only:)
qed

text \<open>The cell in the corner, seen through a capture.\<close>

lemma capture_first_cell:
  assumes c: "console_new fb = Some c0" and same: "same_surface c0 c" and sh: "console_shows c m t"
    and size: "fb_width fb = 1280" "fb_height fb = 800" and f: "fb_pixel_format fb = Some f"
    and cap: "captures f c m pixels"
  shows "shows_first_glyph pixels \<longleftrightarrow> tm_cells t 0 0 = 0x66"
proof -
  have "co_background c0 = pack f 0x00 0x33 0x99" by (rule console_new_colours [OF c]) (use f in auto)
  then have colours: "co_foreground c = pack f 0xE0 0xE0 0xE0" "co_background c = pack f 0x00 0x33 0x99"
    and fb: "co_framebuffer c = fb"
    using console_new_foreground [OF c f] console_new_Some(2) [OF c] same by (auto simp: same_surface_def)
  have grid: "co_columns c = 160" "co_rows c = 50" "co_width c = 1280" "co_height c = 800"
  proof -
    show w: "co_width c = 1280" and h: "co_height c = 800" by (simp_all add: co_width_def co_height_def fb size)
    have "co_columns c = co_width c div 8" "co_rows c = co_height c div 16"
      using sh by (auto simp: console_shows_def console_ok_def)
    then show "co_columns c = 160" "co_rows c = 50" by (simp_all add: w h)
  qed
  have pixel: "capture_pixel pixels x y = expected_pixel (glyph (tm_cells t 0 0) ! y) x"
    if "x < 8" "y < 16" for x y
  proof -
    have "at c m x y = glyph_colour c (glyph (tm_cells t 0 0) ! y) x"
      using sh that by (simp add: console_shows_def shows_cells_def cell_colour_def grid)
    then show ?thesis
      using cap that by (simp add: captures_def glyph_colour_def expected_pixel_def rgb_pack colours
          KERNEL_FOREGROUND_def KERNEL_BACKGROUND_def)
  qed
  have ne: "KERNEL_FOREGROUND \<noteq> KERNEL_BACKGROUND" by (simp add: KERNEL_FOREGROUND_def KERNEL_BACKGROUND_def)
  have "shows_first_glyph pixels \<longleftrightarrow>
      (\<forall>y < 16. \<forall>x < 8. lit (glyph (tm_cells t 0 0) ! y) x = lit (KERNEL_FIRST_GLYPH ! y) x)"
    using pixel ne by (auto simp: shows_first_glyph_def expected_pixel_def)
  also have "\<dots> \<longleftrightarrow> (\<forall>y < 16. glyph (tm_cells t 0 0) ! y = KERNEL_FIRST_GLYPH ! y)"
    using same_lit by metis
  also have "\<dots> \<longleftrightarrow> glyph (tm_cells t 0 0) = KERNEL_FIRST_GLYPH"
    by (simp add: list_eq_iff_nth_eq length_first_glyph)
  finally show ?thesis unfolding glyph_first .
qed

section \<open>The kernel's first line\<close>

definition first_line :: "u8 list" where
  "first_line = ascii ''framebuffer painted'' @ [0x0a]"

text \<open>Fewer bytes than there are rows do not scroll the corner away.\<close>

lemma corner_stays:
  assumes "tm_cells t 0 0 = b" and "tm_row t + length bs < rows" and "0 < tm_row t + tm_column t"
  shows "tm_cells (fold (tm_write columns rows) bs t) 0 0 = b"
  using assms
proof (induction bs arbitrary: t)
  case (Cons x bs)
  let ?t = "tm_write columns rows x t"
  have "tm_cells ?t 0 0 = b" "tm_row ?t \<le> tm_row t + 1" "0 < tm_row ?t + tm_column ?t"
    using Cons.prems by (auto simp: tm_write_def tm_put_def tm_newline_def)
  then show ?case using Cons by simp
qed simp

lemma first_line_bytes:
  "first_line = 0x66 # ascii ''ramebuffer painted'' @ [0x0a]"
  by code_simp

lemma first_line_terminal: "tm_cells (fold (tm_write 160 50) first_line blank_terminal) 0 0 = 0x66"
proof -
  let ?t = "tm_write 160 50 0x66 blank_terminal"
  have t: "tm_cells ?t 0 0 = 0x66" "tm_row ?t = 0" "tm_column ?t = 1"
    by (simp_all add: tm_write_def tm_put_def blank_terminal_def)
  have "length (ascii ''ramebuffer painted'' @ [0x0a]) = 19" by code_simp
  then have "tm_cells (fold (tm_write 160 50) (ascii ''ramebuffer painted'' @ [0x0a]) ?t) 0 0 = 0x66"
    using t by (intro corner_stays) (simp_all del: length_append)
  then show ?thesis by (simp add: first_line_bytes(1))
qed

lemma paint_shows:
  fixes s :: "('d, 'a) kernel_scheme"
  assumes m: "machine_ok p uart pics" and io: "\<not> ua_dlab (uart (ki_dev s))"
    and c: "console_new (bi_framebuffer info) = Some c"
  shows "\<exists>s' c'. paint p info s = Some s' \<and> sc_CONSOLE (ki_screen s') = Some c' \<and> same_surface c c' \<and>
    console_shows c' (sc_pixels (ki_screen s'))
      (fold (tm_write (co_columns c) (co_rows c)) first_line blank_terminal) \<and>
    io_ok uart s' \<and> pics (ki_dev s') = pics (ki_dev s) \<and>
    (\<exists>d scr. s' = s\<lparr>ki_dev := d, ki_screen := scr\<rparr>)"
proof -
  obtain px where px: "fill_screen info 0x00 0x33 0x99 (sc_pixels (ki_screen s)) = Some ((0, False), px)"
    "cleared c px" using fill_screen_clears [OF c] by blast
  let ?scr = "\<lparr>sc_CONSOLE = Some c, sc_pixels = px\<rparr>"
  let ?s = "s\<lparr>ki_screen := ?scr\<rparr>"
  have scr: "console_init (bi_framebuffer info) ((ki_screen s)\<lparr>sc_pixels := px\<rparr>) = ?scr"
    using c by (simp add: console_init_def)
  have "io_ok uart ?s" using io console_new_Some(1) [OF c] by (simp add: io_ok_def screen_ok_def)
  from kprintln_talks [OF m this, of "ascii ''framebuffer painted''"]
  obtain s' where s': "kprintln p (ascii ''framebuffer painted'') ?s = Some s'"
    and t: "talks uart pics first_line ?s s'" by (auto simp: first_line_def)
  have keeps: "\<exists>d scr. s' = ?s\<lparr>ki_dev := d, ki_screen := scr\<rparr>" by (rule kprintln_keeps [OF s'])
  have w: "write_bytes_screen first_line ?scr = Some (ki_screen s')" "pics (ki_dev s') = pics (ki_dev s)" "io_ok uart s'"
    using t by (auto simp: talks_def)
  obtain c' m' where r: "write_bytes_screen first_line ?scr = Some \<lparr>sc_CONSOLE = Some c', sc_pixels = m'\<rparr>"
    and act: "acts_as (c, px) (fold (tm_write (co_columns c) (co_rows c)) first_line) (c', m')"
    using write_bytes_act [OF console_new_Some(1) [OF c]] by blast
  have k: "ki_screen s' = \<lparr>sc_CONSOLE = Some c', sc_pixels = m'\<rparr>" using w(1) r by simp
  have "paint p info s = Some s'" by (simp add: paint_def px(1) scr s' Let_def)
  moreover have "console_shows c' m' (fold (tm_write (co_columns c) (co_rows c)) first_line blank_terminal)"
    "same_surface c c'"
    using act cleared_shows_blank [OF c px(2)] by (auto simp: acts_as_def)
  ultimately show ?thesis using k w keeps by auto
qed

text \<open>
  C20. The kernel and its harness agree about the screen: on a 1280 by 800 framebuffer the console
  accepts, \<open>kernel_main\<close> paints, initialises the console and prints without failing, and a capture
  of the result - each pixel the colour its format says it is - passes the harness' check, whichever
  of the two pixel formats the firmware offered and whatever was on the screen before.
\<close>

theorem first_screen_passes:
  fixes s :: "('d, 'a) kernel_scheme"
  assumes "machine_ok p uart pics" and "\<not> ua_dlab (uart (ki_dev s))"
    and "console_new (bi_framebuffer info) = Some c"
    and "fb_width (bi_framebuffer info) = 1280" and "fb_height (bi_framebuffer info) = 800"
    and "fb_pixel_format (bi_framebuffer info) = Some f"
  shows "\<exists>s' c'. paint p info s = Some s' \<and> sc_CONSOLE (ki_screen s') = Some c' \<and>
    (\<forall>pixels. captures f c' (sc_pixels (ki_screen s')) pixels \<longrightarrow> check_capture (kernel_capture pixels) = Inr ())"
proof -
  have grid: "co_columns c = 160" "co_rows c = 50"
    using console_new_size [OF assms(3)] assms(4,5) by simp_all
  obtain s' c' where r: "paint p info s = Some s'" "sc_CONSOLE (ki_screen s') = Some c'" "same_surface c c'"
    "console_shows c' (sc_pixels (ki_screen s')) (fold (tm_write 160 50) first_line blank_terminal)"
    using paint_shows [OF assms(1-3)] unfolding grid by blast
  have "shows_first_glyph pixels" if "captures f c' (sc_pixels (ki_screen s')) pixels" for pixels
    using capture_first_cell [OF assms(3) r(3,4) assms(4-6) that] first_line_terminal by simp
  then show ?thesis using r(1,2) by (auto simp: check_kernel_capture captures_def)
qed

text \<open>A capture exists for every screen: the pixels in order.\<close>

definition dump :: "pixel_format_kind \<Rightarrow> console \<Rightarrow> pixels \<Rightarrow> nat \<Rightarrow> u8 list" where
  "dump f c m n = concat (map (\<lambda>i. rgb f (at c m (i mod 1280) (i div 1280))) [0..<n])"

lemma length_rgb [simp]: "length (rgb f v) = 3"
  by (cases f) (simp_all add: rgb_def)

lemma chunk:
  assumes "\<forall>x \<in> set xs. length (g x) = k" and "i < length xs"
  shows "take k (drop (i * k) (concat (map g xs))) = g (xs ! i)"
  using assms
proof (induction xs arbitrary: i)
  case (Cons x xs)
  then show ?case by (cases i) simp_all
qed simp

lemma length_chunks: "\<forall>x \<in> set xs. length (g x) = k \<Longrightarrow> length (concat (map g xs)) = length xs * k"
  by (induction xs) simp_all

lemma dump_pixel:
  assumes "x < 1280" and "y * 1280 + x < n"
  shows "capture_pixel (dump f c m n) x y = rgb f (at c m x y)"
proof -
  let ?g = "\<lambda>i. rgb f (at c m (i mod 1280) (i div 1280))"
  have i: "y * 1280 + x < length [0..<n]" using assms(2) by simp
  have "capture_pixel (dump f c m n) x y = ?g ([0..<n] ! (y * 1280 + x))"
    unfolding capture_pixel_def dump_def by (rule chunk [OF _ i]) simp
  then show ?thesis using assms by (simp add: nth_upt)
qed

lemma length_dump: "length (dump f c m n) = n * 3"
  unfolding dump_def by (subst length_chunks [of _ _ 3]) simp_all

lemma dump_captures: "captures f c m (dump f c m (1280 * 800))"
  unfolding captures_def length_dump by (auto intro!: dump_pixel)

definition demo_surface :: frame_buffer_info where
  "demo_surface = frame_buffer_info_new 0x80000000 4096000 1280 800 1280 4 Bgr"

definition demo_boot :: boot_info where
  "demo_boot = boot_info_new demo_surface 0x1000 0 0x100000 0x20000"

lemma demo_surface_console: "\<exists>c. console_new demo_surface = Some c"
  unfolding console_new_accepts
  by (simp add: demo_surface_def frame_buffer_info_new_def fb_pixel_format_def pixel_format_from_u32_def
      pixel_format_as_u32_def)

theorem first_screen_passes_witness:
  "\<exists>s' c' pixels. paint demo_machine demo_boot waiting_kernel = Some s' \<and> sc_CONSOLE (ki_screen s') = Some c' \<and>
    captures Bgr c' (sc_pixels (ki_screen s')) pixels \<and> check_capture (kernel_capture pixels) = Inr ()"
proof -
  have fb: "bi_framebuffer demo_boot = demo_surface" by (simp add: demo_boot_def boot_info_new_def)
  obtain c where c: "console_new (bi_framebuffer demo_boot) = Some c" using demo_surface_console fb by auto
  have "\<not> ua_dlab (fst (ki_dev waiting_kernel))" by (simp add: waiting_kernel_def)
  from first_screen_passes [OF demo_machine_ok this c, of Bgr] show ?thesis
    using dump_captures unfolding fb
    by (force simp: demo_surface_def frame_buffer_info_new_def fb_pixel_format_def pixel_format_from_u32_def
        pixel_format_as_u32_def)
qed

end
