(* ===== verification/Xtask_Props.thy ===== *)
theory Xtask_Props
  imports Xtask Boot_Props Screen_Props
begin

text \<open>
  What the harness guarantees: booting always returns and leaves no QEMU behind, the negative test
  restores the image it corrupts, and the exit codes the harness expects are the ones QEMU makes of
  the values the bootloader and the kernel write. The operating system enters through three
  hypotheses: the clock does not run backwards; a killed child exits, waiting for a child that exits
  returns, and one that was waited for is gone; and a file that was written holds what was written.
\<close>

section \<open>Booting returns\<close>

definition clock_ok :: "'w host \<Rightarrow> bool" where
  "clock_ok h \<longleftrightarrow>
     (\<forall>w ms. ho_now h w + ms \<le> ho_now h (ho_sleep h ms w)) \<and>
     (\<forall>w. ho_now h w \<le> ho_now h (snd (ho_try_wait h w))) \<and>
     (\<forall>w p. ho_now h w \<le> ho_now h (snd (ho_remove h p w))) \<and>
     (\<forall>w p. ho_now h w \<le> ho_now h (snd (ho_read h p w))) \<and>
     (\<forall>w b. ho_now h w \<le> ho_now h (snd (ho_send h b w)))"

text \<open>
  \<open>alive\<close>: a child was started and not reaped. \<open>exiting\<close>: it has been killed or is exiting by itself.
  Nothing is said of waiting for any other child: that may block for ever.
\<close>

definition children_ok :: "'w host \<Rightarrow> ('w \<Rightarrow> bool) \<Rightarrow> ('w \<Rightarrow> bool) \<Rightarrow> bool" where
  "children_ok h alive exiting \<longleftrightarrow>
     (\<forall>w args e w'. ho_spawn h args w = (Inl e, w') \<longrightarrow> alive w' = alive w) \<and>
     (\<forall>w p. alive (snd (ho_remove h p w)) = alive w) \<and>
     (\<forall>w code w'. ho_try_wait h w = (Inr (Some code), w') \<longrightarrow> \<not> alive w') \<and>
     (\<forall>w. exiting (ho_kill h w)) \<and>
     (\<forall>w. exiting w \<longrightarrow> (\<exists>w'. ho_wait h w = Some w' \<and> \<not> alive w'))"

lemma check_screen_time: "clock_ok h \<Longrightarrow> ho_now h w \<le> ho_now h (snd (check_screen_has_text h p w))"
  by (auto simp: check_screen_has_text_def try_fw_def map_err_def clock_ok_def split: sum.splits prod.splits)
    (metis snd_conv)+

lemma capture_once_time:
  assumes "clock_ok h" and "capture_once h shot w = (Inr r, w')"
  shows "ho_now h w + 250 \<le> ho_now h w'"
proof -
  obtain r1 w1 where 1: "ho_remove h shot w = (r1, w1)" by fastforce
  obtain r2 w2 where 2: "ho_send h (ascii ''screendump '' @ shot @ [0x0a]) w1 = (r2, w2)" by fastforce
  let ?w = "ho_sleep h 250 w2"
  have "w' = snd (check_screen_has_text h shot ?w)"
    using assms(2) 1 2
    by (auto simp: capture_once_def removed_def try_fw_def map_err_def SCREEN_CAPTURE_POLL_INTERVAL_def
        split: sum.splits prod.splits if_splits)
  moreover have "ho_now h w \<le> ho_now h w1" "ho_now h w1 \<le> ho_now h w2" "ho_now h w2 + 250 \<le> ho_now h ?w"
    using assms(1) 1 2 unfolding clock_ok_def by (metis snd_conv)+
  ultimately show ?thesis using check_screen_time [OF assms(1), of ?w shot] by simp
qed

lemma capture_loop_returns:
  assumes "clock_ok h"
  shows "\<exists>r w'. capture_loop h shot deadline w = Some (r, w')"
proof (induction "deadline - ho_now h w" arbitrary: w rule: less_induct)
  case less
  obtain r w1 where 1: "capture_once h shot w = (r, w1)" by fastforce
  show ?case
  proof (cases "(\<exists>msg. r = Inr (Inl msg)) \<and> ho_now h w1 < deadline")
    case True
    then have "deadline - ho_now h w1 < deadline - ho_now h w"
      using capture_once_time [OF assms, of shot w] 1 by auto
    from less [OF this] show ?thesis
      using True 1 by (subst capture_loop.simps) auto
  next
    case False
    then show ?thesis
      using 1 by (subst capture_loop.simps) (auto split: sum.splits)
  qed
qed

lemma wait_child_returns:
  assumes "clock_ok h"
  shows "\<exists>r w'. wait_child h deadline w = Some (r, w') \<and> (\<forall>code. r = Inr (Some code) \<longrightarrow>
    (\<exists>w0. ho_try_wait h w0 = (Inr (Some code), w'))) \<and> (\<forall>e. r = Inl e \<longrightarrow> (\<exists>io. e = Poll_Failed io))"
proof (induction "deadline - ho_now h w" arbitrary: w rule: less_induct)
  case less
  obtain r w1 where 1: "ho_try_wait h w = (r, w1)" by fastforce
  show ?case
  proof (cases "r = Inr None \<and> ho_now h w1 < deadline")
    case True
    let ?w = "ho_sleep h 100 w1"
    have "ho_now h w \<le> ho_now h w1" "ho_now h w1 + 100 \<le> ho_now h ?w"
      using assms 1 unfolding clock_ok_def by (metis snd_conv)+
    then have "deadline - ho_now h ?w < deadline - ho_now h w" using True by linarith
    from less [OF this] show ?thesis
      using True 1 by (subst wait_child.simps) simp
  next
    case False
    then show ?thesis
      using 1 by (subst wait_child.simps) (auto split: sum.splits option.splits)
  qed
qed

lemma inject_returns:
  assumes "clock_ok h"
  shows "\<exists>r w'. inject_keystrokes h socket shot w = Some (r, w')"
proof -
  obtain ok w1 where c: "connect_loop h socket 100 w = (ok, w1)" by fastforce
  obtain r w2 where "capture_loop h shot (ho_now h w1 + SCREEN_CAPTURE_TIMEOUT) w1 = Some (r, w2)"
    using capture_loop_returns [OF assms] by blast
  then show ?thesis using c by (auto simp: inject_keystrokes_def split: bool.splits sum.splits)
qed

lemma kill_reaps:
  assumes "children_ok h alive exiting"
  obtains w' where "ho_wait h (ho_kill h w) = Some w'" and "\<not> alive w'"
  using assms unfolding children_ok_def by blast

lemma boot_qemu_ends:
  assumes "clock_ok h" and "children_ok h alive exiting"
  shows "\<exists>r w'. boot_qemu h st inject shot w = Some (r, w') \<and>
    (\<not> alive w \<longrightarrow> alive w' \<longrightarrow> (\<exists>e. r = Inl (Poll_Failed e)))"
proof -
  let ?w0 = "snd (ho_remove h (monitor_socket_path h) w)"
  obtain r1 w1 where 1: "ho_spawn h (qemu_args h st) ?w0 = (r1, w1)" by fastforce
  obtain r2 w2 where 2: "(if inject then inject_keystrokes h (monitor_socket_path h) shot w1
      else Some (Inr (), w1)) = Some (r2, w2)"
    using inject_returns [OF assms(1)] by fastforce
  obtain r3 w3 where 3: "wait_child h (ho_now h w2 + QEMU_TIMEOUT) w2 = Some (r3, w3)"
    "\<forall>code. r3 = Inr (Some code) \<longrightarrow> (\<exists>w0. ho_try_wait h w0 = (Inr (Some code), w3))"
    "\<forall>e. r3 = Inl e \<longrightarrow> (\<exists>io. e = Poll_Failed io)"
    using wait_child_returns [OF assms(1)] by blast
  obtain w4 where 4: "ho_wait h (ho_kill h w2) = Some w4" "\<not> alive w4" by (rule kill_reaps [OF assms(2)])
  obtain w5 where 5: "ho_wait h (ho_kill h w3) = Some w5" "\<not> alive w5" by (rule kill_reaps [OF assms(2)])
  have exited: "\<not> alive w3" if "r3 = Inr (Some code)" for code
    using 3(2) that assms(2) by (auto simp: children_ok_def)
  show ?thesis
  proof (cases r1)
    case (Inl e)
    then have "alive w1 = alive w" using 1 assms(2) by (auto simp: children_ok_def)
    then show ?thesis using Inl 1 by (simp add: boot_qemu_def map_err_def)
  next
    case (Inr u)
    then show ?thesis
      using 1 2 3(1,3) 4 5 exited
      by (auto simp: boot_qemu_def map_err_def split: sum.splits option.splits)
  qed
qed

text \<open>
  C22. Booting always returns and leaves nothing behind: on a host whose clock runs forward, and
  where waiting for a QEMU that nobody killed may block for ever, \<open>boot_qemu\<close> returns whatever QEMU,
  the monitor socket and the file system answer, and QEMU is no longer running when it does - it
  exited, or was killed and reaped after a failed capture or a timeout - except when polling it failed.
\<close>

theorem boot_qemu_returns:
  assumes "clock_ok h" and "children_ok h alive exiting" and "\<not> alive w"
  shows "\<exists>r w'. boot_qemu h st inject shot w = Some (r, w') \<and> (alive w' \<longrightarrow> (\<exists>e. r = Inl (Poll_Failed e)))"
  using boot_qemu_ends [OF assms(1,2), of st inject shot w] assms(3) by blast

section \<open>The negative test\<close>

definition files_ok :: "'w host \<Rightarrow> ('w \<Rightarrow> path \<Rightarrow> u8 list option) \<Rightarrow> bool" where
  "files_ok h files \<longleftrightarrow>
     (\<forall>w p b w'. ho_write h p b w = (Inr (), w') \<longrightarrow> files w' = (files w)(p := Some b)) \<and>
     (\<forall>w p b w'. ho_read h p w = (Inr b, w') \<longrightarrow> files w p = Some b) \<and>
     (\<forall>w p. files (snd (ho_read h p w)) = files w) \<and>
     (\<forall>w r. files (ho_say h r w) = files w)"

definition kernel_file :: "path \<Rightarrow> path" where
  "kernel_file root = path_join root ''target/esp/kernel.elf''"

lemma test_verdict_files: "files_ok h files \<Longrightarrow> files (snd (test_verdict h code w)) = files w"
  by (auto simp: test_verdict_def files_ok_def split: option.splits)

lemma test_verdict_success: "fst (test_verdict h code w) = SUCCESS \<longleftrightarrow> code = Some 35"
  by (auto simp: test_verdict_def FAILURE_EXIT_CODE_def split: option.splits)

text \<open>The test, step by step, once its boot is known to return.\<close>

lemma xtask_test_outcome:
  assumes "workspace_root h = Some root" and "build_and_stage h root w = (Inr st, w1)"
    and "ho_read h (kernel_file root) w1 = (r, w2)" and "\<And>b. r = Inr b \<Longrightarrow> b = pristine"
    and "ho_write h (kernel_file root) (corrupt pristine) w2 = (x, w3)"
    and "boot_qemu h st False (screenshot_path h) (ho_say h Say_Corrupted w3) = Some (observed, w4)"
    and "ho_write h (kernel_file root) pristine w4 = (y, w5)"
    and "(case observed of
        Inl msg \<Rightarrow> report_failure h msg (ho_say h Say_Restored w5)
      | Inr code \<Rightarrow> test_verdict h code (ho_say h Say_Restored w5)) = (status, w')"
  shows "xtask_test h w = Some (case r of
      Inl e \<Rightarrow> report_failure h (Read_Kernel e) w2
    | Inr b \<Rightarrow> if length b < 4 then report_failure h Too_Small w2
        else (case x of Inl e \<Rightarrow> report_failure h (Write_Corrupted e) w3
          | Inr _ \<Rightarrow> (case y of Inl e \<Rightarrow> report_failure h (Restore_Failed e) w5 | Inr _ \<Rightarrow> (status, w'))))"
proof (cases r)
  case (Inl e)
  then show ?thesis by (simp add: xtask_test_def kernel_file_def [symmetric] assms(1-3))
next
  case (Inr b)
  then have "b = pristine" by (rule assms(4))
  then show ?thesis
    by (cases x; cases y; cases observed)
      (use assms(8) in \<open>simp_all add: xtask_test_def kernel_file_def [symmetric] assms(1-3,5-7) Inr\<close>)
qed

text \<open>
  C21. The negative test always ends and puts back what it breaks: after \<open>cargo xtask test\<close> has
  staged a kernel image, whatever QEMU does - hangs, crashes, or writes to the volume itself - the
  test returns, and the staged image is the pristine one again, unless the operating system
  refused to write the corrupted image or, after the boot, the pristine one, either of which the test
  reports as a failure; and it passes only if booting the corrupted image ended with exit code 35.
\<close>

theorem xtask_test_restores:
  assumes "files_ok h files" and "clock_ok h" and "children_ok h alive exiting" and "workspace_root h = Some root"
    and "build_and_stage h root w = (Inr st, w1)" and "files w1 (kernel_file root) = Some pristine"
  shows "(let k = kernel_file root; w2 = snd (ho_read h k w1);
      v = ho_say h Say_Corrupted (snd (ho_write h k (corrupt pristine) w2));
      boot = boot_qemu h st False (screenshot_path h) v in
    \<exists>status w'. xtask_test h w = Some (status, w') \<and>
      (files w' k = Some pristine \<or> status = FAILURE \<and>
        ((\<exists>e. fst (ho_write h k (corrupt pristine) w2) = Inl e) \<or>
         (\<exists>observed w4 e. boot = Some (observed, w4) \<and> fst (ho_write h k pristine w4) = Inl e))) \<and>
      (status = SUCCESS \<longrightarrow> files v k = Some (corrupt pristine) \<and> (\<exists>v'. boot = Some (Inr (Some 35), v'))))"
proof -
  let ?k = "kernel_file root"
  have say: "files (ho_say h r v) = files v" for r v using assms(1) by (simp add: files_ok_def)
  have wr: "files v' = (files v)(p := Some b)" if "ho_write h p b v = (Inr u, v')" for p b v v' u
    using assms(1) that by (simp add: files_ok_def)
  obtain r w2 where rd: "ho_read h ?k w1 = (r, w2)" by fastforce
  have f2: "files w2 = files w1" using assms(1) rd unfolding files_ok_def by (metis snd_conv)
  have pr: "r = Inr b \<Longrightarrow> b = pristine" for b
    using assms(1,6) rd unfolding files_ok_def by (metis option.inject)
  obtain x w3 where x: "ho_write h ?k (corrupt pristine) w2 = (x, w3)" by fastforce
  let ?v = "ho_say h Say_Corrupted w3"
  obtain observed w4 where boot: "boot_qemu h st False (screenshot_path h) ?v = Some (observed, w4)"
    using boot_qemu_ends [OF assms(2,3)] by blast
  obtain y w5 where y: "ho_write h ?k pristine w4 = (y, w5)" by fastforce
  let ?finish = "case observed of
      Inl msg \<Rightarrow> report_failure h msg (ho_say h Say_Restored w5)
    | Inr code \<Rightarrow> test_verdict h code (ho_say h Say_Restored w5)"
  obtain status w' where ending: "?finish = (status, w')" by fastforce
  note run = xtask_test_outcome [OF assms(4,5) rd pr x boot y ending]
  have kept: "files (snd (report_failure h e w2)) ?k = Some pristine" for e
    using assms(6) f2 say by (simp add: report_failure_def)
  have restored: "files w' ?k = Some pristine" if "y = Inr u" for u
  proof -
    have "files (snd ?finish) ?k = Some pristine"
      using wr [OF y [unfolded that]] say test_verdict_files [OF assms(1)]
      by (simp add: report_failure_def split: sum.split)
    then show ?thesis unfolding ending by simp
  qed
  have passes: "observed = Inr (Some 35)" if "status = SUCCESS"
    using arg_cong [OF ending, of fst] that by (simp add: report_failure_def test_verdict_success split: sum.splits)
  have v: "files ?v ?k = Some (corrupt pristine)" if "x = Inr u" for u
    using wr [OF x [unfolded that]] say by simp
  show ?thesis
  proof (cases r)
    case (Inl e)
    then show ?thesis using run kept by (auto simp: Let_def report_failure_def)
  next
    case (Inr b)
    then show ?thesis
      using run kept restored passes v
      by (cases x; cases y) (auto simp: Let_def report_failure_def rd x boot y split: if_split_asm)
  qed
qed

section \<open>Exit codes\<close>

text \<open>What QEMU makes of the value a guest writes to the exit device.\<close>

definition qemu_code :: "u32 \<Rightarrow> int" where
  "qemu_code v = (2 * uint v + 1) mod 256"

text \<open>
  The two sides of the exit device agree: \<open>cargo xtask run\<close> passes a boot that ended with a write
  by the kernel or the bootloader exactly when the value was the success code and the last
  capture shows the kernel's text, and \<open>cargo xtask test\<close> exactly when it was the failure code.
\<close>

theorem exit_codes_agree:
  "(fst (run_verdict h shot (Some (qemu_code (exit_value code))) w) = SUCCESS \<longleftrightarrow>
     code = Ports.Success \<and> fst (check_screen_has_text h shot w) = Inr ()) \<and>
   (fst (run_verdict h shot (Some (qemu_code (qemu_exit_value bcode))) w) = SUCCESS \<longleftrightarrow>
     bcode = Boot_Handoff.Success \<and> fst (check_screen_has_text h shot w) = Inr ()) \<and>
   (fst (test_verdict h (Some (qemu_code (exit_value code))) w) = SUCCESS \<longleftrightarrow> code = Ports.Failed) \<and>
   (fst (test_verdict h (Some (qemu_code (qemu_exit_value bcode))) w) = SUCCESS \<longleftrightarrow> bcode = Boot_Handoff.Failed)"
  by (cases code; cases bcode; auto simp: run_verdict_def test_verdict_def qemu_code_def exit_value_def
      qemu_exit_value_def EXPECTED_EXIT_CODE_def FAILURE_EXIT_CODE_def report_failure_def
      split: prod.splits sum.splits)

text \<open>
  C40. The corruption reaches the check it is meant for: the bootloader never jumps into an image
  \<open>cargo xtask test\<close> has corrupted, whatever the image was - \<open>main\<close> exits with the failure code and
  memory as it was - so an intact boot chain passes the negative test.
\<close>

theorem corrupted_image_rejected:
  assumes "uf_init u w = (True, w1)" and "read_file u w1 = (Inr (corrupt pristine), w2)"
  shows "\<exists>code. boot_main u grants w ld = Some (Exit code, ld) \<and>
    fst (test_verdict h (Some (qemu_code (qemu_exit_value code))) v) = SUCCESS"
proof -
  have "take 4 (corrupt pristine) \<noteq> ELF_MAGIC"
    by (simp add: corrupt_def ascii_def ELF_MAGIC_def of_char_def)
  then have "\<exists>e. parse_header (corrupt pristine) = Inl e" by (simp add: parse_header_def)
  then have "\<exists>e. load_kernel grants (corrupt pristine) ld = Some (Inl e, ld)"
    by (auto simp: load_kernel_def)
  then have "boot_main u grants w ld = Some (Exit Boot_Handoff.Failed, ld)"
    using assms by (auto simp: boot_main_def)
  then show ?thesis
    by (intro exI [of _ Boot_Handoff.Failed]) (simp add: test_verdict_success qemu_code_def qemu_exit_value_def)
qed

section \<open>A concrete host\<close>

text \<open>Files that can be read back, and a QEMU that exits with a given code after a tenth of a second.\<close>

record demo_world =
  dw_files :: "path \<Rightarrow> u8 list option"
  dw_now :: nat
  dw_alive :: bool
  dw_exiting :: bool

definition demo_read :: "path \<Rightarrow> demo_world \<Rightarrow> (io_error + u8 list) \<times> demo_world" where
  "demo_read p w = (case dw_files w p of
      None \<Rightarrow> (Inl \<lparr>io_not_found = True, io_text = []\<rparr>, w) | Some b \<Rightarrow> (Inr b, w))"

definition demo_host :: "int \<Rightarrow> demo_world host" where
  "demo_host code = \<lparr>ho_manifest_parent = Some [], ho_pid = 7, ho_read = demo_read,
     ho_write = (\<lambda>p b w. (Inr (), w\<lparr>dw_files := (dw_files w)(p := Some b)\<rparr>)),
     ho_remove = (\<lambda>p w. (Inr (), w\<lparr>dw_files := (dw_files w)(p := None)\<rparr>)),
     ho_create_dirs = (\<lambda>p w. (Inr (), w)),
     ho_copy = (\<lambda>p q w. (Inr (), w\<lparr>dw_files := (dw_files w)(q := dw_files w p)\<rparr>)),
     ho_cargo = (\<lambda>args d w. (Inr True, w)), ho_spawn = (\<lambda>args w. (Inr (), w\<lparr>dw_alive := True, dw_exiting := False\<rparr>)),
     ho_try_wait = (\<lambda>w. if dw_now w < 100 then (Inr None, w) else (Inr (Some (Some code)), w\<lparr>dw_alive := False\<rparr>)),
     ho_kill = (\<lambda>w. w\<lparr>dw_exiting := True\<rparr>),
     ho_wait = (\<lambda>w. if dw_exiting w then Some (w\<lparr>dw_alive := False\<rparr>) else None), ho_connect = (\<lambda>p w. (True, w)),
     ho_send = (\<lambda>b w. (Inr (), w)), ho_thread = (\<lambda>f w. w), ho_sleep = (\<lambda>ms w. w\<lparr>dw_now := dw_now w + ms\<rparr>),
     ho_now = dw_now, ho_env_set = (\<lambda>v w. False), ho_say = (\<lambda>r w. w)\<rparr>"

definition demo_disk :: demo_world where
  "demo_disk = \<lparr>dw_files = (\<lambda>p. Some [0x7f, 0x45, 0x4c, 0x46, 0x02]), dw_now = 0, dw_alive = False, dw_exiting = False\<rparr>"

lemma demo_clock: "clock_ok (demo_host code)"
  by (auto simp: clock_ok_def demo_host_def demo_read_def split: option.splits)

lemma demo_children: "children_ok (demo_host code) dw_alive dw_exiting"
  by (auto simp: children_ok_def demo_host_def split: if_splits)

lemma demo_files: "files_ok (demo_host code) dw_files"
  by (auto simp: files_ok_def demo_host_def demo_read_def split: option.splits)

theorem boot_qemu_returns_witness:
  "\<exists>r w'. boot_qemu (demo_host 35) \<lparr>sg_esp_dir = [], sg_vars_copy = []\<rparr> True [] demo_disk = Some (r, w') \<and>
    (dw_alive w' \<longrightarrow> (\<exists>e. r = Inl (Poll_Failed e)))"
  by (rule boot_qemu_returns [OF demo_clock demo_children]) (simp add: demo_disk_def)

lemma demo_boot:
  "dw_now w = 0 \<Longrightarrow> \<exists>w'. boot_qemu (demo_host 35) st False shot w = Some (Inr (Some 35), w')"
  by (simp add: boot_qemu_def demo_host_def map_err_def QEMU_TIMEOUT_def wait_child.simps)

theorem xtask_test_restores_witness:
  "\<exists>w'. xtask_test (demo_host 35) demo_disk = Some (SUCCESS, w') \<and>
    dw_files w' (kernel_file []) = Some [0x7f, 0x45, 0x4c, 0x46, 0x02]"
proof -
  let ?h = "demo_host 35" and ?image = "[0x7f, 0x45, 0x4c, 0x46, 0x02] :: u8 list"
  obtain st w1 where st: "build_and_stage ?h [] demo_disk = (Inr st, w1)" "dw_files w1 (kernel_file []) = Some ?image"
    "dw_now w1 = 0"
    by (simp add: build_and_stage_def build_bootloader_def build_kernel_def stage_esp_def copy_ovmf_vars_def
        try_fw_def map_err_def ensure_def demo_host_def demo_disk_def Let_def)
  let ?w2 = "w1\<lparr>dw_files := (dw_files w1)(kernel_file [] := Some (corrupt ?image))\<rparr>"
  obtain w3 where boot: "boot_qemu ?h st False (screenshot_path ?h) ?w2 = Some (Inr (Some 35), w3)"
    using demo_boot [of ?w2] st(3) by auto
  have root: "workspace_root ?h = Some []" by (simp add: workspace_root_def demo_host_def)
  have acts: "ho_read ?h (kernel_file []) w1 = (Inr ?image, w1)"
    "ho_write ?h (kernel_file []) b w = (Inr (), w\<lparr>dw_files := (dw_files w)(kernel_file [] := Some b)\<rparr>)"
    "ho_say ?h r w = w" for b w r
    using st(2) by (simp_all add: demo_host_def demo_read_def)
  obtain w' where run: "xtask_test ?h demo_disk = Some (SUCCESS, w')"
    by (simp add: xtask_test_def root st(1) acts boot Let_def test_verdict_def FAILURE_EXIT_CODE_def
        flip: kernel_file_def)
  from xtask_test_restores [OF demo_files demo_clock demo_children root st(1,2)] show ?thesis
    using run acts(2) by (auto simp: Let_def)
qed

theorem corrupted_image_rejected_witness:
  "\<exists>code. boot_main demo_uefi demo_fw (corrupt [0x7f, 0x45, 0x4c, 0x46, 0x02], 0x300000) demo_load =
      Some (Exit code, demo_load) \<and>
    fst (test_verdict (demo_host 35) (Some (qemu_code (qemu_exit_value code))) demo_disk) = SUCCESS"
proof -
  let ?w = "(corrupt [0x7f, 0x45, 0x4c, 0x46, 0x02], 0x300000 :: u64)"
  have i: "uf_init demo_uefi ?w = (True, ?w)" by (simp add: demo_uefi_def)
  have "fst (read_file demo_uefi ?w) = Inr (corrupt [0x7f, 0x45, 0x4c, 0x46, 0x02])" by code_simp
  then obtain w2 where r: "read_file demo_uefi ?w = (Inr (corrupt [0x7f, 0x45, 0x4c, 0x46, 0x02]), w2)"
    by (metis prod.collapse)
  show ?thesis by (rule corrupted_image_rejected [OF i r])
qed

end
