(* ===== verification/Heap_Bytes.thy ===== *)
theory Heap_Bytes
  imports Heap_Work Heap_Theorems
begin

text \<open>
  Words, bytes and copies in the heap's memory: reading back what was written, and \<open>touches\<close>, the
  cells a store changes, which the allocator tolerates inside a live block.
\<close>

unbundle bit_operations_syntax

section \<open>Words and bytes\<close>

lemma unat_cell [to_nat]: "unat (p - p mod (n :: u64)) = unat p - unat p mod unat n"
  by (simp add: unat_sub_le unat_mod_distrib)

lemma eighth: "8 dvd (a :: nat) \<Longrightarrow> a mod 16 = 0 \<or> a mod 16 = 8"
proof -
  assume "8 dvd a"
  then have "8 dvd a mod 16" by (rule dvd_mod) simp
  then obtain k where "a mod 16 = 8 * k" by (rule dvdE)
  moreover have "a mod 16 < 16" by simp
  ultimately show ?thesis by auto
qed

lemma cell_eq_iff:
  assumes "8 dvd unat (p :: u64)" and "8 dvd unat q"
  shows "p = q \<longleftrightarrow> p - p mod 16 = q - q mod 16 \<and> (p mod 16 < 8 \<longleftrightarrow> q mod 16 < 8)"
proof -
  have "unat p = unat q \<longleftrightarrow> unat p - unat p mod 16 = unat q - unat q mod 16 \<and> (unat p mod 16 < 8 \<longleftrightarrow> unat q mod 16 < 8)"
    using eighth [OF assms(1)] eighth [OF assms(2)] mod_less_eq_dividend [of "unat p" 16]
      mod_less_eq_dividend [of "unat q" 16] by (elim disjE) auto
  then show ?thesis
    by (simp add: word_unat_eq_iff word_less_nat_alt unat_cell unat_mod_distrib)
qed

lemma read_write_u64:
  assumes "8 dvd unat p" and "8 dvd unat q"
  shows "peek_u64 q (poke_u64 p v mem) = (if q = p then v else peek_u64 q mem)"
  using cell_eq_iff [OF assms] by (auto simp: peek_u64_def poke_u64_def Let_def)

lemma poke_u64_elsewhere: "c \<noteq> p - p mod 16 \<Longrightarrow> poke_u64 p v mem c = mem c"
  by (simp add: poke_u64_def Let_def)

definition byte_of :: "u64 \<Rightarrow> nat \<Rightarrow> u8" where
  "byte_of v i = ucast (drop_bit (8 * i) v)"

lemma bit_byte_of: "bit (byte_of v i) n \<longleftrightarrow> n < 8 \<and> bit v (8 * i + n)"
  by (auto simp: byte_of_def bit_simps)

lemma bytes_eqI:
  assumes "\<And>i. i < 8 \<Longrightarrow> byte_of v i = byte_of w i"
  shows "v = w"
proof (rule bit_word_eqI)
  fix n assume "n < LENGTH(64)"
  then have "n div 8 < 8" "n mod 8 < 8" "8 * (n div 8) + n mod 8 = n" by simp_all
  then show "bit v n = bit w n"
    using assms [of "n div 8"] bit_byte_of [of v "n div 8" "n mod 8"] bit_byte_of [of w "n div 8" "n mod 8"] by simp
qed

lemma byte_of_insert:
  assumes "i < 8" and "j < 8"
  shows "byte_of ((v AND NOT (push_bit (8 * j) 0xff)) OR push_bit (8 * j) (ucast b)) i = (if i = j then b else byte_of v i)"
proof (rule bit_word_eqI)
  fix n assume n: "n < LENGTH(8)"
  have ff: "bit (0xff :: u64) k \<longleftrightarrow> k < 8" for k
  proof -
    have ff: "(0xff :: u64) = mask 8" by (simp add: mask_eq_exp_minus_1)
    show ?thesis unfolding ff by (auto simp: bit_mask_iff)
  qed
  have ffi: "bit (0xff :: int) k \<longleftrightarrow> k < 8" "bit (0xff :: nat) k \<longleftrightarrow> k < 8" for k
  proof -
    have ff: "(0xff :: int) = mask 8" "(0xff :: nat) = mask 8" by (simp_all add: mask_eq_exp_minus_1)
    show "bit (0xff :: int) k \<longleftrightarrow> k < 8" "bit (0xff :: nat) k \<longleftrightarrow> k < 8" unfolding ff by (auto simp: bit_mask_iff)
  qed
  show "bit (byte_of ((v AND NOT (push_bit (8 * j) 0xff)) OR push_bit (8 * j) (ucast b)) i) n =
      bit (if i = j then b else byte_of v i) n"
  proof (cases "i = j")
    case True
    then show ?thesis using n assms by (auto simp: bit_byte_of bit_simps ff ffi dest: bit_imp_le_length)
  next
    case False
    then have "\<not> (8 * j \<le> 8 * i + n \<and> 8 * i + n - 8 * j < 8)" using n by simp linarith
    then show ?thesis using n assms False by (auto simp: bit_byte_of bit_simps ff ffi dest: bit_imp_le_length)
  qed
qed

lemma eight_dvd_cell: "8 dvd unat (p - p mod (8 :: u64))"
proof -
  have "unat (p - p mod 8) = unat p - unat p mod 8" using unat_cell [of p 8] by simp
  then show ?thesis using round_down_dvd [of 8 "unat p"] unfolding round_down_def by metis
qed

lemma unat_mod8: "unat (p mod (8 :: u64)) = unat p mod 8"
  by (simp add: unat_mod_distrib)

lemma peek_u8_byte: "peek_u8 p mem = byte_of (peek_u64 (p - p mod 8) mem) (unat p mod 8)"
  by (simp add: peek_u8_def byte_of_def unat_mod8)

lemma same_byte: "p - p mod (8 :: u64) = q - q mod 8 \<Longrightarrow> unat p mod 8 = unat q mod 8 \<Longrightarrow> p = q"
proof -
  assume h: "p - p mod 8 = q - q mod 8" "unat p mod 8 = unat q mod 8"
  have "unat p - unat p mod 8 = unat q - unat q mod 8"
    using unat_cell [of p 8] unat_cell [of q 8] h(1) by simp
  then have "unat p = unat q"
    using h(2) mod_less_eq_dividend [of "unat p" 8] mod_less_eq_dividend [of "unat q" 8] by linarith
  then show ?thesis by (simp add: word_unat_eq_iff)
qed

lemma read_write_u8: "peek_u8 q (poke_u8 p b mem) = (if q = p then b else peek_u8 q mem)"
  using same_byte [of p q]
  by (auto simp: peek_u8_byte poke_u8_def Let_def unat_mod8 read_write_u64 eight_dvd_cell byte_of_insert)

lemma cell_of_word: "(p - p mod 8) - (p - p mod 8) mod 16 = p - p mod (16 :: u64)"
proof -
  have "round_down (round_down a 8) 16 = round_down a 16" for a
  proof (rule antisym)
    show "round_down (round_down a 8) 16 \<le> round_down a 16"
      using order_trans [OF round_down_le round_down_le] by (intro round_down_greatest) simp_all
    have "8 dvd round_down a 16" using round_down_dvd [of 16 a] by (rule dvd_trans [rotated]) simp
    then show "round_down a 16 \<le> round_down (round_down a 8) 16"
      by (intro round_down_greatest) simp_all
  qed
  then show ?thesis by (simp add: word_unat_eq_iff unat_cell round_down_def)
qed

lemma poke_u8_elsewhere: "c \<noteq> p - p mod 16 \<Longrightarrow> poke_u8 p b mem c = mem c"
  unfolding poke_u8_def Let_def by (rule poke_u64_elsewhere) (simp only: cell_of_word not_False_eq_True)

text \<open>A read depends on one cell.\<close>

lemma peek_u64_cell: "m' (p - p mod 16) = m (p - p mod 16) \<Longrightarrow> peek_u64 p m' = peek_u64 p m"
  by (simp add: peek_u64_def)

lemma peek_u8_cell: "m' (p - p mod 16) = m (p - p mod 16) \<Longrightarrow> peek_u8 p m' = peek_u8 p m"
  unfolding peek_u8_def by (subst peek_u64_cell [of m' _ m]) (simp_all only: cell_of_word)

text \<open>A word is its eight bytes.\<close>

lemma peek_u64_cong:
  assumes "8 dvd unat p" and "8 dvd unat q" and "unat p + 8 \<le> 2 ^ 64" and "unat q + 8 \<le> 2 ^ 64"
    and "\<And>i. i < 8 \<Longrightarrow> peek_u8 (p + of_nat i) mem = peek_u8 (q + of_nat i) mem'"
  shows "peek_u64 p mem = peek_u64 q mem'"
proof (rule bytes_eqI)
  have at: "unat (x + of_nat i) mod 8 = i \<and> x + of_nat i - (x + of_nat i) mod 8 = x"
    if "8 dvd unat x" "unat x + 8 \<le> 2 ^ 64" "i < 8" for x :: u64 and i
  proof -
    have "unat (x + of_nat i) = unat x + i" using that by (simp add: unat_add_small unat_of_nat)
    then show ?thesis using that by (auto simp: word_unat_eq_iff unat_cell elim!: dvdE)
  qed
  fix i :: nat assume i: "i < 8"
  show "byte_of (peek_u64 p mem) i = byte_of (peek_u64 q mem') i"
    using assms(5) [OF i] at [OF assms(1,3) i] at [OF assms(2,4) i] by (simp add: peek_u8_byte)
qed

section \<open>Blocks of bytes\<close>

text \<open>\<open>m'\<close> differs from \<open>m\<close> only in cells that touch \<open>W\<close>.\<close>

definition touches :: "nat set \<Rightarrow> heap_mem \<Rightarrow> heap_mem \<Rightarrow> bool" where
  "touches W m m' \<longleftrightarrow> (\<forall>c. m' c \<noteq> m c \<longrightarrow> (\<exists>b \<in> W. unat c = b - b mod 16))"

lemma touches_refl [simp]: "touches W m m"
  by (simp add: touches_def)

lemma touches_trans: "touches W m m' \<Longrightarrow> touches W m' m'' \<Longrightarrow> touches W m m''"
  unfolding touches_def by metis

lemma touches_u8:
  assumes W: "unat p \<in> W"
  shows "touches W m (poke_u8 p b m)"
  unfolding touches_def
proof (intro allI impI)
  fix c assume c: "poke_u8 p b m c \<noteq> m c"
  then have "c = p - p mod 16" using poke_u8_elsewhere by metis
  then have "unat c = unat p - unat p mod 16" using unat_cell [of p 16] by simp
  then show "\<exists>b \<in> W. unat c = b - b mod 16" using W by blast
qed

lemma touches_u64:
  assumes W: "unat p \<in> W"
  shows "touches W m (poke_u64 p v m)"
  unfolding touches_def
proof (intro allI impI)
  fix c assume c: "poke_u64 p v m c \<noteq> m c"
  then have "c = p - p mod 16" using poke_u64_elsewhere by metis
  then have "unat c = unat p - unat p mod 16" using unat_cell [of p 16] by simp
  then show "\<exists>b \<in> W. unat c = b - b mod 16" using W by blast
qed

lemma touches_mono: "touches V m m' \<Longrightarrow> V \<subseteq> W \<Longrightarrow> touches W m m'"
  unfolding touches_def by blast

lemma touches_scribble: "touches W (st_heap s) m \<Longrightarrow> heap_scribble W s (s\<lparr>st_heap := m\<rparr>)"
proof -
  assume t: "touches W (st_heap s) m"
  have "m x = st_heap s x" if "{unat x..<unat x + 16} \<inter> W = {}" for x
  proof (rule ccontr)
    assume "m x \<noteq> st_heap s x"
    then obtain b where "b \<in> W" "unat x = b - b mod 16" using t by (auto simp: touches_def)
    moreover from this have "b \<in> {unat x..<unat x + 16}" 
      using mod_less_divisor [of 16 b] mod_less_eq_dividend [of b 16] by auto
    ultimately show False using that by blast
  qed
  then show ?thesis by (auto simp: heap_scribble_def)
qed

lemma copy_spec:
  assumes "unat src + n \<le> 2 ^ 64 - 1" and "unat dst + n \<le> 2 ^ 64 - 1"
    and "unat src + n \<le> unat dst \<or> unat dst + n \<le> unat src"
  shows "(\<forall>q. unat q \<notin> {unat dst..<unat dst + n} \<longrightarrow> peek_u8 q (copy_nonoverlapping n src dst m) = peek_u8 q m) \<and>
    (\<forall>i < n. peek_u8 (dst + of_nat i) (copy_nonoverlapping n src dst m) = peek_u8 (src + of_nat i) m) \<and>
    touches {unat dst..<unat dst + n} m (copy_nonoverlapping n src dst m)"
  using assms
proof (induction n arbitrary: src dst m)
  case (Suc n)
  have s1: "unat (src + 1) = unat src + 1" "unat (dst + 1) = unat dst + 1"
    using Suc.prems by (simp_all add: unat_add_small)
  let ?m = "poke_u8 dst (peek_u8 src m) m"
  have IH: "\<And>q. unat q \<notin> {unat dst + 1..<unat dst + 1 + n} \<Longrightarrow>
      peek_u8 q (copy_nonoverlapping n (src + 1) (dst + 1) ?m) = peek_u8 q ?m"
    "\<And>i. i < n \<Longrightarrow> peek_u8 (dst + 1 + of_nat i) (copy_nonoverlapping n (src + 1) (dst + 1) ?m) =
      peek_u8 (src + 1 + of_nat i) ?m"
    "touches {unat dst + 1..<unat dst + 1 + n} ?m (copy_nonoverlapping n (src + 1) (dst + 1) ?m)"
    using Suc.IH [of "src + 1" "dst + 1" ?m, unfolded s1] Suc.prems by auto
  have "peek_u8 q (copy_nonoverlapping (Suc n) src dst m) = peek_u8 q m" if "unat q \<notin> {unat dst..<unat dst + Suc n}" for q
  proof -
    have "q \<noteq> dst" "unat q \<notin> {unat dst + 1..<unat dst + 1 + n}" using that by auto
    then show ?thesis using IH(1) [of q] by (simp add: read_write_u8)
  qed
  moreover have "peek_u8 (dst + of_nat i) (copy_nonoverlapping (Suc n) src dst m) = peek_u8 (src + of_nat i) m" if "i < Suc n" for i
  proof (cases i)
    case 0
    then show ?thesis using IH(1) [of dst] by (simp add: read_write_u8)
  next
    case (Suc j)
    have "unat (src + of_nat i) = unat src + i" using Suc.prems(1) that by (simp add: unat_add_small unat_of_nat)
    then have "src + of_nat i \<noteq> dst" using Suc.prems(3) that by (auto simp: Suc)
    then show ?thesis using IH(2) [of j] that Suc by (simp add: read_write_u8 add.assoc)
  qed
  moreover have "touches {unat dst..<unat dst + Suc n} m (copy_nonoverlapping (Suc n) src dst m)"
  proof -
    have "touches {unat dst..<unat dst + Suc n} ?m (copy_nonoverlapping n (src + 1) (dst + 1) ?m)"
      using IH(3) by (rule touches_mono) auto
    moreover have "touches {unat dst..<unat dst + Suc n} m ?m" by (rule touches_u8) simp
    ultimately show ?thesis using touches_trans by fastforce
  qed
  ultimately show ?case by blast
qed simp

lemma poke_bytes_touches:
  assumes "unat p + length bs \<le> 2 ^ 64 - 1"
  shows "touches {unat p..<unat p + length bs} m (poke_bytes p bs m)"
  using assms
proof (induction bs arbitrary: p m)
  case (Cons b bs)
  have s1: "unat (p + 1) = unat p + 1" using Cons.prems by (simp add: unat_add_small)
  have "touches {unat p + 1..<unat p + 1 + length bs} (poke_u8 p b m) (poke_bytes (p + 1) bs (poke_u8 p b m))"
    using Cons.IH [of "p + 1"] Cons.prems s1 by simp
  then have "touches {unat p..<unat p + length (b # bs)} (poke_u8 p b m) (poke_bytes p (b # bs) m)"
    unfolding poke_bytes.simps by (rule touches_mono) auto
  moreover have "touches {unat p..<unat p + length (b # bs)} m (poke_u8 p b m)" by (rule touches_u8) simp
  ultimately show ?case using touches_trans by blast
qed simp

end
