(* ===== verification/Heap_Live.thy ===== *)
theory Heap_Live
  imports Heap_Bytes
begin

text \<open>
  A heap with one live block: the free list around it, what allocating, writing, freeing and
  reallocating do to it, and \<open>heap_only\<close>, the part of the state that may change.
\<close>

section \<open>One live block\<close>

text \<open>
  The free list when everything but the \<open>n\<close> bytes at \<open>p\<close> is free, and a heap in that state.
\<close>

definition around :: "nat \<Rightarrow> nat \<Rightarrow> nat \<Rightarrow> nat \<Rightarrow> span list" where
  "around a z p n = keep a (p - a) @ keep (p + n) (z - (p + n))"

definition one_live :: "nat \<Rightarrow> nat \<Rightarrow> nat \<Rightarrow> nat \<Rightarrow> 'a heap_state_scheme \<Rightarrow> bool" where
  "one_live a z p n s \<longleftrightarrow> heap_is a z s (around a z p n) \<and> a \<le> p \<and> p + n \<le> z \<and>
     16 dvd a \<and> 16 dvd z \<and> 16 dvd p \<and> 16 dvd n \<and> 0 < n"

definition all_free :: "nat \<Rightarrow> nat \<Rightarrow> 'a heap_state_scheme \<Rightarrow> bool" where
  "all_free a z s \<longleftrightarrow> heap_is a z s [(a, z - a)]"

text \<open>What the self-test may change: header and payload cells of the heap.\<close>

definition heap_only :: "nat \<Rightarrow> nat \<Rightarrow> 'a heap_state_scheme \<Rightarrow> 'a heap_state_scheme \<Rightarrow> bool" where
  "heap_only a z s s' \<longleftrightarrow> (\<exists>m h. s' = s\<lparr>st_heap := m, st_HEAP := h\<rparr> \<and>
     (\<forall>x. unat x \<notin> {a..<z} \<longrightarrow> m x = st_heap s x))"

lemma heap_only_refl [simp]: "heap_only a z s s"
  unfolding heap_only_def by (intro exI [of _ "st_heap s"] exI [of _ "st_HEAP s"]) simp

lemma heap_only_trans:
  assumes "heap_only a z s s'" and "heap_only a z s' s''"
  shows "heap_only a z s s''"
proof -
  obtain m h m' h' where s': "s' = s\<lparr>st_heap := m, st_HEAP := h\<rparr>"
    "\<And>x. unat x \<notin> {a..<z} \<Longrightarrow> m x = st_heap s x"
    and s'': "s'' = s'\<lparr>st_heap := m', st_HEAP := h'\<rparr>"
    "\<And>x. unat x \<notin> {a..<z} \<Longrightarrow> m' x = st_heap s' x"
    using assms unfolding heap_only_def by blast
  show ?thesis unfolding heap_only_def
    by (intro exI [of _ m'] exI [of _ h']) (use s' s'' in simp)
qed

lemma heap_only_mem:
  assumes "\<And>x. unat x \<notin> {a..<z} \<Longrightarrow> m x = st_heap s x"
  shows "heap_only a z s (s\<lparr>st_heap := m\<rparr>)"
  unfolding heap_only_def
  by (intro exI [of _ m] exI [of _ "st_HEAP s"]) (use assms in simp)

lemma heap_only_state:
  assumes "\<And>x. unat x \<notin> {a..<z} \<Longrightarrow> m x = st_heap s x"
  shows "heap_only a z s (s\<lparr>st_heap := m, st_HEAP := h\<rparr>)"
  unfolding heap_only_def by (intro exI [of _ m] exI [of _ h]) (use assms in simp)

lemma heap_is_bounds: "heap_is a z s bs \<Longrightarrow> 0 < a \<and> z \<le> 2 ^ 63"
  by (simp add: heap_is_def)

lemma heap_free_within: "heap_is a z s bs \<Longrightarrow> heap_free s \<subseteq> {a..<z}"
  using heap_free_is chain_bytes by (fastforce simp: heap_is_def)

lemma all_free_grid:
  assumes "all_free a z s"
  shows "16 dvd a" "16 dvd z" "a < z" "0 < a"
proof -
  show g: "16 dvd a" "a < z" "0 < a" using assms by (auto simp: all_free_def heap_is_def)
  have "16 dvd z - a" using assms by (simp add: all_free_def heap_is_def)
  then show "16 dvd z" using g by (metis dvd_diffD less_imp_le)
qed

lemma all_free_bytes: "all_free a z s \<Longrightarrow> heap_free s = {a..<z}"
  using heap_free_is [of a z s] all_free_grid(3) [of a z s] by (fastforce simp: all_free_def)

lemma around_bytes: "a \<le> p \<Longrightarrow> p + n \<le> z \<Longrightarrow> span_bytes (around a z p n) = {a..<z} - {p..<p + n}"
  by (auto simp: around_def)

lemma one_live_free: "one_live a z p n s \<Longrightarrow> heap_free s = {a..<z} - {p..<p + n}"
  using heap_free_is around_bytes by (metis one_live_def)

lemma alloc_around:
  assumes "16 dvd p" and "16 dvd n" and "16 dvd a" and "a \<le> p" and "p - a < m" and "p + n + m \<le> z" and "0 < m"
  shows "span_alloc m 16 (around a z p n) =
    Some (p + n, keep a (p - a) @ keep (p + n + m) (z - (p + n + m)))"
proof -
  have up: "round_up a 16 = a" "round_up (p + n) 16 = p + n" using assms by simp_all
  have "keep (p + n) (z - (p + n)) = [(p + n, z - (p + n))]" using assms by (simp add: keep_def)
  then have "around a z p n = keep a (p - a) @ [(p + n, z - (p + n))]" by (simp add: around_def)
  moreover have "m \<le> z - (p + n)" "z - (p + n) - m = z - (p + n + m)" using assms by auto
  ultimately show ?thesis using assms up by (cases "p = a") (auto simp: keep_def Let_def)
qed

text \<open>Freeing determines the result: it is the chain that covers the right bytes.\<close>

lemma dealloc_to:
  assumes "heap_is a z s bs" and "layout_ok l" and "heap_granted a z p l"
    and "heap_block p l \<inter> heap_free s = {}"
    and "chain (a - 1) z cs" and "span_bytes cs = heap_free s \<union> heap_block p l"
  shows "\<exists>mem head. global_dealloc p l s = Some (s\<lparr>st_heap := mem, st_HEAP := head\<rparr>) \<and>
    heap_is a z (s\<lparr>st_heap := mem, st_HEAP := head\<rparr>) cs \<and>
    (\<forall>x. unat x \<notin> heap_free s \<union> heap_block p l \<longrightarrow> mem x = st_heap s x)"
proof -
  from global_dealloc_refines [OF assms(1-4)] obtain mem head where
    d: "global_dealloc p l s = Some (s\<lparr>st_heap := mem, st_HEAP := head\<rparr>)"
    "heap_is a z (s\<lparr>st_heap := mem, st_HEAP := head\<rparr>) (span_free (unat p) (block_len l) bs)"
    "\<forall>x. unat x \<notin> heap_free s \<union> heap_block p l \<longrightarrow> mem x = st_heap s x" by blast
  have h: "chain (a - 1) z bs" "0 < a" using assms(1) by (auto simp: heap_is_def)
  have nm: "16 dvd block_len l" "0 < block_len l" using normalise_spec [OF assms(2)] by metis+
  have "{unat p..<unat p + block_len l} \<inter> span_bytes bs = {}"
    using assms(4) heap_free_is [OF assms(1)] by (simp add: heap_block_def)
  then have "span_bytes (span_free (unat p) (block_len l) bs) = span_bytes cs"
    using span_free_spec [OF h(1) _ _ nm] assms(3,6) h(2) heap_free_is [OF assms(1)]
    by (auto simp: heap_granted_def heap_block_def)
  then have "span_free (unat p) (block_len l) bs = cs"
    using chain_unique d(2) assms(5) by (metis heap_is_def)
  then show ?thesis using d by blast
qed

lemma alloc_to:
  assumes "heap_is a z s bs" and "layout_ok l" and "span_alloc (block_len l) (block_align l) bs = Some (p, cs)"
  obtains w mem head where "global_alloc l s = Some (w, s\<lparr>st_heap := mem, st_HEAP := head\<rparr>)" and "unat w = p"
    and "heap_is a z (s\<lparr>st_heap := mem, st_HEAP := head\<rparr>) cs"
    and "\<forall>x. unat x \<notin> heap_free s \<longrightarrow> mem x = st_heap s x"
  using global_alloc_refines [OF assms(1,2)] assms(3) by auto

lemma grid_align: "k dvd 16 \<Longrightarrow> 16 dvd (p :: nat) \<Longrightarrow> k dvd p"
  by (rule dvd_trans)

text \<open>The layouts of the self-test: powers of two up to 16 as alignment.\<close>

definition small_layout :: "layout \<Rightarrow> nat \<Rightarrow> bool" where
  "small_layout l n \<longleftrightarrow> layout_ok l \<and> unat (ly_align l) dvd 16 \<and> block_len l = n"

lemma small_layoutD:
  assumes "small_layout l n"
  shows "layout_ok l" "block_len l = n" "block_align l = 16" "16 dvd n" "0 < n" "unat (ly_align l) dvd 16"
proof -
  show l: "layout_ok l" "block_len l = n" "unat (ly_align l) dvd 16" using assms by (auto simp: small_layout_def)
  show "16 dvd n" "0 < n" using normalise_spec [OF l(1)] l(2) by metis+
  have "unat (ly_align l) \<le> 16" using l(3) by (auto dest: dvd_imp_le)
  then show "block_align l = 16" by (simp add: block_align_def)
qed

lemma granted_small: "small_layout l n \<Longrightarrow> a \<le> unat p \<Longrightarrow> unat p + n \<le> z \<Longrightarrow> 16 dvd unat p \<Longrightarrow> heap_granted a z p l"
  unfolding heap_granted_def using small_layoutD(2,6) [of l n] grid_align by blast

lemma block_small: "small_layout l n \<Longrightarrow> heap_block p l = {unat p..<unat p + n}"
  using small_layoutD(2) [of l n] by (simp add: heap_block_def)

lemma alloc_first:
  assumes "all_free a z s" and "small_layout l n" and "a + n \<le> z"
  obtains w s' where "global_alloc l s = Some (w, s')" and "unat w = a" and "one_live a z a n s'" and "heap_only a z s s'"
proof -
  note g = all_free_grid [OF assms(1)] and l = small_layoutD [OF assms(2)]
  have h: "heap_is a z s [(a, z - a)]" using assms(1) by (simp add: all_free_def)
  have "span_alloc (block_len l) (block_align l) [(a, z - a)] = Some (a, around a z a n)"
    using g assms(3) l by (simp add: around_def keep_def Let_def)
  from alloc_to [OF h l(1) this] obtain w m hd where w: "global_alloc l s = Some (w, s\<lparr>st_heap := m, st_HEAP := hd\<rparr>)"
    "unat w = a" "heap_is a z (s\<lparr>st_heap := m, st_HEAP := hd\<rparr>) (around a z a n)"
    "\<forall>x. unat x \<notin> heap_free s \<longrightarrow> m x = st_heap s x" .
  have "one_live a z a n (s\<lparr>st_heap := m, st_HEAP := hd\<rparr>)"
    using w(3) g(1,2) l(4,5) assms(3) by (simp add: one_live_def)
  moreover have "heap_only a z s (s\<lparr>st_heap := m, st_HEAP := hd\<rparr>)"
    using w(4) all_free_bytes [OF assms(1)] by (intro heap_only_state) simp
  ultimately show thesis by (rule that [OF w(1,2)])
qed

lemma dealloc_last:
  assumes "one_live a z (unat p) n s" and "small_layout l n"
  obtains s' where "global_dealloc p l s = Some s'" and "all_free a z s'" and "heap_only a z s s'"
proof -
  note l = small_layoutD [OF assms(2)] and o = assms(1) [unfolded one_live_def]
  have bytes: "heap_free s = {a..<z} - {unat p..<unat p + n}" by (rule one_live_free [OF assms(1)])
  have free: "span_bytes [(a, z - a)] = heap_free s \<union> heap_block p l"
    using o bytes block_small [OF assms(2)] by auto
  have h: "heap_is a z s (around a z (unat p) n)" "0 < a" using o by (auto simp: heap_is_def)
  then have c: "chain (a - 1) z [(a, z - a)]" using o by (auto simp: dvd_diff_nat)
  have g: "heap_granted a z p l" using o by (intro granted_small [OF assms(2)]) auto
  have apart: "heap_block p l \<inter> heap_free s = {}" using bytes block_small [OF assms(2)] by auto
  obtain m h where d: "global_dealloc p l s = Some (s\<lparr>st_heap := m, st_HEAP := h\<rparr>)"
    "heap_is a z (s\<lparr>st_heap := m, st_HEAP := h\<rparr>) [(a, z - a)]"
    "\<forall>x. unat x \<notin> heap_free s \<union> heap_block p l \<longrightarrow> m x = st_heap s x"
    using dealloc_to [OF h(1) l(1) g apart c free] by blast
  have "heap_only a z s (s\<lparr>st_heap := m, st_HEAP := h\<rparr>)"
  proof (rule heap_only_state)
    fix x :: u64 assume "unat x \<notin> {a..<z}"
    then have "unat x \<notin> heap_free s \<union> heap_block p l" using o bytes block_small [OF assms(2)] by auto
    then show "m x = st_heap s x" using d(3) by blast
  qed
  then show thesis using that d by (simp add: all_free_def)
qed

section \<open>Moving the live block\<close>

lemma cell_within:
  assumes "16 dvd p" and "16 dvd n" and "unat q \<in> {p..<p + n}"
  shows "unat (q - q mod (16 :: u64)) \<in> {p..<p + n}"
proof -
  have "unat (q - q mod 16) = round_down (unat q) 16" using unat_cell [of q 16] by (simp add: round_down_def)
  moreover have "p \<le> round_down (unat q) 16" using assms by (intro round_down_greatest) auto
  moreover have "round_down (unat q) 16 \<le> unat q" by simp
  ultimately show ?thesis using assms(3) by (auto intro: le_less_trans)
qed

lemma around_chain:
  assumes "16 dvd a" and "16 dvd z" and "16 dvd p" and "16 dvd n" and "0 < n" and "a \<le> p" and "p + n \<le> z" and "0 < a"
  shows "chain (a - 1) z (around a z p n)"
  using assms by (auto simp: around_def keep_def dvd_diff_nat)

lemma heap_only_touches:
  assumes "touches W (st_heap s) m" and "W \<subseteq> {a..<z}" and "16 dvd a"
  shows "heap_only a z s (s\<lparr>st_heap := m\<rparr>)"
proof (rule heap_only_mem)
  fix x :: u64 assume x: "unat x \<notin> {a..<z}"
  show "m x = st_heap s x"
  proof (rule ccontr)
    assume "m x \<noteq> st_heap s x"
    then obtain b where b: "b \<in> W" "unat x = round_down b 16" using assms(1) by (auto simp: touches_def round_down_def)
    then have "a \<le> b" "b < z" using assms(2) by auto
    then have "a \<le> round_down b 16" using assms(3) by (intro round_down_greatest) auto
    then show False using x b(2) \<open>b < z\<close> round_down_le [of b 16] by simp
  qed
qed

lemma write_live:
  assumes "one_live a z p n s" and "touches {p..<p + n} (st_heap s) m"
  shows "one_live a z p n (s\<lparr>st_heap := m\<rparr>)" and "heap_only a z s (s\<lparr>st_heap := m\<rparr>)"
proof -
  have "{p..<p + n} \<inter> heap_free s = {}" using one_live_free [OF assms(1)] by auto
  from heap_scribble_is [OF _ this touches_scribble [OF assms(2)]] assms(1)
  show "one_live a z p n (s\<lparr>st_heap := m\<rparr>)" by (simp add: one_live_def)
  show "heap_only a z s (s\<lparr>st_heap := m\<rparr>)"
    using assms(1) by (intro heap_only_touches [OF assms(2)]) (auto simp: one_live_def)
qed

lemma size_le_block: "unat (ly_size l) \<le> block_len l"
  unfolding block_len_def by (rule order.trans [OF max.cobounded1 round_up_ge])

text \<open>
  A request that does not fit below the block is granted right behind it; the old block joins the
  free space below.
\<close>

lemma realloc_moves:
  assumes o: "one_live a z (unat p) n s" and l: "small_layout l n" and l': "small_layout (l\<lparr>ly_size := sz\<rparr>) m"
    and fit: "unat p - a < m" "unat p + n + m \<le> z" and grow: "unat (ly_size l) \<le> unat sz"
  obtains w s' where "global_realloc p l sz s = Some (w, s')" and "unat w = unat p + n"
    and "one_live a z (unat p + n) m s'" and "heap_only a z s s'"
    and "\<And>i. i < unat (ly_size l) \<Longrightarrow> peek_u8 (w + of_nat i) (st_heap s') = peek_u8 (p + of_nat i) (st_heap s)"
proof -
  note old = small_layoutD [OF l] and new = small_layoutD [OF l']
  have g: "heap_is a z s (around a z (unat p) n)" "a \<le> unat p" "unat p + n \<le> z" "16 dvd a" "16 dvd z"
    "16 dvd unat p" "16 dvd n" "0 < n" "0 < a" "z \<le> 2 ^ 63"
    using o by (auto simp: one_live_def heap_is_def)
  let ?P = "unat p" and ?k = "unat (ly_size l)"
  let ?cs = "keep a (?P - a) @ keep (?P + n + m) (z - (?P + n + m))"
  have k: "?k \<le> n" "?k \<le> m" using size_le_block [of l] size_le_block [of "l\<lparr>ly_size := sz\<rparr>"] old(2) new(2) grow by simp_all
  have free: "heap_free s = {a..<z} - {?P..<?P + n}" by (rule one_live_free [OF o])
  have "span_alloc (block_len (l\<lparr>ly_size := sz\<rparr>)) (block_align (l\<lparr>ly_size := sz\<rparr>)) (around a z ?P n) = Some (?P + n, ?cs)"
    unfolding new(2,3) using alloc_around [OF g(6,7,4,2) fit new(5)] .
  from alloc_to [OF g(1) new(1) this] obtain w m1 h1 where
    al: "global_alloc (l\<lparr>ly_size := sz\<rparr>) s = Some (w, s\<lparr>st_heap := m1, st_HEAP := h1\<rparr>)" "unat w = ?P + n"
    "heap_is a z (s\<lparr>st_heap := m1, st_HEAP := h1\<rparr>) ?cs" "\<forall>x. unat x \<notin> heap_free s \<longrightarrow> m1 x = st_heap s x" .
  let ?s1 = "s\<lparr>st_heap := m1, st_HEAP := h1\<rparr>"
  have only1: "heap_only a z s ?s1" by (rule heap_only_state) (use al(4) free in auto)
  have free1: "heap_free ?s1 = {a..<z} - {?P..<?P + n + m}" using heap_free_is [OF al(3)] g(2) fit(2) by auto
  have w: "w \<noteq> 0" using al(2) g(9) g(2) by auto
  let ?m2 = "copy_nonoverlapping ?k p w m1"
  have bounds: "?P + ?k \<le> 2 ^ 64 - 1" "unat w + ?k \<le> 2 ^ 64 - 1" "?P + ?k \<le> unat w \<or> unat w + ?k \<le> ?P"
    using k fit(2) g(10) al(2) by simp_all
  note cp = copy_spec [OF bounds, of m1]
  have t2: "touches {unat w..<unat w + ?k} (st_heap ?s1) ?m2" using cp by simp
  have "{unat w..<unat w + ?k} \<inter> heap_free ?s1 = {}" using free1 al(2) k by auto
  from heap_scribble_is [OF al(3) this touches_scribble [OF t2]]
  have is2: "heap_is a z (?s1\<lparr>st_heap := ?m2\<rparr>) ?cs" .
  have only2: "heap_only a z ?s1 (?s1\<lparr>st_heap := ?m2\<rparr>)"
    using al(2) k fit(2) g(2,4) by (intro heap_only_touches [OF t2]) auto
  let ?s2 = "?s1\<lparr>st_heap := ?m2\<rparr>"
  have free2: "heap_free ?s2 = heap_free ?s1" using heap_free_is [OF is2] heap_free_is [OF al(3)] by simp
  have gr: "heap_granted a z p l" by (rule granted_small [OF l g(2,3,6)])
  have apart: "heap_block p l \<inter> heap_free ?s2 = {}" using free1 free2 block_small [OF l] by auto
  have g': "16 dvd ?P + n" "a \<le> ?P + n" "?P + n + m \<le> z" using g fit by auto
  have "span_bytes (around a z (?P + n) m) = heap_free ?s2 \<union> heap_block p l"
    using around_bytes [OF g'(2,3)] free1 free2 block_small [OF l] g(2) fit(2) by auto
  from dealloc_to [OF is2 old(1) gr apart around_chain [OF g(4,5) g'(1) new(4,5) g'(2,3) g(9)] this]
  obtain m3 h3 where d: "global_dealloc p l ?s2 = Some (?s2\<lparr>st_heap := m3, st_HEAP := h3\<rparr>)"
    "heap_is a z (?s2\<lparr>st_heap := m3, st_HEAP := h3\<rparr>) (around a z (?P + n) m)"
    "\<forall>x. unat x \<notin> heap_free ?s2 \<union> heap_block p l \<longrightarrow> m3 x = st_heap ?s2 x" by blast
  let ?s3 = "?s2\<lparr>st_heap := m3, st_HEAP := h3\<rparr>"
  have "global_realloc p l sz s = Some (w, ?s3)"
    using al(1) w d(1) grow by (simp add: global_realloc_def min_def word_le_nat_alt)
  moreover have "one_live a z (?P + n) m ?s3" using d(2) g g' new(4,5) by (simp add: one_live_def)
  moreover have "heap_only a z ?s2 ?s3"
    by (rule heap_only_state) (use d(3) free1 free2 block_small [OF l] g(2,3) in auto)
  then have "heap_only a z s ?s3" using heap_only_trans only1 only2 by blast
  moreover have "peek_u8 (w + of_nat i) (st_heap ?s3) = peek_u8 (p + of_nat i) (st_heap s)" if "i < ?k" for i
  proof -
    have at: "unat (w + of_nat i) = unat w + i" "unat (p + of_nat i) = ?P + i"
      using that bounds by (simp_all add: unat_add_small unat_of_nat)
    have "unat (w + of_nat i) \<in> {?P + n..<?P + n + m}" using at(1) al(2) that k by simp
    from cell_within [OF g'(1) new(4) this]
    have "unat ((w + of_nat i) - (w + of_nat i) mod 16) \<notin> heap_free ?s2 \<union> heap_block p l"
      using free1 free2 block_small [OF l] by auto
    then have 3: "peek_u8 (w + of_nat i) m3 = peek_u8 (w + of_nat i) ?m2"
      using d(3) by (intro peek_u8_cell) simp
    have "unat (p + of_nat i) \<in> {?P..<?P + n}" using at(2) that k by simp
    from cell_within [OF g(6,7) this]
    have "unat ((p + of_nat i) - (p + of_nat i) mod 16) \<notin> heap_free s" using free by auto
    then have "peek_u8 (p + of_nat i) m1 = peek_u8 (p + of_nat i) (st_heap s)"
      using al(4) by (intro peek_u8_cell) blast
    then show ?thesis using 3 cp that by simp
  qed
  ultimately show thesis using that al(2) by blast
qed

end
