(* ===== verification/Heap_Work_Props.thy ===== *)
theory Heap_Work_Props
  imports Heap_Live
begin

text \<open>
  The growing \<open>Vec<u64>\<close> and \<open>String\<close> of the heap self-test keep their contents and leave a
  heap with one live block; its four scopes leave one free block; so the self-test passes.
\<close>

section \<open>The growing vector\<close>

lemma layout_pow:
  assumes "unat (ly_align l) = 2 ^ k" and "k \<le> 4" and "unat (ly_size l) \<le> 2 ^ 20"
  shows "layout_ok l"
proof -
  have "2 ^ k \<le> (2 :: nat) ^ 4" using assms(2) by (rule power_increasing) simp
  then have "round_up (unat (ly_size l)) (2 ^ k) < 2 ^ 63"
    using round_up_less [of "2 ^ k" "unat (ly_size l)"] assms(3) by simp
  moreover have "k \<in> set [0..<64]" using assms(2) by simp
  ultimately show ?thesis using assms(1) unfolding layout_ok_def by metis
qed

lemma unat_small_mult: "unat (c :: u64) \<le> 2 ^ 16 \<Longrightarrow> unat (8 * c) = 8 * unat c"
  by (simp add: unat_mult_small)

lemma array_u64:
  assumes "unat c \<le> 2 ^ 16"
  shows "array_layout layout_u64 c = Some \<lparr>ly_size = 8 * c, ly_align = 8\<rparr>"
proof -
  have m: "checked_mul 8 c = Some (8 * c)" using unat_small_mult [OF assms] by simp
  show ?thesis
    using unat_small_mult [OF assms] assms by (simp add: array_layout_def layout_u64_def m del: checked_mul_Some_iff)
qed

lemma small_u64:
  assumes "unat c \<le> 2 ^ 16" and "even (unat c)" and "0 < unat c"
  shows "small_layout \<lparr>ly_size = 8 * c, ly_align = 8\<rparr> (8 * unat c)"
proof -
  have "16 dvd 8 * unat c" using assms(2) by (auto elim!: evenE)
  moreover have "16 \<le> 8 * unat c" using assms(2,3) by (auto elim!: evenE)
  moreover have "layout_ok \<lparr>ly_size = 8 * c, ly_align = 8\<rparr>"
    using assms(1) unat_small_mult [OF assms(1)] by (intro layout_pow [of _ 3]) simp_all
  ultimately show ?thesis
    using unat_small_mult [OF assms(1)] by (simp add: small_layout_def block_len_def max_def)
qed

lemma array_u8:
  assumes "unat c \<le> 2 ^ 16"
  shows "array_layout layout_u8 c = Some \<lparr>ly_size = c, ly_align = 1\<rparr>"
proof -
  have m: "checked_mul 1 c = Some c" by simp
  show ?thesis using assms by (simp add: array_layout_def layout_u8_def m del: checked_mul_Some_iff)
qed

lemma small_u8:
  assumes "unat c \<le> 2 ^ 16" and "unat c = 8 \<or> 16 dvd unat c" and "0 < unat c"
  shows "small_layout \<lparr>ly_size = c, ly_align = 1\<rparr> (max (unat c) 16)"
proof -
  have "layout_ok \<lparr>ly_size = c, ly_align = 1\<rparr>" using assms(1) by (intro layout_pow [of _ 0]) simp_all
  moreover have "16 dvd max (unat c) 16" using assms by (auto simp: max_def)
  ultimately show ?thesis by (simp add: small_layout_def block_len_def)
qed

text \<open>
  A vector of \<open>u64\<close> that owns the only live block and holds \<open>xs\<close>, with at most its own size of
  free space below it.
\<close>

definition vec_holds :: "nat \<Rightarrow> nat \<Rightarrow> vec \<Rightarrow> u64 list \<Rightarrow> 'a heap_state_scheme \<Rightarrow> bool" where
  "vec_holds a z v xs s \<longleftrightarrow>
     unat (vc_len v) = length xs \<and> length xs \<le> unat (vc_cap v) \<and> unat (vc_cap v) \<le> 2048 \<and>
     (if vc_cap v = 0 then all_free a z s
      else even (unat (vc_cap v)) \<and> 4 \<le> unat (vc_cap v) \<and>
        one_live a z (unat (vc_ptr v)) (8 * unat (vc_cap v)) s \<and> unat (vc_ptr v) - a \<le> 8 * unat (vc_cap v) \<and>
        (\<forall>i < length xs. peek_u64 (vc_ptr v + 8 * of_nat i) (st_heap s) = xs ! i))"

lemma one_live_top: "one_live a z p n s \<Longrightarrow> a \<le> p \<and> p + n \<le> 2 ^ 63 \<and> 0 < a \<and> 16 dvd p"
  by (auto simp: one_live_def heap_is_def)

lemma element_at:
  assumes "unat (p :: u64) + 8 * n \<le> 2 ^ 63" and "i < n" and "16 dvd unat p"
  shows "unat (p + 8 * of_nat i) = unat p + 8 * i" and "8 dvd unat (p + 8 * of_nat i)"
proof -
  have "unat (of_nat i :: u64) = i" using assms(1,2) by (simp add: unat_of_nat)
  then have "unat (8 * of_nat i :: u64) = 8 * i" using assms(1,2) by (simp add: unat_mult_small)
  moreover from this have "unat p + unat (8 * of_nat i :: u64) < 2 ^ LENGTH(64)" using assms(1,2) by simp
  ultimately show at: "unat (p + 8 * of_nat i) = unat p + 8 * i" by (simp only: unat_add_small)
  have "8 dvd unat p" using assms(3) by (rule dvd_trans [rotated]) simp
  then show "8 dvd unat (p + 8 * of_nat i)" unfolding at by (intro dvd_add dvd_triv_left)
qed

lemma vec_grow:
  assumes v: "vec_holds a z v xs s" and full: "vc_len v = vc_cap v" and short: "length xs < 1024"
    and room: "a + 0x10000 \<le> z"
  obtains v' s' where "grow_amortized layout_u64 1 v s = Some (v', s')" and "vec_holds a z v' xs s'"
    and "vc_len v' < vc_cap v'" and "heap_only a z s s'"
proof (cases "vc_cap v = 0")
  case True
  have len: "vc_len v = 0" and xs: "xs = []" using v full True by (auto simp: vec_holds_def)
  have free: "all_free a z s" using v True by (simp add: vec_holds_def)
  have sm: "small_layout \<lparr>ly_size = 32, ly_align = 8\<rparr> 32" using small_u64 [of 4] by simp
  obtain w s' where al: "global_alloc \<lparr>ly_size = 32, ly_align = 8\<rparr> s = Some (w, s')" "unat w = a"
    "one_live a z a 32 s'" "heap_only a z s s'"
    using alloc_first [OF free sm] room by auto
  have w: "w \<noteq> 0" using al(2) all_free_grid(4) [OF free] by auto
  let ?v = "v\<lparr>vc_ptr := w, vc_cap := 4\<rparr>"
  have cap: "max (min_non_zero_cap layout_u64) 1 = 4" by code_simp
  have req: "checked_add (vc_len v) 1 = Some 1" using len by simp
  have "grow_amortized layout_u64 1 v s = Some (?v, s')"
    using array_u64 [of 4] al(1) w True cap
    unfolding grow_amortized_def req by (simp add: Let_def)
  moreover have "vec_holds a z ?v xs s'" using al len xs by (simp add: vec_holds_def)
  ultimately show thesis using that al(4) len by simp
next
  case False
  let ?c = "unat (vc_cap v)"
  have h: "unat (vc_len v) = length xs" "length xs = ?c" "even ?c" "4 \<le> ?c"
    "one_live a z (unat (vc_ptr v)) (8 * ?c) s" "unat (vc_ptr v) - a \<le> 8 * ?c"
    "\<forall>i < length xs. peek_u64 (vc_ptr v + 8 * of_nat i) (st_heap s) = xs ! i"
    using v full False by (auto simp: vec_holds_def)
  have c2: "unat (vc_cap v * 2) = 2 * ?c" using h(2) short by (simp add: unat_mult_small)
  obtain r where req: "checked_add (vc_len v) 1 = Some r" "unat r = ?c + 1"
    using word_of_unat [of "?c + 1", where 'a = 64] h(2) short full by auto
  have "min_non_zero_cap layout_u64 = 4" by (simp add: min_non_zero_cap_def layout_u64_def)
  then have cap: "max (min_non_zero_cap layout_u64) (max (vc_cap v * 2) r) = vc_cap v * 2"
    using c2 req(2) h(4) by (simp add: max_def word_le_nat_alt)
  have arr: "array_layout layout_u64 (vc_cap v) = Some \<lparr>ly_size = 8 * vc_cap v, ly_align = 8\<rparr>"
    "array_layout layout_u64 (vc_cap v * 2) = Some \<lparr>ly_size = 8 * (vc_cap v * 2), ly_align = 8\<rparr>"
    using h(2) short c2 by (intro array_u64; simp)+
  have sm: "small_layout \<lparr>ly_size = 8 * vc_cap v, ly_align = 8\<rparr> (8 * ?c)"
    using h(2-4) short by (intro small_u64) simp_all
  have sm2: "small_layout (\<lparr>ly_size = 8 * vc_cap v, ly_align = 8\<rparr>\<lparr>ly_size := 8 * (vc_cap v * 2)\<rparr>) (16 * ?c)"
    using small_u64 [of "vc_cap v * 2"] h(2-4) short c2 by simp
  have sz: "unat (8 * vc_cap v) = 8 * ?c" "unat (8 * (vc_cap v * 2)) = 16 * ?c"
    using h(2) short c2 unat_small_mult [of "vc_cap v"] unat_small_mult [of "vc_cap v * 2"] by simp_all
  note top = one_live_top [OF h(5)]
  have fits: "unat (vc_ptr v) - a < 16 * ?c" "unat (vc_ptr v) + 8 * ?c + 16 * ?c \<le> z"
    using h(2,4,6) short room top by simp_all
  have grow: "unat (ly_size \<lparr>ly_size = 8 * vc_cap v, ly_align = 8\<rparr>) \<le> unat (8 * (vc_cap v * 2))"
    unfolding layout.select_convs sz by simp
  obtain w s' where r: "global_realloc (vc_ptr v) \<lparr>ly_size = 8 * vc_cap v, ly_align = 8\<rparr> (8 * (vc_cap v * 2)) s = Some (w, s')"
    "unat w = unat (vc_ptr v) + 8 * ?c" "one_live a z (unat (vc_ptr v) + 8 * ?c) (16 * ?c) s'" "heap_only a z s s'"
    "\<And>i. i < 8 * ?c \<Longrightarrow> peek_u8 (w + of_nat i) (st_heap s') = peek_u8 (vc_ptr v + of_nat i) (st_heap s)"
    by (rule realloc_moves [OF h(5) sm sm2 fits grow]) (simp add: sz(1))
  let ?v = "v\<lparr>vc_ptr := w, vc_cap := vc_cap v * 2\<rparr>"
  have w: "w \<noteq> 0" using r(2) top by auto
  have "grow_amortized layout_u64 1 v s = Some (?v, s')"
    using r(1) w False arr unfolding grow_amortized_def by (simp add: req(1) cap Let_def)
  moreover have "vec_holds a z ?v xs s'"
  proof -
    have "peek_u64 (w + 8 * of_nat i) (st_heap s') = xs ! i" if i: "i < length xs" for i
    proof -
      have wt: "unat w + 8 * ?c \<le> 2 ^ 63" using one_live_top [OF r(3)] r(2) by simp
      have at: "unat (w + 8 * of_nat i) = unat w + 8 * i" "8 dvd unat (w + 8 * of_nat i)"
        "unat (vc_ptr v + 8 * of_nat i) = unat (vc_ptr v) + 8 * i" "8 dvd unat (vc_ptr v + 8 * of_nat i)"
        using element_at [of w ?c i] element_at [of "vc_ptr v" ?c i] wt top one_live_top [OF r(3)] r(2) i h(2) by simp_all
      have "peek_u64 (w + 8 * of_nat i) (st_heap s') = peek_u64 (vc_ptr v + 8 * of_nat i) (st_heap s)"
      proof (rule peek_u64_cong [OF at(2,4)])
        fix j :: nat assume "j < 8"
        then have "8 * i + j < 8 * ?c" using i h(2) by simp
        from r(5) [OF this]
        show "peek_u8 (w + 8 * of_nat i + of_nat j) (st_heap s') = peek_u8 (vc_ptr v + 8 * of_nat i + of_nat j) (st_heap s)"
          by (simp add: add.assoc)
      qed (use at wt top i h(2) in simp_all)
      then show ?thesis using h(7) i by simp
    qed
    moreover have "vc_cap v * 2 \<noteq> 0" using c2 h(4) by auto
    ultimately show ?thesis using h(1,2,4) short c2 r(2,3) h(6) by (simp add: vec_holds_def)
  qed
  moreover have "vc_len ?v < vc_cap ?v" using c2 h(1,2,4) by (simp add: word_less_nat_alt)
  ultimately show thesis using that r(4) by blast
qed

lemma vec_store:
  assumes v: "vec_holds a z v xs s" and room: "vc_len v < vc_cap v"
  shows "vec_holds a z (v\<lparr>vc_len := vc_len v + 1\<rparr>) (xs @ [x])
      (s\<lparr>st_heap := poke_u64 (vc_ptr v + 8 * vc_len v) x (st_heap s)\<rparr>)"
    and "heap_only a z s (s\<lparr>st_heap := poke_u64 (vc_ptr v + 8 * vc_len v) x (st_heap s)\<rparr>)"
proof -
  let ?c = "unat (vc_cap v)" and ?p = "vc_ptr v + 8 * of_nat (length xs)"
  have h: "unat (vc_len v) = length xs" "length xs < ?c" "?c \<le> 2048" "even ?c" "4 \<le> ?c"
    "one_live a z (unat (vc_ptr v)) (8 * ?c) s" "unat (vc_ptr v) - a \<le> 8 * ?c"
    "\<forall>i < length xs. peek_u64 (vc_ptr v + 8 * of_nat i) (st_heap s) = xs ! i" "vc_cap v \<noteq> 0"
    using v room by (auto simp: vec_holds_def word_less_nat_alt split: if_splits)
  have p: "vc_ptr v + 8 * vc_len v = ?p" by (simp flip: h(1))
  note top = one_live_top [OF h(6)]
  have at: "unat (vc_ptr v + 8 * of_nat i) = unat (vc_ptr v) + 8 * i" "8 dvd unat (vc_ptr v + 8 * of_nat i)"
    if "i < ?c" for i
    using element_at [of "vc_ptr v" ?c i] top that by simp_all
  have "unat ?p \<in> {unat (vc_ptr v)..<unat (vc_ptr v) + 8 * ?c}" using at(1) [OF h(2)] h(2) by simp
  note t = touches_u64 [OF this, of "st_heap s" x]
  note live = write_live [OF h(6) t]
  have len: "unat (vc_len v + 1) = length xs + 1" using h(1-3) by (simp add: unat_add_small)
  have "peek_u64 (vc_ptr v + 8 * of_nat i) (poke_u64 ?p x (st_heap s)) = (xs @ [x]) ! i" if "i < length xs + 1" for i
  proof (cases "i = length xs")
    case True
    then show ?thesis using read_write_u64 [OF at(2) [OF h(2)] at(2) [OF h(2)]] by simp
  next
    case False
    then have i: "i < length xs" using that by simp
    then have "vc_ptr v + 8 * of_nat i \<noteq> ?p" using at(1) [of i] at(1) [OF h(2)] h(2) by auto
    then show ?thesis using read_write_u64 [OF at(2) [OF h(2)] at(2) [of i]] i h(2,8) by (simp add: nth_append)
  qed
  then show "vec_holds a z (v\<lparr>vc_len := vc_len v + 1\<rparr>) (xs @ [x]) (s\<lparr>st_heap := poke_u64 (vc_ptr v + 8 * vc_len v) x (st_heap s)\<rparr>)"
    unfolding p using live(1) len h(2-5,7,9) by (simp add: vec_holds_def)
  show "heap_only a z s (s\<lparr>st_heap := poke_u64 (vc_ptr v + 8 * vc_len v) x (st_heap s)\<rparr>)"
    unfolding p by (rule live(2))
qed

lemma vec_push_holds:
  assumes v: "vec_holds a z v xs s" and short: "length xs < 1024" and room: "a + 0x10000 \<le> z"
  obtains v' s' where "vec_push x v s = Some (v', s')" and "vec_holds a z v' (xs @ [x]) s'" and "heap_only a z s s'"
proof (cases "vc_len v = vc_cap v")
  case True
  obtain v1 s1 where g: "grow_amortized layout_u64 1 v s = Some (v1, s1)" "vec_holds a z v1 xs s1"
    "vc_len v1 < vc_cap v1" "heap_only a z s s1" by (rule vec_grow [OF v True short room])
  show thesis
    using that [OF _ vec_store(1) [OF g(2,3)] heap_only_trans [OF g(4) vec_store(2) [OF g(2,3)]]] g(1) True
    by (simp add: vec_push_def)
next
  case False
  then have "vc_len v < vc_cap v" using v by (auto simp: vec_holds_def word_less_nat_alt word_unat_eq_iff)
  then show thesis using that vec_store [OF v] False by (simp add: vec_push_def)
qed

lemma vec_push_all_holds:
  assumes "vec_holds a z v ys s" and "length ys + length xs \<le> 1024" and "a + 0x10000 \<le> z"
  shows "\<exists>v' s'. vec_push_all xs v s = Some (v', s') \<and> vec_holds a z v' (ys @ xs) s' \<and> heap_only a z s s'"
  using assms
proof (induction xs arbitrary: v s ys)
  case (Cons x xs)
  obtain v1 s1 where 1: "vec_push x v s = Some (v1, s1)" "vec_holds a z v1 (ys @ [x]) s1" "heap_only a z s s1"
    using vec_push_holds [OF Cons.prems(1) _ Cons.prems(3)] Cons.prems(2) by auto
  obtain v2 s2 where "vec_push_all xs v1 s1 = Some (v2, s2)" "vec_holds a z v2 (ys @ x # xs) s2" "heap_only a z s1 s2"
    using Cons.IH [OF 1(2)] Cons.prems(2,3) by auto
  then show ?case using 1 heap_only_trans by (auto simp: intro!: exI)
qed auto

lemma vec_index_holds:
  assumes "vec_holds a z v xs s"
  shows "vec_index v i s = (if unat i < length xs then Some (xs ! unat i) else None)"
proof -
  have len: "unat (vc_len v) = length xs" using assms by (simp add: vec_holds_def)
  moreover have "peek_u64 (vc_ptr v + 8 * i) (st_heap s) = xs ! unat i" if i: "unat i < length xs"
  proof -
    have "vc_cap v \<noteq> 0" using assms i by (auto simp: vec_holds_def)
    then have "\<forall>k < length xs. peek_u64 (vc_ptr v + 8 * of_nat k) (st_heap s) = xs ! k"
      using assms by (simp add: vec_holds_def)
    from this [rule_format, OF i] show ?thesis by simp
  qed
  ultimately show ?thesis by (simp add: vec_index_def word_less_nat_alt)
qed

lemma vec_drop_holds:
  assumes "vec_holds a z v xs s"
  obtains s' where "vec_drop layout_u64 v s = Some s'" and "all_free a z s'" and "heap_only a z s s'"
proof (cases "vc_cap v = 0")
  case True
  then show thesis using that assms by (simp add: vec_drop_def vec_holds_def)
next
  case False
  let ?c = "unat (vc_cap v)"
  have h: "?c \<le> 2048" "even ?c" "4 \<le> ?c" "one_live a z (unat (vc_ptr v)) (8 * ?c) s"
    using assms False by (simp_all add: vec_holds_def)
  have sm: "small_layout \<lparr>ly_size = 8 * vc_cap v, ly_align = 8\<rparr> (8 * ?c)" using h by (intro small_u64) simp_all
  obtain s' where s': "global_dealloc (vc_ptr v) \<lparr>ly_size = 8 * vc_cap v, ly_align = 8\<rparr> s = Some s'"
    "all_free a z s'" "heap_only a z s s'" by (rule dealloc_last [OF h(4) sm])
  have "array_layout layout_u64 (vc_cap v) = Some \<lparr>ly_size = 8 * vc_cap v, ly_align = 8\<rparr>"
    using h by (intro array_u64) simp
  then have "vec_drop layout_u64 v s = Some s'" using False s'(1) by (simp add: vec_drop_def)
  then show thesis using that s'(2,3) by blast
qed

section \<open>The growing string\<close>

definition string_holds :: "nat \<Rightarrow> nat \<Rightarrow> vec \<Rightarrow> nat \<Rightarrow> 'a heap_state_scheme \<Rightarrow> bool" where
  "string_holds a z v len s \<longleftrightarrow>
     unat (vc_len v) = len \<and> len \<le> unat (vc_cap v) \<and> unat (vc_cap v) \<le> 1024 \<and>
     (if vc_cap v = 0 then all_free a z s
      else (unat (vc_cap v) = 8 \<and> unat (vc_ptr v) = a \<or> 16 dvd unat (vc_cap v)) \<and>
        one_live a z (unat (vc_ptr v)) (max (unat (vc_cap v)) 16) s \<and>
        unat (vc_ptr v) - a \<le> unat (vc_cap v))"

lemma string_grow:
  assumes v: "string_holds a z v len s" and full: "unat (vc_cap v) < len + 4" and short: "len + 4 \<le> 400"
    and room: "a + 0x10000 \<le> z"
  obtains v' s' where "grow_amortized layout_u8 4 v s = Some (v', s')" and "string_holds a z v' len s'"
    and "len + 4 \<le> unat (vc_cap v')" and "heap_only a z s s'" and "vc_len v' = vc_len v"
proof (cases "vc_cap v = 0")
  case True
  have len: "vc_len v = 0" "len = 0" using v True by (auto simp: string_holds_def word_unat_eq_iff)
  have free: "all_free a z s" using v True by (simp add: string_holds_def)
  have sm: "small_layout \<lparr>ly_size = 8, ly_align = 1\<rparr> 16" using small_u8 [of 8] by simp
  obtain w s' where al: "global_alloc \<lparr>ly_size = 8, ly_align = 1\<rparr> s = Some (w, s')" "unat w = a"
    "one_live a z a 16 s'" "heap_only a z s s'"
    using alloc_first [OF free sm] room by auto
  have w: "w \<noteq> 0" using al(2) all_free_grid(4) [OF free] by auto
  let ?v = "v\<lparr>vc_ptr := w, vc_cap := 8\<rparr>"
  have cap: "max (min_non_zero_cap layout_u8) 4 = 8" by code_simp
  have req: "checked_add (vc_len v) 4 = Some 4" using len by simp
  have "grow_amortized layout_u8 4 v s = Some (?v, s')"
    using array_u8 [of 8] al(1) w True cap
    unfolding grow_amortized_def req by (simp add: Let_def)
  moreover have "string_holds a z ?v len s'" using al len by (simp add: string_holds_def)
  ultimately show thesis using that al(4) len by simp
next
  case False
  let ?c = "unat (vc_cap v)"
  have h: "unat (vc_len v) = len" "len \<le> ?c" "?c = 8 \<and> unat (vc_ptr v) = a \<or> 16 dvd ?c"
    "one_live a z (unat (vc_ptr v)) (max ?c 16) s" "unat (vc_ptr v) - a \<le> ?c"
    using v False by (auto simp: string_holds_def)
  have pos: "0 < ?c" using False by (simp add: unat_gt_0)
  then have c8: "8 \<le> ?c" using h(3) by (auto dest: dvd_imp_le)
  have c: "?c < 404" using full short by simp
  have c2: "unat (vc_cap v * 2) = 2 * ?c" using c by (simp add: unat_mult_small)
  obtain r where req: "checked_add (vc_len v) 4 = Some r" "unat r = len + 4"
    using word_of_unat [of "len + 4", where 'a = 64] h(1) short by auto
  have "min_non_zero_cap layout_u8 = 8" by (simp add: min_non_zero_cap_def layout_u8_def)
  then have cap: "max (min_non_zero_cap layout_u8) (max (vc_cap v * 2) r) = vc_cap v * 2"
    using c2 req(2) c8 h(2) by (simp add: max_def word_le_nat_alt)
  have arr: "array_layout layout_u8 (vc_cap v) = Some \<lparr>ly_size = vc_cap v, ly_align = 1\<rparr>"
    "array_layout layout_u8 (vc_cap v * 2) = Some \<lparr>ly_size = vc_cap v * 2, ly_align = 1\<rparr>"
    using c c2 by (intro array_u8; simp)+
  have sm: "small_layout \<lparr>ly_size = vc_cap v, ly_align = 1\<rparr> (max ?c 16)"
    using h(3) c pos by (intro small_u8) auto
  have even2: "16 dvd 2 * ?c" "max (2 * ?c) 16 = 2 * ?c" using h(3) c8 by auto
  have sm2: "small_layout (\<lparr>ly_size = vc_cap v, ly_align = 1\<rparr>\<lparr>ly_size := vc_cap v * 2\<rparr>) (2 * ?c)"
    using small_u8 [of "vc_cap v * 2"] even2 pos c c2 by simp
  note top = one_live_top [OF h(4)]
  have fits: "unat (vc_ptr v) - a < 2 * ?c" "unat (vc_ptr v) + max ?c 16 + 2 * ?c \<le> z"
    using h(5) pos c room top by simp_all
  have grow: "unat (ly_size \<lparr>ly_size = vc_cap v, ly_align = 1\<rparr>) \<le> unat (vc_cap v * 2)"
    unfolding layout.select_convs c2 by simp
  obtain w s' where r: "global_realloc (vc_ptr v) \<lparr>ly_size = vc_cap v, ly_align = 1\<rparr> (vc_cap v * 2) s = Some (w, s')"
    "unat w = unat (vc_ptr v) + max ?c 16" "one_live a z (unat (vc_ptr v) + max ?c 16) (2 * ?c) s'" "heap_only a z s s'"
    by (rule realloc_moves [OF h(4) sm sm2 fits grow])
  let ?v = "v\<lparr>vc_ptr := w, vc_cap := vc_cap v * 2\<rparr>"
  have w: "w \<noteq> 0" using r(2) top by auto
  have "grow_amortized layout_u8 4 v s = Some (?v, s')"
    using r(1) w False arr unfolding grow_amortized_def by (simp add: req(1) cap Let_def)
  moreover have "string_holds a z ?v len s'"
  proof -
    have "16 dvd ?c \<Longrightarrow> 16 \<le> ?c" using pos dvd_imp_le by blast
    then have "unat w - a \<le> 2 * ?c" using r(2) h(3,5) top by (auto simp: max_def)
    moreover have "vc_cap v * 2 \<noteq> 0" using c2 pos by auto
    ultimately show ?thesis using h(1,2) c c2 even2 r(2,3) by (simp add: string_holds_def)
  qed
  moreover have "len + 4 \<le> unat (vc_cap ?v)" using c2 h(2) c8 by simp
  ultimately show thesis using that r(4) by simp
qed

lemma string_store:
  assumes v: "string_holds a z v len s" and room: "len + length bs \<le> unat (vc_cap v)" and bs: "bs \<noteq> []"
  shows "string_holds a z (v\<lparr>vc_len := vc_len v + of_nat (length bs)\<rparr>) (len + length bs)
      (s\<lparr>st_heap := poke_bytes (vc_ptr v + vc_len v) bs (st_heap s)\<rparr>)"
    and "heap_only a z s (s\<lparr>st_heap := poke_bytes (vc_ptr v + vc_len v) bs (st_heap s)\<rparr>)"
proof -
  let ?c = "unat (vc_cap v)" and ?p = "vc_ptr v + vc_len v"
  have h: "unat (vc_len v) = len" "?c \<le> 1024" "vc_cap v \<noteq> 0"
    "?c = 8 \<and> unat (vc_ptr v) = a \<or> 16 dvd ?c"
    "one_live a z (unat (vc_ptr v)) (max ?c 16) s" "unat (vc_ptr v) - a \<le> ?c"
    using v room bs by (auto simp: string_holds_def split: if_splits)
  note top = one_live_top [OF h(5)]
  have at: "unat ?p = unat (vc_ptr v) + len"
  proof -
    have "unat (vc_ptr v) + unat (vc_len v) \<le> 2 ^ 63"
      using h(1) top room max.cobounded1 [of ?c 16] by linarith
    then have "unat (vc_ptr v) + unat (vc_len v) < 2 ^ LENGTH(64)" by simp
    then show ?thesis using h(1) unat_add_small by metis
  qed
  have "unat ?p + length bs \<le> 2 ^ 63"
    using top room at max.cobounded1 [of ?c 16] by linarith
  then have "touches {unat ?p..<unat ?p + length bs} (st_heap s) (poke_bytes ?p bs (st_heap s))"
    by (intro poke_bytes_touches) simp
  then have "touches {unat (vc_ptr v)..<unat (vc_ptr v) + max ?c 16} (st_heap s) (poke_bytes ?p bs (st_heap s))"
    by (rule touches_mono) (use at room in auto)
  note live = write_live [OF h(5) this]
  have n: "unat (of_nat (length bs) :: u64) = length bs" using room h(2) by (simp add: unat_of_nat)
  then have "unat (vc_len v + of_nat (length bs)) = len + length bs"
    using h(1,2) room by (simp add: unat_add_small)
  then show "string_holds a z (v\<lparr>vc_len := vc_len v + of_nat (length bs)\<rparr>) (len + length bs)
      (s\<lparr>st_heap := poke_bytes (vc_ptr v + vc_len v) bs (st_heap s)\<rparr>)"
    using live(1) h(2-4,6) room by (simp add: string_holds_def)
  show "heap_only a z s (s\<lparr>st_heap := poke_bytes (vc_ptr v + vc_len v) bs (st_heap s)\<rparr>)" by (rule live(2))
qed

lemma push_str_holds:
  assumes v: "string_holds a z v len s" and short: "len + 4 \<le> 400" and room: "a + 0x10000 \<le> z"
    and bs: "length bs = 4"
  obtains v' s' where "push_str bs v s = Some (v', s')" and "string_holds a z v' (len + 4) s'" and "heap_only a z s s'"
proof -
  have ne: "bs \<noteq> []" using bs by auto
  have gap: "vc_cap v - vc_len v < 4 \<longleftrightarrow> unat (vc_cap v) < len + 4"
    using v by (auto simp: string_holds_def word_less_nat_alt unat_sub_le)
  show thesis
  proof (cases "unat (vc_cap v) < len + 4")
    case True
    obtain v1 s1 where g: "grow_amortized layout_u8 4 v s = Some (v1, s1)" "string_holds a z v1 len s1"
      "len + 4 \<le> unat (vc_cap v1)" "heap_only a z s s1" by (rule string_grow [OF v True short room])
    note st = string_store [OF g(2) _ ne, unfolded bs, OF g(3)]
    show thesis
      using that [OF _ st(1) heap_only_trans [OF g(4) st(2)]] g(1) True gap by (simp add: push_str_def bs)
  next
    case False
    then have "len + 4 \<le> unat (vc_cap v)" by simp
    note st = string_store [OF v _ ne, unfolded bs, OF this]
    show thesis using that [OF _ st] False gap by (simp add: push_str_def bs)
  qed
qed

lemma push_str_times_holds:
  assumes "string_holds a z v len s" and "len + 4 * k \<le> 400" and "a + 0x10000 \<le> z" and "length bs = 4"
  shows "\<exists>v' s'. push_str_times k bs v s = Some (v', s') \<and> string_holds a z v' (len + 4 * k) s' \<and> heap_only a z s s'"
  using assms
proof (induction k arbitrary: v s len)
  case (Suc k)
  obtain v1 s1 where 1: "push_str bs v s = Some (v1, s1)" "string_holds a z v1 (len + 4) s1" "heap_only a z s s1"
    using push_str_holds [OF Suc.prems(1) _ Suc.prems(3,4)] Suc.prems(2) by auto
  obtain v2 s2 where 2: "push_str_times k bs v1 s1 = Some (v2, s2)" "string_holds a z v2 (len + 4 + 4 * k) s2"
    "heap_only a z s1 s2"
    using Suc.IH [OF 1(2)] Suc.prems(2-4) by auto
  have "push_str_times (Suc k) bs v s = Some (v2, s2)" using 1(1) 2(1) by simp
  moreover have "string_holds a z v2 (len + 4 * Suc k) s2" using 2(2) by (simp add: add.assoc)
  ultimately show ?case using heap_only_trans [OF 1(3) 2(3)] by blast
qed auto

section \<open>The four scopes\<close>

lemma box_scope_spec:
  assumes free: "all_free a z s" and room: "a + 0x10000 \<le> z"
  obtains s' where "box_scope s = Some (Inr (), s')" and "all_free a z s'" and "heap_only a z s s'"
proof -
  have "layout_ok layout_u64" by (intro layout_pow [of _ 3]) (simp_all add: layout_u64_def)
  then have sm: "small_layout layout_u64 16" by (simp add: small_layout_def layout_u64_def block_len_def)
  obtain w s1 where 1: "global_alloc layout_u64 s = Some (w, s1)" "unat w = a" "one_live a z a 16 s1" "heap_only a z s s1"
    using alloc_first [OF free sm] room by auto
  have w: "w \<noteq> 0" using 1(2) all_free_grid(4) [OF free] by auto
  have "touches {a..<a + 16} (st_heap s1) (poke_u64 w 0xdeadbeef (st_heap s1))" by (rule touches_u64) (simp add: 1(2))
  note 2 = write_live [OF 1(3) this]
  let ?s2 = "s1\<lparr>st_heap := poke_u64 w 0xdeadbeef (st_heap s1)\<rparr>"
  obtain s3 where 3: "global_dealloc w layout_u64 ?s2 = Some s3" "all_free a z s3" "heap_only a z ?s2 s3"
    using dealloc_last [OF _ sm] 2(1) 1(2) by metis
  have "8 dvd unat w" using all_free_grid(1) [OF free] 1(2) by (auto elim: dvd_trans [rotated])
  then have "peek_u64 w (st_heap ?s2) = 0xdeadbeef" by (simp add: read_write_u64)
  then have "box_scope s = Some (Inr (), s3)" using 1(1) w 3(1) by (simp add: box_scope_def alloc_or_panic_def Let_def)
  moreover have "heap_only a z s s3" using heap_only_trans 1(4) 2(2) 3(3) by blast
  ultimately show thesis using that 3(2) by blast
qed

lemma vec_scope_spec:
  assumes free: "all_free a z s" and room: "a + 0x10000 \<le> z"
  obtains s' where "vec_scope s = Some (Inr (), s')" and "all_free a z s'" and "heap_only a z s s'"
proof -
  let ?xs = "map of_nat [0..<1024] :: u64 list"
  have "vec_holds a z (vec_new layout_u64) [] s" using free by (simp add: vec_holds_def vec_new_def)
  from vec_push_all_holds [OF this, of ?xs] room obtain v s1 where
    1: "vec_push_all ?xs (vec_new layout_u64) s = Some (v, s1)" "vec_holds a z v ?xs s1" "heap_only a z s s1" by auto
  have "unat (vc_len v) = 1024" using 1(2) by (simp add: vec_holds_def)
  then have l: "vc_len v = 1024" by (simp add: word_unat_eq_iff)
  have vals: "vec_index v 0 s1 = Some 0" "vec_index v 1023 s1 = Some 1023"
    using vec_index_holds [OF 1(2)] by (simp_all del: upt_rec_numeral)
  obtain s2 where 2: "vec_drop layout_u64 v s1 = Some s2" "all_free a z s2" "heap_only a z s1 s2"
    by (rule vec_drop_holds [OF 1(2)])
  have "vec_scope s = Some (Inr (), s2)"
    unfolding vec_scope_def 1(1) by (simp add: l vals 2(1) del: upt_rec_numeral)
  then show thesis using that 2(2) heap_only_trans [OF 1(3) 2(3)] by blast
qed

lemma string_scope_spec:
  assumes free: "all_free a z s" and room: "a + 0x10000 \<le> z"
  obtains s' where "string_scope s = Some (Inr (), s')" and "all_free a z s'" and "heap_only a z s s'"
proof -
  have "string_holds a z (vec_new layout_u8) 0 s" using free by (simp add: string_holds_def vec_new_def)
  from push_str_times_holds [OF this, of 100 rust_bytes] room obtain v s1 where
    1: "push_str_times 100 rust_bytes (vec_new layout_u8) s = Some (v, s1)" "string_holds a z v 400 s1" "heap_only a z s s1"
    by (auto simp: rust_bytes_def)
  let ?c = "unat (vc_cap v)"
  have len: "unat (vc_len v) = 400" "400 \<le> ?c" "?c \<le> 1024" using 1(2) by (simp_all add: string_holds_def)
  then have c: "vc_cap v \<noteq> 0" by auto
  then have h: "?c = 8 \<or> 16 dvd ?c" "one_live a z (unat (vc_ptr v)) (max ?c 16) s1"
    using 1(2) by (auto simp: string_holds_def)
  have sm: "small_layout \<lparr>ly_size = vc_cap v, ly_align = 1\<rparr> (max ?c 16)" using len h(1) by (intro small_u8) simp_all
  obtain s2 where 2: "global_dealloc (vc_ptr v) \<lparr>ly_size = vc_cap v, ly_align = 1\<rparr> s1 = Some s2"
    "all_free a z s2" "heap_only a z s1 s2" by (rule dealloc_last [OF h(2) sm])
  have "array_layout layout_u8 (vc_cap v) = Some \<lparr>ly_size = vc_cap v, ly_align = 1\<rparr>"
    using len by (intro array_u8) simp
  then have drop: "vec_drop layout_u8 v s1 = Some s2" using c 2(1) by (simp add: vec_drop_def)
  have "vc_len v = 400" using len(1) by (simp add: word_unat_eq_iff)
  then have "string_scope s = Some (Inr (), s2)" using 1(1) drop by (simp add: string_scope_def)
  then show thesis using that 2(2) heap_only_trans [OF 1(3) 2(3)] by blast
qed

text \<open>Three blocks in a row, then the first, the last and the middle one freed.\<close>

lemma alloc_next:
  assumes h: "heap_is a z s [(b, z - b)]" and l: "small_layout l n" and c: "c = b + n" and room: "c < z"
  obtains w s' where "global_alloc l s = Some (w, s')" and "unat w = b" and "w \<noteq> 0"
    and "heap_is a z s' [(c, z - c)]" and "heap_only a z s s'"
proof -
  note sm = small_layoutD [OF l]
  have b: "a \<le> b" "16 dvd b" "0 < a" using h by (auto simp: heap_is_def)
  have "span_alloc (block_len l) (block_align l) [(b, z - b)] = Some (b, [(c, z - c)])"
    using b(2) room sm c by (simp add: keep_def Let_def)
  from alloc_to [OF h sm(1) this] obtain w m hd where w: "global_alloc l s = Some (w, s\<lparr>st_heap := m, st_HEAP := hd\<rparr>)"
    "unat w = b" "heap_is a z (s\<lparr>st_heap := m, st_HEAP := hd\<rparr>) [(c, z - c)]"
    "\<forall>x. unat x \<notin> heap_free s \<longrightarrow> m x = st_heap s x" .
  have "w \<noteq> 0" using w(2) b by auto
  moreover have "heap_only a z s (s\<lparr>st_heap := m, st_HEAP := hd\<rparr>)"
    by (rule heap_only_state) (use w(4) heap_free_within [OF h] in blast)
  ultimately show thesis using that w by blast
qed

lemma free_to:
  assumes h: "heap_is a z s bs" and l: "small_layout l n" and p: "a \<le> unat p" "unat p + n \<le> z" "16 dvd unat p"
    and apart: "{unat p..<unat p + n} \<inter> span_bytes bs = {}"
    and cs: "chain (a - 1) z cs" "span_bytes cs = span_bytes bs \<union> {unat p..<unat p + n}"
  obtains s' where "global_dealloc p l s = Some s'" and "heap_is a z s' cs" and "heap_only a z s s'"
proof -
  note sm = small_layoutD [OF l]
  have "heap_block p l \<inter> heap_free s = {}" "span_bytes cs = heap_free s \<union> heap_block p l"
    using apart cs(2) block_small [OF l] heap_free_is [OF h] by auto
  from dealloc_to [OF h sm(1) granted_small [OF l p] this(1) cs(1) this(2)] obtain m hd where
    d: "global_dealloc p l s = Some (s\<lparr>st_heap := m, st_HEAP := hd\<rparr>)" "heap_is a z (s\<lparr>st_heap := m, st_HEAP := hd\<rparr>) cs"
    "\<forall>x. unat x \<notin> heap_free s \<union> heap_block p l \<longrightarrow> m x = st_heap s x" by blast
  have "heap_only a z s (s\<lparr>st_heap := m, st_HEAP := hd\<rparr>)"
  proof (rule heap_only_state)
    fix x :: u64 assume "unat x \<notin> {a..<z}"
    then have "unat x \<notin> heap_free s \<union> heap_block p l"
      using heap_free_within [OF h] block_small [OF l] p by auto
    then show "m x = st_heap s x" using d(3) by blast
  qed
  then show thesis using that d by blast
qed

lemma merge_scope_spec:
  assumes free: "all_free a z s" and room: "a + 0x10000 \<le> z"
  obtains s' where "merge_scope s = Some s'" and "all_free a z s'" and "heap_only a z s s'"
proof -
  let ?l = "\<lparr>ly_size = 64, ly_align = 1\<rparr> :: layout"
  have sm: "small_layout ?l 64" using small_u8 [of 64] by simp
  have arr: "array_layout layout_u8 64 = Some ?l" using array_u8 [of 64] by simp
  have g: "16 dvd a" "16 dvd z" "a < z" "0 < a" by (rule all_free_grid [OF free])+
  have h0: "heap_is a z s [(a, z - a)]" using free by (simp add: all_free_def)
  obtain p1 s1 where 1: "global_alloc ?l s = Some (p1, s1)" "unat p1 = a" "p1 \<noteq> 0"
    "heap_is a z s1 [(a + 64, z - (a + 64))]" "heap_only a z s s1" 
    by (rule alloc_next [OF h0 sm, where c = "a + 64"]) (use room in linarith)+
  obtain p2 s2 where 2: "global_alloc ?l s1 = Some (p2, s2)" "unat p2 = a + 64" "p2 \<noteq> 0"
    "heap_is a z s2 [(a + 128, z - (a + 128))]" "heap_only a z s1 s2"

    by (rule alloc_next [OF 1(4) sm, where c = "a + 128"]) (use room in linarith)+
  obtain p3 s3 where 3: "global_alloc ?l s2 = Some (p3, s3)" "unat p3 = a + 128" "p3 \<noteq> 0"
    "heap_is a z s3 [(a + 192, z - (a + 192))]" "heap_only a z s2 s3"

    by (rule alloc_next [OF 2(4) sm, where c = "a + 192"]) (use room in linarith)+
  have dvd: "16 dvd a + 64" "16 dvd a + 128" "16 dvd a + 192" using g(1) by (simp_all add: dvd_add)
  have tail: "16 dvd z - (a + k)" if "16 dvd k" for k using g(1,2) that by (simp add: dvd_diff_nat dvd_add)
  obtain s4 where 4: "global_dealloc p1 ?l s3 = Some s4" "heap_is a z s4 [(a, 64), (a + 192, z - (a + 192))]" "heap_only a z s3 s4"
    by (rule free_to [OF 3(4) sm, of p1 "[(a, 64), (a + 192, z - (a + 192))]"])
      (use 1(2) g room dvd tail [of 192] in auto)
  obtain s5 where 5: "global_dealloc p3 ?l s4 = Some s5" "heap_is a z s5 [(a, 64), (a + 128, z - (a + 128))]" "heap_only a z s4 s5"
    by (rule free_to [OF 4(2) sm, of p3 "[(a, 64), (a + 128, z - (a + 128))]"])
      (use 3(2) g room dvd tail [of 128] in auto)
  obtain s6 where 6: "global_dealloc p2 ?l s5 = Some s6" "heap_is a z s6 [(a, z - a)]" "heap_only a z s5 s6"
    by (rule free_to [OF 5(2) sm, of p2 "[(a, z - a)]"])
      (use 2(2) g room dvd tail [of 0] in auto)
  have "merge_scope s = Some s6"
    using 1(1,3) 2(1,3) 3(1,3) 4(1) 5(1) 6(1)
    by (simp add: merge_scope_def vec_with_capacity_def vec_drop_def arr alloc_or_panic_def)
  moreover have "heap_only a z s s6" using heap_only_trans 1(5) 2(5) 3(5) 4(3) 5(3) 6(3) by blast
  ultimately show thesis using that 6(2) by (simp add: all_free_def)
qed

section \<open>The self-test\<close>

lemma heap_work_spec:
  assumes free: "all_free a z s" and room: "a + 0x10000 \<le> z"
  obtains s' where "heap_work s = Some (Inr (), s')" and "all_free a z s'" and "heap_only a z s s'"
proof -
  obtain s1 where 1: "box_scope s = Some (Inr (), s1)" "all_free a z s1" "heap_only a z s s1"
    by (rule box_scope_spec [OF free room])
  obtain s2 where 2: "vec_scope s1 = Some (Inr (), s2)" "all_free a z s2" "heap_only a z s1 s2"
    by (rule vec_scope_spec [OF 1(2) room])
  obtain s3 where 3: "string_scope s2 = Some (Inr (), s3)" "all_free a z s3" "heap_only a z s2 s3"
    by (rule string_scope_spec [OF 2(2) room])
  obtain s4 where 4: "merge_scope s3 = Some s4" "all_free a z s4" "heap_only a z s3 s4"
    by (rule merge_scope_spec [OF 3(2) room])
  have "heap_work s = Some (Inr (), s4)" unfolding heap_work_def by (simp add: 1(1) 2(1) 3(1) 4(1))
  moreover have "heap_only a z s s4" using heap_only_trans 1(3) 2(3) 3(3) 4(3) by blast
  ultimately show thesis using that 4(2) by blast
qed

lemma heap_selftest_runs:
  assumes free: "all_free a z s" and room: "a + 0x10000 \<le> z"
  obtains s' where "heap_selftest s = Some (Inr (), s')" and "all_free a z s'" and "heap_only a z s s'"
proof -
  obtain s' where w: "heap_work s = Some (Inr (), s')" "all_free a z s'" "heap_only a z s s'"
    by (rule heap_work_spec [OF assms])
  have h: "heap_is a z s [(a, z - a)]" "heap_is a z s' [(a, z - a)]" using free w(2) by (simp_all add: all_free_def)
  obtain n m where n: "free_bytes s = Some (n, s)" "unat n = card (heap_free s)"
    and m: "free_bytes s' = Some (m, s')" "unat m = card (heap_free s')"
    using free_counts(1) [OF h(1)] free_counts(1) [OF h(2)] by blast
  have "m = n" using n(2) m(2) all_free_bytes [OF free] all_free_bytes [OF w(2)] by (simp add: word_unat_eq_iff)
  moreover have "free_blocks s' = Some (1, s')" using free_counts(2) [OF h(2)] by (auto simp: word_unat_eq_iff)
  ultimately have "heap_selftest s = Some (Inr (), s')"
    using n(1) m(1) w(1) by (simp add: heap_selftest_def)
  then show thesis using that w by blast
qed

section \<open>Properties\<close>

text \<open>
  C7. The boot-time self-test passes on a working heap: with 64 KiB or more in one free block,
  boxing a value, growing a vector to 1024 elements and a string to 400 bytes, and freeing three
  neighbours out of order never panics, finds every value intact, and leaves the one free block it
  began with. It changes nothing but cells of the heap.
\<close>

theorem heap_selftest_passes:
  assumes "heap_is a z s [(a, z - a)]" and "a + 0x10000 \<le> z"
  shows "\<exists>m h. heap_selftest s = Some (Inr (), s\<lparr>st_heap := m, st_HEAP := h\<rparr>) \<and>
    heap_is a z (s\<lparr>st_heap := m, st_HEAP := h\<rparr>) [(a, z - a)] \<and>
    (\<forall>x. unat x \<notin> {a..<z} \<longrightarrow> m x = st_heap s x)"
proof -
  have "all_free a z s" using assms(1) by (simp add: all_free_def)
  from heap_selftest_runs [OF this assms(2)] obtain s' where s': "heap_selftest s = Some (Inr (), s')"
    "all_free a z s'" "heap_only a z s s'" .
  then obtain m h where "s' = s\<lparr>st_heap := m, st_HEAP := h\<rparr>" "\<forall>x. unat x \<notin> {a..<z} \<longrightarrow> m x = st_heap s x"
    by (auto simp: heap_only_def)
  then show ?thesis using s'(1,2) unfolding all_free_def by blast
qed

theorem heap_selftest_passes_witness:
  "\<exists>m h. heap_selftest heap_s2 = Some (Inr (), heap_s2\<lparr>st_heap := m, st_HEAP := h\<rparr>)"
  using heap_selftest_passes [where a = "0x100000" and z = "0x200000" and s = heap_s2] heap_s2_is by auto

text \<open>
  C8. A vector keeps what is pushed: pushing any values, up to 1024 of them, on an empty \<open>Vec<u64>\<close>
  survives every reallocation, so index \<open>i\<close> reads the \<open>i\<close>-th value pushed and an index past the
  end panics; dropping the vector returns all its memory as one block.
\<close>

theorem vec_pushes_kept:
  assumes "heap_is a z s [(a, z - a)]" and "a + 0x10000 \<le> z" and "length xs \<le> 1024"
  shows "\<exists>v s1 s2. vec_push_all xs (vec_new layout_u64) s = Some (v, s1) \<and> unat (vc_len v) = length xs \<and>
    (\<forall>i. vec_index v i s1 = (if unat i < length xs then Some (xs ! unat i) else None)) \<and>
    vec_drop layout_u64 v s1 = Some s2 \<and> heap_is a z s2 [(a, z - a)]"
proof -
  have "vec_holds a z (vec_new layout_u64) [] s" using assms(1) by (simp add: vec_holds_def vec_new_def all_free_def)
  from vec_push_all_holds [OF this _ assms(2), of xs] assms(3) obtain v s1 where
    1: "vec_push_all xs (vec_new layout_u64) s = Some (v, s1)" "vec_holds a z v xs s1" by auto
  obtain s2 where 2: "vec_drop layout_u64 v s1 = Some s2" "all_free a z s2" by (rule vec_drop_holds [OF 1(2)])
  have "unat (vc_len v) = length xs" using 1(2) by (simp add: vec_holds_def)
  then show ?thesis using 1(1) 2 vec_index_holds [OF 1(2)] unfolding all_free_def by blast
qed

theorem vec_pushes_kept_witness:
  "\<exists>v s1. vec_push_all [7, 8, 9, 10, 11] (vec_new layout_u64) heap_s2 = Some (v, s1) \<and> vec_index v 4 s1 = Some 11"
proof -
  from vec_pushes_kept [where a = "0x100000" and z = "0x200000" and s = heap_s2 and xs = "[7, 8, 9, 10, 11]"] heap_s2_is
  obtain v s1 where "vec_push_all [7, 8, 9, 10, 11] (vec_new layout_u64) heap_s2 = Some (v, s1)"
    "\<forall>i. vec_index v i s1 = (if unat i < 5 then Some ([7, 8, 9, 10, 11] ! unat i) else None)" by auto
  then have "vec_push_all [7, 8, 9, 10, 11] (vec_new layout_u64) heap_s2 = Some (v, s1) \<and> vec_index v 4 s1 = Some 11"
    by simp
  then show ?thesis by blast
qed

end
