(* ===== verification/Kernel_Bringup.thy ===== *)
theory Kernel_Bringup
  imports Screen_Props Heap_Work_Props
begin

text \<open>
  The bring-up as a whole. Each part of \<open>_start\<close> is shown to return and to leave every field it does
  not own alone (\<open>quiet\<close> is the effect of a part that only talks); the composition ends either with
  interrupts enabled in a state the wait can run from, or in a reported failure.
\<close>

section \<open>Parts that leave the other devices alone\<close>

lemma step_or_keeps:
  assumes "view (snd r) = x" and "\<And>d'. view d' = x \<Longrightarrow> view (snd (k d')) = x"
  shows "view (snd (step_or msg r k)) = x"
  using assms by (cases r) (auto simp: step_or_def)

lemma wait_writable_isolated:
  "isolated p view own \<Longrightarrow> 0x64 \<notin> own \<Longrightarrow> view (snd (wait_writable p n d)) = view d"
  by (induction n arbitrary: d)
    (auto simp: split_beta Let_def STATUS_def intro: trans [OF _ isolated_inb])

lemma wait_readable_isolated:
  "isolated p view own \<Longrightarrow> 0x64 \<notin> own \<Longrightarrow> view (snd (wait_readable p n d)) = view d"
  by (induction n arbitrary: d)
    (auto simp: split_beta Let_def STATUS_def intro: trans [OF _ isolated_inb])

lemma drain_output_isolated:
  "isolated p view own \<Longrightarrow> 0x64 \<notin> own \<Longrightarrow> 0x60 \<notin> own \<Longrightarrow> view (snd (drain_output p n d)) = view d"
  by (induction n arbitrary: d) (auto simp: split_beta Let_def STATUS_def PS2_DATA_def isolated_inb)

lemma ps2_isolated:
  assumes "isolated p view own" and "0x64 \<notin> own" and "0x60 \<notin> own"
  shows "view (snd (ps2_sequence p d)) = view d"
proof -
  note waits = wait_writable_isolated [OF assms(1,2)] wait_readable_isolated [OF assms(1,2)]
    drain_output_isolated [OF assms]
  note io = isolated_outb [OF assms(1)] isolated_inb [OF assms(1)] PS2_COMMAND_def PS2_DATA_def assms(2,3)
  show ?thesis
    unfolding ps2_sequence_def Let_def split_beta by (intro step_or_keeps [where view = view]) (simp_all add: waits io)
qed

lemma pic_init_isolated:
  "isolated p view own \<Longrightarrow> PIC_PORTS \<inter> own = {} \<Longrightarrow> 0x80 \<notin> own \<Longrightarrow> view (pic_init p d) = view d"
  by (simp add: pic_init_def io_wait_def isolated_outb pic_ports Let_def PIC_PORTS_def)

lemma pit_init_isolated:
  "pit_init p hz d = Some d' \<Longrightarrow> isolated p view own \<Longrightarrow> 0x40 \<notin> own \<Longrightarrow> 0x43 \<notin> own \<Longrightarrow> view d' = view d"
  by (auto simp: pit_init_def isolated_outb PIT_COMMAND_def CHANNEL0_DATA_def Let_def split: if_splits)

section \<open>Talking\<close>

definition only_io :: "('d, 'a) kernel_io_scheme \<Rightarrow> ('d, 'a) kernel_io_scheme \<Rightarrow> bool" where
  "only_io s s' \<longleftrightarrow> (\<exists>d scr. s' = s\<lparr>ki_dev := d, ki_screen := scr\<rparr>)"

lemma only_ioI [intro]: "s' = s\<lparr>ki_dev := d, ki_screen := scr\<rparr> \<Longrightarrow> only_io s s'"
  unfolding only_io_def by (intro exI)

lemma only_io_dev [simp]: "only_io s (s\<lparr>ki_dev := d\<rparr>)"
  by (rule only_ioI [where scr = "ki_screen s"]) simp

lemma only_io_refl: "only_io s s"
  using only_io_dev [of s "ki_dev s"] by simp

lemma only_io_trans:
  assumes "only_io s s'" and "only_io s' s''"
  shows "only_io s s''"
proof -
  obtain d scr d' scr' where "s' = s\<lparr>ki_dev := d, ki_screen := scr\<rparr>" "s'' = s'\<lparr>ki_dev := d', ki_screen := scr'\<rparr>"
    using assms unfolding only_io_def by blast
  then have "s'' = s\<lparr>ki_dev := d', ki_screen := scr'\<rparr>" by simp
  then show ?thesis by (rule only_ioI)
qed

definition quiet ::
    "('d \<Rightarrow> uart) \<Rightarrow> ('d \<Rightarrow> 'c) \<Rightarrow> ('d, 'a) kernel_io_scheme \<Rightarrow> ('d, 'a) kernel_io_scheme \<Rightarrow> bool" where
  "quiet uart pics s s' \<longleftrightarrow> only_io s s' \<and> io_ok uart s' \<and> pics (ki_dev s') = pics (ki_dev s)"

lemma quiet_refl: "io_ok uart s \<Longrightarrow> quiet uart pics s s"
  by (simp add: quiet_def only_io_refl)

lemma quiet_trans: "quiet uart pics s s' \<Longrightarrow> quiet uart pics s' s'' \<Longrightarrow> quiet uart pics s s''"
  unfolding quiet_def using only_io_trans by fastforce

lemma quiet_ok: "quiet uart pics s s' \<Longrightarrow> io_ok uart s'"
  by (simp add: quiet_def)

lemma talks_quiet: "talks uart pics msg s s' \<Longrightarrow> quiet uart pics s s'"
  by (auto simp: talks_def quiet_def)

lemma kprintln_quiet:
  assumes "machine_ok p uart pics" and "io_ok uart s"
  obtains s' where "kprintln p msg s = Some s'" and "quiet uart pics s s'"
  using kprintln_talks [OF assms, of msg] talks_quiet by blast

lemma print_lines_quiet:
  assumes "machine_ok p uart pics" and "io_ok uart s"
  shows "\<exists>s'. print_lines p ls s = Some s' \<and> quiet uart pics s s'"
  using assms(2)
proof (induction ls arbitrary: s)
  case Nil
  then show ?case by (simp add: quiet_refl)
next
  case (Cons l ls)
  obtain s1 where 1: "kprintln p l s = Some s1" "quiet uart pics s s1"
    by (rule kprintln_quiet [OF assms(1) Cons.prems])
  then show ?case using Cons.IH [OF quiet_ok [OF 1(2)]] quiet_trans by auto
qed

lemma fatal_fails:
  assumes "machine_ok p uart pics" and "io_ok uart s"
  shows "\<exists>s'. fatal p msg s = Some (Inl Failed, s')"
proof -
  obtain s' where "kprintln p (ascii ''FATAL: '' @ msg) s = Some s'"
    by (rule kprintln_quiet [OF assms])
  then show ?thesis by (simp add: fatal_def)
qed

text \<open>A change of the devices and of the screen that keeps the console sound.\<close>

lemma io_ok_update:
  "io_ok uart s \<Longrightarrow> uart d = uart (ki_dev s) \<Longrightarrow> io_ok uart (s\<lparr>ki_dev := d\<rparr>)"
  by (simp add: io_ok_def)

section \<open>Devices and tables\<close>

lemma machine_isolated:
  assumes "machine_ok p uart pics"
  shows "isolated p uart COM_PORTS" and "isolated p pics PIC_PORTS"
  using assms by (simp_all add: machine_ok_def)

lemma ps2_init_quiet:
  assumes m: "machine_ok p uart pics" and io: "io_ok uart s"
  obtains s' where "ps2_init p s = Some s'" and "quiet uart pics s s'"
proof -
  obtain r d where r: "ps2_sequence p (ki_dev s) = (r, d)" by fastforce
  have keep: "uart d = uart (ki_dev s)" "pics d = pics (ki_dev s)"
    using ps2_isolated [OF machine_isolated(1) [OF m], of "ki_dev s"]
      ps2_isolated [OF machine_isolated(2) [OF m], of "ki_dev s"] r by simp_all
  have io1: "io_ok uart (s\<lparr>ki_dev := d\<rparr>)" by (rule io_ok_update [OF io keep(1)])
  have q: "quiet uart pics s (s\<lparr>ki_dev := d\<rparr>)"
    using io1 keep(2) by (auto simp: quiet_def)
  show thesis
  proof (cases r)
    case (Inl msg)
    obtain s' where "kprintln p (ascii msg) (s\<lparr>ki_dev := d\<rparr>) = Some s'" "quiet uart pics (s\<lparr>ki_dev := d\<rparr>) s'"
      by (rule kprintln_quiet [OF m io1])
    then show thesis using that Inl r quiet_trans [OF q] by (auto simp: ps2_init_def)
  next
    case (Inr u)
    then show thesis using that r q by (simp add: ps2_init_def)
  qed
qed

lemma only_io_kernel:
  assumes "only_io s s'"
  shows "ks_TICKS s' = ks_TICKS s" and "ks_KEY_EVENTS_SEEN s' = ks_KEY_EVENTS_SEEN s" and "ks_IDT s' = ks_IDT s"
    and "ks_tables s' = ks_tables s" and "rflags s' = rflags s"
  using assms by (auto simp: only_io_def)

lemma only_io_tables:
  "only_io s s' \<Longrightarrow> only_io (s\<lparr>ks_IDT := i, ks_tables := t\<rparr>) (s'\<lparr>ks_IDT := i, ks_tables := t\<rparr>)"
proof -
  assume "only_io s s'"
  then obtain d scr where "s' = s\<lparr>ki_dev := d, ki_screen := scr\<rparr>" by (auto simp: only_io_def)
  then show ?thesis by (intro only_ioI [where d = d and scr = scr]) simp
qed

text \<open>The two controllers after \<open>pic::init\<close>: vectors 32 to 47, the timer and the keyboard unmasked.\<close>

definition pics_ready :: "pic_chip \<times> pic_chip" where
  "pics_ready =
     (\<lparr>pc_expect = 0, pc_icw4 = True, pc_base = 32, pc_cascade = 4, pc_mode = 1, pc_mask = 0xFC, pc_isr = 0\<rparr>,
      \<lparr>pc_expect = 0, pc_icw4 = True, pc_base = 40, pc_cascade = 2, pc_mode = 1, pc_mask = 0xFF, pc_isr = 0\<rparr>)"

lemma pics_after_init: "machine_ok p uart pics \<Longrightarrow> pics (pic_init p d) = pics_ready"
  using pic_init_state [of p "\<lambda>d. fst (pics d)" "\<lambda>d. snd (pics d)" d]
  by (simp add: machine_ok_def pics_ready_def prod_eq_iff)

lemma pit_init_returns: "\<exists>d'. pit_init p TIMER_HZ d = Some d'"
  by (simp add: pit_init_def TIMER_HZ_def BASE_FREQUENCY_def Let_def)

lemma gdt_init_returns:
  "unat (sa_FAULT_STACK a) + 16384 < 2 ^ 64 \<Longrightarrow> \<exists>t. gdt_init a s = Some t"
  by (auto simp: gdt_init_def checked_add_def FAULT_STACK_SIZE_def Let_def)

lemma kernel_init_spec:
  fixes s :: "('d, 'a) kernel_scheme"
  assumes m: "machine_ok p uart pics" and io: "io_ok uart s" and new: "ks_IDT s = idt_new"
    and stack: "unat (sa_FAULT_STACK a) + 16384 < 2 ^ 64"
  obtains s' t where "kernel_init p h a s = Some s'" and "io_ok uart s'" and "gates (ks_IDT s') = vector_table h"
    and "gdt_init a (ks_tables s) = Some t" and "ks_tables s' = idt_load a t" and "pics (ki_dev s') = pics_ready"
    and "only_io (s\<lparr>ks_IDT := ks_IDT s', ks_tables := ks_tables s'\<rparr>) s'"
proof -
  obtain t where t: "gdt_init a (ks_tables s) = Some t" using gdt_init_returns [OF stack] by blast
  have "io_ok uart (s\<lparr>ks_tables := t\<rparr>)" using io by (simp add: io_ok_def)
  from kprintln_quiet [OF m this] obtain s1 where
    1: "kprintln p (ascii ''GDT + TSS loaded (code selector '' @ show_hex (ucast KERNEL_CODE_SELECTOR) @ ascii '')'')
      (s\<lparr>ks_tables := t\<rparr>) = Some s1" "quiet uart pics (s\<lparr>ks_tables := t\<rparr>) s1" by blast
  have s1: "ks_IDT s1 = idt_new" "ks_tables s1 = t" "io_ok uart s1"
    using only_io_kernel(3,4) [of "s\<lparr>ks_tables := t\<rparr>" s1] 1(2) new by (auto simp: quiet_def)
  obtain i where i: "idt_init h a (idt_new, t) = Some (i, idt_load a t)" "gates i = vector_table h"
    using idt_init_gates_lemma [of h a t] by blast
  let ?s1 = "s1\<lparr>ks_IDT := i, ks_tables := idt_load a t\<rparr>"
  have "io_ok uart ?s1" using s1(3) by (simp add: io_ok_def)
  from kprintln_quiet [OF m this] obtain s2 where
    2: "kprintln p (ascii ''IDT loaded'') ?s1 = Some s2" "quiet uart pics ?s1 s2" by blast
  let ?s2 = "s2\<lparr>ki_dev := pic_init p (ki_dev s2)\<rparr>"
  have "uart (pic_init p (ki_dev s2)) = uart (ki_dev s2)"
    by (rule pic_init_isolated [OF machine_isolated(1) [OF m]]) (auto simp: COM_PORTS_def PIC_PORTS_def)
  then have "io_ok uart ?s2" by (rule io_ok_update [OF quiet_ok [OF 2(2)]])
  from kprintln_quiet [OF m this] obtain s3 where
    3: "kprintln p (ascii ''PICs remapped to vectors '' @ show_dec (ucast PIC1_OFFSET) @ ascii ''-''
       @ show_dec 47) ?s2 = Some s3" "quiet uart pics ?s2 s3" by blast
  obtain d where d: "pit_init p TIMER_HZ (ki_dev s3) = Some d" by (rule exE [OF pit_init_returns])
  have keep: "uart d = uart (ki_dev s3)" "pics d = pics (ki_dev s3)"
    using pit_init_isolated [OF d machine_isolated(1) [OF m]] pit_init_isolated [OF d machine_isolated(2) [OF m]]
    by simp_all
  have "io_ok uart (s3\<lparr>ki_dev := d\<rparr>)" by (rule io_ok_update [OF quiet_ok [OF 3(2)] keep(1)])
  from kprintln_quiet [OF m this] obtain s4 where
    4: "kprintln p (ascii ''PIT programmed at '' @ show_dec (ucast TIMER_HZ) @ ascii '' Hz'')
       (s3\<lparr>ki_dev := d\<rparr>) = Some s4" "quiet uart pics (s3\<lparr>ki_dev := d\<rparr>) s4" by blast
  obtain s5 where 5: "ps2_init p s4 = Some s5" "quiet uart pics s4 s5"
    by (rule ps2_init_quiet [OF m quiet_ok [OF 4(2)]])
  obtain s6 where 6: "kprintln p (ascii ''8042 PS/2 controller initialised'') s5 = Some s6" "quiet uart pics s5 s6"
    by (rule kprintln_quiet [OF m quiet_ok [OF 5(2)]])
  have "checked_add PIC2_OFFSET 7 = Some (47 :: u8)" by code_simp
  then have run: "kernel_init p h a s = Some s6"
    by (simp add: kernel_init_def t 1(1) s1(1,2) i(1) 2(1) 3(1) d 4(1) 5(1) 6(1) del: checked_add_Some_iff)
  have "only_io ?s1 s6"
    using 2(2) 3(2) 4(2) 5(2) 6(2) only_io_trans only_io_dev unfolding quiet_def by metis
  moreover have "only_io (s\<lparr>ks_IDT := i, ks_tables := idt_load a t\<rparr>) ?s1"
    using only_io_tables [of "s\<lparr>ks_tables := t\<rparr>" s1] 1(2) by (simp add: quiet_def)
  ultimately have all: "only_io (s\<lparr>ks_IDT := i, ks_tables := idt_load a t\<rparr>) s6" by (metis only_io_trans)
  have "pics (ki_dev s6) = pics_ready"
    using 3(2) 4(2) 5(2) 6(2) keep(2) pics_after_init [OF m] by (simp add: quiet_def)
  then show thesis
    using that [OF run quiet_ok [OF 6(2)] _ t] only_io_kernel(3,4) [OF all] all i(2) by simp
qed

lemma kernel_selftest_spec:
  fixes s :: "('d, 'a) kernel_scheme"
  assumes m: "machine_ok p uart pics" and io: "io_ok uart s" and g: "gates (ks_IDT s) = vector_table h"
    and h: "distinct_handlers h"
  obtains s' where "kernel_selftest p h frame s = Some s'" and "quiet uart pics s s'"
proof -
  have "io_ok uart (cli s)" using io by (simp add: io_ok_def cli_def)
  from kprintln_quiet [OF m this] obtain s1 where 1: "breakpoint_handler p frame (cli s) = Some s1"
    "quiet uart pics (cli s) s1" by (auto simp: breakpoint_handler_def)
  let ?s1 = "s1\<lparr>rflags := rflags s\<rparr>"
  have d: "dispatch p h frame 3 s = Some ?s1"
    using dispatch_irq(3) [OF g h, of p frame] 1(1) by (simp add: deliver_def)
  have q: "quiet uart pics s ?s1"
  proof -
    obtain dev scr where "s1 = (cli s)\<lparr>ki_dev := dev, ki_screen := scr\<rparr>"
      using 1(2) by (auto simp: quiet_def only_io_def)
    then have "only_io s ?s1" by (intro only_ioI [where d = dev and scr = scr]) (simp add: cli_def)
    then show ?thesis using 1(2) by (simp add: quiet_def io_ok_def cli_def)
  qed
  obtain s2 where "kprintln p (ascii ''selftest: breakpoint handled and execution resumed'') ?s1 = Some s2"
    "quiet uart pics ?s1 s2" by (rule kprintln_quiet [OF m quiet_ok [OF q]])
  then show thesis using that quiet_trans [OF q] by (simp add: kernel_selftest_def d)
qed

section \<open>Memory\<close>

text \<open>The frame allocator and the heap change their own fields only.\<close>

definition only_frames :: "'a frame_state_scheme \<Rightarrow> 'a frame_state_scheme \<Rightarrow> bool" where
  "only_frames s s' \<longleftrightarrow> (\<exists>m f. s' = s\<lparr>st_phys := m, st_FRAMES := f\<rparr>)"

lemma only_framesI [intro]: "s' = s\<lparr>st_phys := m, st_FRAMES := f\<rparr> \<Longrightarrow> only_frames s s'"
  unfolding only_frames_def by (intro exI)

lemma only_frames_refl: "only_frames s s"
  by (rule only_framesI [where m = "st_phys s" and f = "st_FRAMES s"]) simp

lemma only_frames_trans:
  assumes "only_frames s s'" and "only_frames s' s''"
  shows "only_frames s s''"
proof -
  obtain m f m' f' where "s' = s\<lparr>st_phys := m, st_FRAMES := f\<rparr>" "s'' = s'\<lparr>st_phys := m', st_FRAMES := f'\<rparr>"
    using assms unfolding only_frames_def by blast
  then have "s'' = s\<lparr>st_phys := m', st_FRAMES := f'\<rparr>" by simp
  then show ?thesis by (rule only_framesI)
qed

lemma with_frames_keeps:
  assumes "with_frames f s = Some (r, s')"
  shows "only_frames s s'"
proof (cases r)
  case (Some x)
  show ?thesis using with_frames_Some [OF assms [unfolded Some]] by auto
next
  case None
  let ?g = "\<lambda>s. case st_FRAMES s of None \<Rightarrow> Some (None, s)
     | Some fa \<Rightarrow> do { (r, m, fa') \<leftarrow> f (st_phys s) fa;
         Some (Some r, s\<lparr>st_phys := m, st_FRAMES := Some fa'\<rparr>) }"
  have n: "st_FRAMES s = None"
    using assms None unfolding with_frames_def without_interrupts_cli
    by (auto simp: bind_eq_Some_conv cli_def split: option.splits)
  then have "?g (cli s) = Some (None, cli s)" by (simp add: cli_def)
  from without_interrupts_returns [of ?g, OF this] have "with_frames f s = Some (None, s)"
    by (simp add: with_frames_def cli_def)
  then have "s' = s\<lparr>st_phys := st_phys s, st_FRAMES := st_FRAMES s\<rparr>" using assms by simp
  then show ?thesis by (rule only_framesI)
qed

lemma alloc_frame_keeps: "alloc_frame s = Some (r, s') \<Longrightarrow> only_frames s s'"
  by (auto simp: alloc_frame_def bind_eq_Some_conv dest: with_frames_keeps)

lemma dealloc_frame_keeps: "dealloc_frame a s = Some s' \<Longrightarrow> only_frames s s'"
  by (auto simp: dealloc_frame_def bind_eq_Some_conv dest: with_frames_keeps)

lemma alloc_contiguous_keeps: "alloc_contiguous n s = Some (r, s') \<Longrightarrow> only_frames s s'"
  by (auto simp: alloc_contiguous_def bind_eq_Some_conv dest: with_frames_keeps)

lemma frame_init_keeps:
  assumes "frame_init rs s = Some (n, s')"
  shows "only_frames s s'"
proof -
  have "only_frames s t" if "without_interrupts (\<lambda>s. Some ((), s\<lparr>st_FRAMES := Some fa\<rparr>)) s = Some (u, t)" for fa u t
  proof -
    have "without_interrupts (\<lambda>s. Some ((), s\<lparr>st_FRAMES := Some fa\<rparr>)) s =
        Some ((), ((cli s)\<lparr>st_FRAMES := Some fa\<rparr>)\<lparr>rflags := rflags s\<rparr>)"
      by (rule without_interrupts_returns) simp_all
    then have "t = s\<lparr>st_phys := st_phys s, st_FRAMES := Some fa\<rparr>" using that by (simp add: cli_def)
    then show ?thesis by (rule only_framesI)
  qed
  then show ?thesis
    using assms only_frames_refl [of s]
    by (auto simp: frame_init_def bind_eq_Some_conv Let_def simp del: checked_mul_Some_iff checked_add_Some_iff
        split: if_splits option.splits prod.splits)
qed

text \<open>Composition: what each step keeps, the sequence keeps.\<close>

definition keeping :: "('a frame_state_scheme \<Rightarrow> ('r \<times> 'a frame_state_scheme) run) \<Rightarrow> bool" where
  "keeping f \<longleftrightarrow> (\<forall>s r s'. f s = Some (r, s') \<longrightarrow> only_frames s s')"

lemma keeping_return: "keeping (\<lambda>s. Some (x, s))"
  by (simp add: keeping_def only_frames_refl)

lemma keeping_alloc: "(\<And>x. keeping (k x)) \<Longrightarrow> keeping (\<lambda>s. do { (x, s) \<leftarrow> alloc_frame s; k x s })"
  unfolding keeping_def by (auto simp: bind_eq_Some_conv intro: only_frames_trans [OF alloc_frame_keeps])

lemma keeping_dealloc: "keeping k \<Longrightarrow> keeping (\<lambda>s. do { s \<leftarrow> dealloc_frame a s; k s })"
  unfolding keeping_def by (auto simp: bind_eq_Some_conv intro: only_frames_trans [OF dealloc_frame_keeps])

lemma keeping_option:
  "keeping f \<Longrightarrow> (\<And>x. keeping (g x)) \<Longrightarrow> keeping (\<lambda>s. case r of None \<Rightarrow> f s | Some x \<Rightarrow> g x s)"
  by (cases r) simp_all

lemma keeping_if: "keeping f \<Longrightarrow> keeping g \<Longrightarrow> keeping (\<lambda>s. if b then f s else g s)"
  by (cases b) simp_all

lemma frame_selftest_keeps:
  fixes s :: "'a frame_state_scheme"
  assumes "frame_selftest s = Some (r, s')"
  shows "only_frames s s'"
proof -
  have "keeping (frame_selftest :: 'a frame_state_scheme \<Rightarrow> _)"
    unfolding frame_selftest_def [abs_def]
    by (intro keeping_alloc keeping_dealloc keeping_option keeping_if keeping_return)
  then show ?thesis using assms by (simp add: keeping_def)
qed

lemma global_alloc_keeps:
  assumes "global_alloc l s = Some (w, s')"
  shows "\<exists>m h. s' = s\<lparr>st_heap := m, st_HEAP := h\<rparr>"
proof -
  let ?g = "\<lambda>s. do { (p, mem, head) \<leftarrow> heap_alloc l (st_heap s) (st_HEAP s);
     Some (p, s\<lparr>st_heap := mem, st_HEAP := head\<rparr>) }"
  obtain p m h where "heap_alloc l (st_heap s) (st_HEAP s) = Some (p, m, h)"
    using assms unfolding global_alloc_def without_interrupts_cli
    by (auto simp: bind_eq_Some_conv cli_def)
  then have "?g (cli s) = Some (p, (cli s)\<lparr>st_heap := m, st_HEAP := h\<rparr>)" by (simp add: cli_def)
  from without_interrupts_returns [of ?g, OF this]
  have "s' = s\<lparr>st_heap := m, st_HEAP := h\<rparr>" using assms by (simp add: global_alloc_def cli_def)
  then show ?thesis by (intro exI)
qed

lemma global_dealloc_keeps:
  assumes "global_dealloc w l s = Some s'"
  shows "\<exists>m h. s' = s\<lparr>st_heap := m, st_HEAP := h\<rparr>"
proof -
  let ?g = "\<lambda>s. do { (mem, head) \<leftarrow> heap_dealloc w l (st_heap s) (st_HEAP s);
     Some ((), s\<lparr>st_heap := mem, st_HEAP := head\<rparr>) }"
  obtain m h where "heap_dealloc w l (st_heap s) (st_HEAP s) = Some (m, h)"
    using assms unfolding global_dealloc_def without_interrupts_cli
    by (auto simp: bind_eq_Some_conv cli_def)
  then have "?g (cli s) = Some ((), (cli s)\<lparr>st_heap := m, st_HEAP := h\<rparr>)" by (simp add: cli_def)
  from without_interrupts_returns [of ?g, OF this]
  have "s' = s\<lparr>st_heap := m, st_HEAP := h\<rparr>" using assms by (simp add: global_dealloc_def cli_def)
  then show ?thesis by (intro exI)
qed

text \<open>What of the kernel the memory subsystem does not own, and what of it printing does not.\<close>

definition kernel_rest :: "('d, 'a) kernel_scheme \<Rightarrow> _" where
  "kernel_rest s = (ki_dev s, ki_screen s, ks_TICKS s, ks_KEY_EVENTS_SEEN s, ks_IDT s, ks_tables s, rflags s)"

definition kernel_memory :: "'a heap_state_scheme \<Rightarrow> _" where
  "kernel_memory s = (st_phys s, st_FRAMES s, st_heap s, st_HEAP s)"

lemma only_frames_rest:
  fixes s :: "('d, 'a) kernel_scheme"
  assumes "only_frames s s'"
  shows "kernel_rest s' = kernel_rest s"
  using assms by (auto simp: only_frames_def kernel_rest_def)

lemma heap_only_rest:
  fixes s :: "('d, 'a) kernel_scheme"
  assumes "heap_only a z s s'"
  shows "kernel_rest s' = kernel_rest s \<and> st_phys s' = st_phys s \<and> st_FRAMES s' = st_FRAMES s"
  using assms by (auto simp: heap_only_def kernel_rest_def)

lemma heap_init_rest:
  fixes s :: "('d, 'a) kernel_scheme"
  assumes "heap_init s = Some (r, s')"
  shows "kernel_rest s' = kernel_rest s"
proof -
  obtain w s1 where 1: "alloc_contiguous HEAP_FRAMES s = Some (w, s1)"
    using assms by (auto simp: heap_init_def bind_eq_Some_conv)
  have rest: "kernel_rest s1 = kernel_rest s" by (rule only_frames_rest [OF alloc_contiguous_keeps [OF 1]])
  show ?thesis
  proof (cases w)
    case None
    then show ?thesis using assms 1 rest by (simp add: heap_init_def)
  next
    case (Some start)
    have "checked_mul HEAP_FRAMES PAGE_SIZE = Some 0x100000" by code_simp
    moreover have "without_interrupts (\<lambda>s. let (mem, head) = heap_arm start 0x100000 (st_heap s)
        in Some ((), s\<lparr>st_heap := mem, st_HEAP := head\<rparr>)) s1 =
      Some ((), ((cli s1)\<lparr>st_heap := fst (heap_arm start 0x100000 (st_heap s1)), st_HEAP := start\<rparr>)\<lparr>rflags := rflags s1\<rparr>)"
      by (rule without_interrupts_returns) (simp_all add: heap_arm_def cli_def)
    ultimately have "s' = s1\<lparr>st_heap := fst (heap_arm start 0x100000 (st_heap s1)), st_HEAP := start\<rparr>"
      using assms 1 Some by (simp add: heap_init_def cli_def del: checked_mul_Some_iff)
    then show ?thesis using rest by (simp add: kernel_rest_def)
  qed
qed

lemma only_io_memory: "only_io s s' \<Longrightarrow> kernel_memory s' = kernel_memory s"
  by (auto simp: only_io_def kernel_memory_def)

lemma frame_cong:
  fixes s :: "'a frame_state_scheme" and s' :: "'b frame_state_scheme"
  assumes "st_phys s' = st_phys s" and "st_FRAMES s' = st_FRAMES s"
  shows "frame_inv U s' = frame_inv U s" and "free_frames s' = free_frames s" and "open_runs s' = open_runs s"
  using assms
  by (simp_all add: frame_inv_def frame_state_is_def free_frames_def open_runs_def cong: option.case_cong)

lemma kernel_memory_cong:
  fixes s :: "'a heap_state_scheme" and s' :: "'a heap_state_scheme"
  assumes "kernel_memory s' = kernel_memory s"
  shows "frame_inv U s' = frame_inv U s" and "free_frames s' = free_frames s" and "open_runs s' = open_runs s"
    and "heap_is a z s' bs = heap_is a z s bs"
proof -
  have eqs: "st_phys s' = st_phys s" "st_FRAMES s' = st_FRAMES s" "st_heap s' = st_heap s" "st_HEAP s' = st_HEAP s"
    using assms by (simp_all add: kernel_memory_def)
  show "frame_inv U s' = frame_inv U s" "free_frames s' = free_frames s" "open_runs s' = open_runs s"
    using frame_cong [OF eqs(1,2)] .
  show "heap_is a z s' bs = heap_is a z s bs" by (simp add: heap_is_def eqs(3,4))
qed

text \<open>Every frame of the map accounted for, and a heap of one free block in 256 of them.\<close>

definition memory_ready :: "memory_region list \<Rightarrow> 'a heap_state_scheme \<Rightarrow> bool" where
  "memory_ready rs s \<longleftrightarrow> frame_inv (set (map_frames rs)) s \<and>
     (\<exists>a. heap_is a (a + 0x100000) s [(a, 0x100000)] \<and>
       set (frames_between a (a + 0x100000)) \<subseteq> set (map_frames rs) - free_frames s)"

lemma memory_ready_cong:
  fixes s :: "'a heap_state_scheme" and s' :: "'a heap_state_scheme"
  assumes "kernel_memory s' = kernel_memory s"
  shows "memory_ready rs s' = memory_ready rs s"
  unfolding memory_ready_def kernel_memory_cong [OF assms] ..

lemma heap_selftest_spec:
  fixes s :: "('d, 'a) kernel_scheme"
  assumes ready: "memory_ready rs s"
  obtains s' where "heap_selftest s = Some (Inr (), s')" and "kernel_rest s' = kernel_rest s" and "memory_ready rs s'"
proof -
  obtain a where a: "heap_is a (a + 0x100000) s [(a, 0x100000)]"
    "set (frames_between a (a + 0x100000)) \<subseteq> set (map_frames rs) - free_frames s" and inv: "frame_inv (set (map_frames rs)) s"
    using ready by (auto simp: memory_ready_def)
  have free: "all_free a (a + 0x100000) s" using a(1) by (simp add: all_free_def)
  obtain s' where w: "heap_selftest s = Some (Inr (), s')" "all_free a (a + 0x100000) s'"
    "heap_only a (a + 0x100000) s s'" by (rule heap_selftest_runs [OF free]) simp
  note rest = heap_only_rest [OF w(3)]
  have "free_frames s' = free_frames s" "frame_inv (set (map_frames rs)) s'"
    using rest inv frame_cong [of s' s] by simp_all
  then have "memory_ready rs s'" using w(2) a(2) by (auto simp: memory_ready_def all_free_def)
  then show thesis using that w(1) rest by blast
qed

lemma kernel_rest_ok: "kernel_rest s' = kernel_rest s \<Longrightarrow> io_ok uart s' = io_ok uart s"
  by (simp add: kernel_rest_def io_ok_def)

text \<open>What the memory steps and the prints between them leave of the kernel.\<close>

definition steady ::
    "('d \<Rightarrow> uart) \<Rightarrow> ('d \<Rightarrow> 'c) \<Rightarrow> ('d, 'a) kernel_scheme \<Rightarrow> ('d, 'a) kernel_scheme \<Rightarrow> bool" where
  "steady uart pics s s' \<longleftrightarrow> io_ok uart s' \<and> pics (ki_dev s') = pics (ki_dev s) \<and> ks_TICKS s' = ks_TICKS s \<and>
     ks_KEY_EVENTS_SEEN s' = ks_KEY_EVENTS_SEEN s \<and> ks_IDT s' = ks_IDT s \<and> ks_tables s' = ks_tables s \<and>
     rflags s' = rflags s"

lemma steady_trans: "steady uart pics s s' \<Longrightarrow> steady uart pics s' s'' \<Longrightarrow> steady uart pics s s''"
  by (simp add: steady_def)

lemma steady_quiet: "quiet uart pics s s' \<Longrightarrow> steady uart pics s s'"
  using only_io_kernel [of s s'] by (simp add: quiet_def steady_def)

lemma steady_rest: "kernel_rest s' = kernel_rest s \<Longrightarrow> io_ok uart s \<Longrightarrow> steady uart pics s s'"
  by (simp add: kernel_rest_def steady_def io_ok_def)

lemma steady_ok: "steady uart pics s s' \<Longrightarrow> io_ok uart s'"
  by (simp add: steady_def)

lemma quiet_memory: "quiet uart pics s s' \<Longrightarrow> kernel_memory s' = kernel_memory s"
  by (simp add: quiet_def only_io_memory)

lemma usable_total_small:
  assumes "map_ok rs" and "\<forall>f \<in> set (map_frames rs). f + 4096 \<le> 2 ^ 52" and "unat n = length (map_frames rs)"
  shows "\<exists>bytes. checked_mul n PAGE_SIZE = Some bytes"
proof -
  have "set (map_frames rs) \<subseteq> (\<lambda>i. 4096 * i) ` {..<2 ^ 40}"
  proof
    fix f assume f: "f \<in> set (map_frames rs)"
    then obtain i where "f = 4096 * i" using map_frames_aligned by (blast elim: dvdE)
    moreover from this have "i < 2 ^ 40" using assms(2) f by fastforce
    ultimately show "f \<in> (\<lambda>i. 4096 * i) ` {..<2 ^ 40}" by blast
  qed
  then have "card (set (map_frames rs)) \<le> card ((\<lambda>i. 4096 * i) ` {..<2 ^ 40 :: nat})"
    by (intro card_mono) simp_all
  also have "\<dots> \<le> 2 ^ 40" using card_image_le [of "{..<2 ^ 40}" "\<lambda>i. 4096 * i :: nat"] by simp
  finally have "unat n \<le> 2 ^ 40" using assms(1,3) by (simp add: map_ok_def distinct_card)
  then show ?thesis by (auto simp: checked_mul_def PAGE_SIZE_def)
qed

text \<open>The verdict of the memory bring-up: a failure code, or everything in place.\<close>

definition memory_outcome ::
    "('d \<Rightarrow> uart) \<Rightarrow> ('d \<Rightarrow> 'c) \<Rightarrow> memory_region list \<Rightarrow> ('d, 'a) kernel_scheme \<Rightarrow>
     ('d, 'a) kernel_scheme outcome \<Rightarrow> bool" where
  "memory_outcome uart pics rs s out \<longleftrightarrow>
     (case out of (Inl code, s') \<Rightarrow> code = Failed | (Inr _, s') \<Rightarrow> steady uart pics s s' \<and> memory_ready rs s')"

lemma fatal_outcome:
  assumes "machine_ok p uart pics" and "io_ok uart s"
  shows "\<exists>out. fatal p msg s = Some out \<and> memory_outcome uart pics rs s0 out"
  using fatal_fails [OF assms, of msg] by (auto simp: memory_outcome_def)

lemma heap_up_spec:
  fixes s :: "('d, 'a) kernel_scheme"
  assumes m: "machine_ok p uart pics" and io: "io_ok uart s" and inv: "frame_inv (set (map_frames rs)) s"
    and low: "\<forall>f \<in> set (map_frames rs). f + 4096 \<le> 2 ^ 52"
  shows "\<exists>out. heap_up p env frames s = Some out \<and> memory_outcome uart pics rs s out \<and>
    ((\<exists>run \<in> set (open_runs s). 256 \<le> length run) \<longrightarrow> fst out = Inr ())"
proof -
  obtain r s1 where 1: "heap_init s = Some (r, s1)" "frame_inv (set (map_frames rs)) s1"
    "r = None \<longleftrightarrow> (\<forall>run \<in> set (open_runs s). length run < 256)"
    "case r of None \<Rightarrow> (\<forall>run \<in> set (open_runs s). length run < 256) \<and> free_frames s1 = free_frames s
     | Some (start, len) \<Rightarrow> len = 0x100000 \<and>
         heap_is (unat start) (unat start + 0x100000) s1 [(unat start, 0x100000)] \<and>
         (let frames = set (frames_between (unat start) (unat start + 0x100000)) in
            frames \<subseteq> free_frames s \<and> free_frames s1 = free_frames s - frames)"
    using heap_init_spec [OF inv low] by (elim exE conjE)
  have st1: "steady uart pics s s1" by (rule steady_rest [OF heap_init_rest [OF 1(1)] io])
  show ?thesis
  proof (cases r)
    case None
    have "\<exists>out. fatal p (ascii ''could not obtain '' @ show_dec HEAP_FRAMES
          @ ascii '' contiguous frames for the heap'') s1 = Some out \<and> memory_outcome uart pics rs s out"
      by (rule fatal_outcome [OF m steady_ok [OF st1]])
    then show ?thesis using 1 None by (fastforce simp: heap_up_def)
  next
    case (Some x)
    obtain start where x: "x = (start, 0x100000)" using 1(4) Some by (cases x) auto
    let ?frames = "set (frames_between (unat start) (unat start + 0x100000))"
    have h: "heap_is (unat start) (unat start + 0x100000) s1 [(unat start, 0x100000)]"
      and fr: "?frames \<subseteq> free_frames s" "free_frames s1 = free_frames s - ?frames"
      using 1(4) Some x by (simp_all add: Let_def)
    have "free_frames s \<subseteq> set (map_frames rs)" using frame_invE [OF inv] free_frames_is by metis
    then have "?frames \<subseteq> set (map_frames rs) - free_frames s1" using fr by auto
    then have ready1: "memory_ready rs s1" using h 1(2) unfolding memory_ready_def by blast
    obtain n where n: "frames_in_use s1 = Some (n, s1)" using frames_in_use_spec [OF 1(2)] by blast
    obtain s2 where 2: "kprintln p (ascii ''heap: '' @ show_dec (0x100000 div 1024) @ ascii '' KiB @ ''
          @ show_hex start @ ascii '' ('' @ show_dec n @ ascii '' of '' @ show_dec frames @ ascii '' frames in use)'') s1 = Some s2"
      "quiet uart pics s1 s2" by (rule kprintln_quiet [OF m steady_ok [OF st1]])
    have ready2: "memory_ready rs s2" using ready1 memory_ready_cong [OF quiet_memory [OF 2(2)]] by simp
    obtain s3 where 3: "heap_selftest s2 = Some (Inr (), s3)" "kernel_rest s3 = kernel_rest s2"
      "memory_ready rs s3" by (rule heap_selftest_spec [OF ready2])
    have st3: "steady uart pics s2 s3" by (rule steady_rest [OF 3(2) quiet_ok [OF 2(2)]])
    obtain s4 where 4: "kprintln p (ascii ''alloc: Box/Vec/String OK, heap balanced'') s3 = Some s4" "quiet uart pics s3 s4"
      by (rule kprintln_quiet [OF m steady_ok [OF st3]])
    have "memory_ready rs s4" using 3(3) memory_ready_cong [OF quiet_memory [OF 4(2)]] by simp
    moreover have "steady uart pics s s4"
      using st1 steady_quiet [OF 2(2)] st3 steady_quiet [OF 4(2)] steady_trans by metis
    moreover have "heap_up p env frames s = Some (Inr (), s4)"
      unfolding heap_up_def by (simp only: 1(1) Some x n 2(1) 3(1) 4(1) Option.bind_lunit prod.case option.case sum.case)
    ultimately show ?thesis by (simp add: memory_outcome_def)
  qed
qed

text \<open>A run of 260 frames is more than the self-test and the heap can need.\<close>

definition roomy :: "memory_region list \<Rightarrow> bool" where
  "roomy rs \<longleftrightarrow> (\<exists>run \<in> set (map frames_of_run (runs_of rs)). 260 \<le> length run)"

lemma roomy_frames: "roomy rs \<Longrightarrow> 260 \<le> length (map_frames rs)"
proof -
  assume "roomy rs"
  then obtain run where run: "run \<in> set (map frames_of_run (runs_of rs))" "260 \<le> length run"
    unfolding roomy_def by blast
  then obtain xs ys where "map frames_of_run (runs_of rs) = xs @ run # ys" by (meson split_list)
  then have "length run \<le> length (map_frames rs)" by (simp add: map_frames_def)
  then show ?thesis using run(2) by simp
qed

lemma memory_up_spec:
  fixes s :: "('d, 'a) kernel_scheme"
  assumes m: "machine_ok p uart pics" and io: "io_ok uart s" and ok: "map_ok (en_regions env)"
    and low: "\<forall>f \<in> set (map_frames (en_regions env)). f + 4096 \<le> 2 ^ 52"
  shows "\<exists>out. memory_up p env s = Some out \<and> memory_outcome uart pics (en_regions env) s out \<and>
    (roomy (en_regions env) \<longrightarrow> fst out = Inr ())"
proof -
  let ?rs = "en_regions env" and ?U = "set (map_frames (en_regions env))"
  obtain n s1 where 1: "frame_init ?rs s = Some (n, s1)" "unat n = length (map_frames ?rs)"
    "if n = 0 then s1 = s else frame_inv ?U s1 \<and> free_frames s1 = ?U \<and> open_runs s1 = map frames_of_run (runs_of ?rs)"
    using frame_init_spec [OF ok, of s] by blast
  have st1: "steady uart pics s s1" by (rule steady_rest [OF only_frames_rest [OF frame_init_keeps [OF 1(1)]] io])
  show ?thesis
  proof (cases "n = 0")
    case True
    obtain out where "fatal p (ascii ''no usable memory regions in the UEFI memory map'') s1 = Some out"
      "memory_outcome uart pics ?rs s out" using fatal_outcome [OF m steady_ok [OF st1]] by blast
    moreover have "\<not> roomy ?rs" using roomy_frames [of ?rs] 1(2) True by auto
    ultimately show ?thesis using 1(1) True by (simp add: memory_up_def)
  next
    case False
    then have inv1: "frame_inv ?U s1" "free_frames s1 = ?U" "open_runs s1 = map frames_of_run (runs_of ?rs)"
      using 1(3) by simp_all
    obtain bytes where bytes: "checked_mul n PAGE_SIZE = Some bytes"
      using usable_total_small [OF ok low 1(2)] by blast
    obtain s2 where 2: "kprintln p (ascii ''frame allocator: '' @ show_dec n @ ascii '' usable frames (''
          @ show_dec (bytes div (1024 * 1024)) @ ascii '' MiB)'') s1 = Some s2" "quiet uart pics s1 s2"
      by (rule kprintln_quiet [OF m steady_ok [OF st1]])
    note same2 = kernel_memory_cong [OF quiet_memory [OF 2(2)]]
    have inv2: "frame_inv ?U s2" "free_frames s2 = ?U" "open_runs s2 = map frames_of_run (runs_of ?rs)"
      using inv1 same2 by simp_all
    have st2: "steady uart pics s s2" by (rule steady_trans [OF st1 steady_quiet [OF 2(2)]])
    have card: "card ?U = unat n" using 1(2) ok by (simp add: map_ok_def distinct_card)
    have begin_up: "memory_up p env s = do {
        (r, s) \<leftarrow> frame_selftest s2;
        (case r of
           Inl reason \<Rightarrow> fatal p (ascii ''frame allocator selftest: '' @ ascii reason) s
         | Inr _ \<Rightarrow> do { s \<leftarrow> kprintln p (ascii ''frame allocator: selftest passed'') s; heap_up p env n s })
      }"
      using False unfolding memory_up_def by (simp only: 1(1) bytes 2(1) Option.bind_lunit prod.case if_False)
    show ?thesis
    proof (cases "n = 1")
      case True
      then have "card (free_frames s2) = 1" using inv2(2) card by simp
      from frame_selftest_one [OF inv2(1) this] obtain msg s3 where 3: "frame_selftest s2 = Some (Inl msg, s3)" by blast
      have "steady uart pics s2 s3"
        by (rule steady_rest [OF only_frames_rest [OF frame_selftest_keeps [OF 3]] steady_ok [OF st2]])
      from fatal_outcome [OF m steady_ok [OF this]] obtain out where
        "fatal p (ascii ''frame allocator selftest: '' @ ascii msg) s3 = Some out" "memory_outcome uart pics ?rs s out" by blast
      moreover have "\<not> roomy ?rs" using roomy_frames [of ?rs] 1(2) True by auto
      ultimately show ?thesis using begin_up 3 by simp
    next
      case more: False
      then have "2 \<le> unat n" using False by (metis One_nat_def Suc_1 Suc_leI le_neq_implies_less unat_1 unat_gt_0 word_unat_eq_iff not_less_eq_eq unat_eq_zero le_zero_eq not_less_zero)
      then have "2 \<le> card (free_frames s2)" using inv2(2) card by simp
      from frame_selftest_runs [OF inv2(1) this] obtain s3 where 3: "frame_selftest s2 = Some (Inr (), s3)"
        "frame_inv ?U s3" "runs_within 4 (open_runs s2) (open_runs s3)" by blast
      have st3: "steady uart pics s s3"
        by (rule steady_trans [OF st2 steady_rest [OF only_frames_rest [OF frame_selftest_keeps [OF 3(1)]] steady_ok [OF st2]]])
      obtain s4 where 4: "kprintln p (ascii ''frame allocator: selftest passed'') s3 = Some s4" "quiet uart pics s3 s4"
        by (rule kprintln_quiet [OF m steady_ok [OF st3]])
      note same4 = kernel_memory_cong [OF quiet_memory [OF 4(2)]]
      have st4: "steady uart pics s s4" by (rule steady_trans [OF st3 steady_quiet [OF 4(2)]])
      have inv4: "frame_inv ?U s4" using 3(2) same4 by simp
      obtain out where out: "heap_up p env n s4 = Some out" "memory_outcome uart pics ?rs s4 out"
        "(\<exists>run \<in> set (open_runs s4). 256 \<le> length run) \<longrightarrow> fst out = Inr ()"
        using heap_up_spec [OF m steady_ok [OF st4] inv4 low, where frames = n and env = env] by blast
      have "memory_up p env s = Some out" using begin_up 3(1) 4(1) out(1) by simp
      moreover have "memory_outcome uart pics ?rs s out"
        using out(2) steady_trans [OF st4] by (auto simp: memory_outcome_def split: prod.splits sum.splits)
      moreover have "\<exists>run \<in> set (open_runs s4). 256 \<le> length run" if "roomy ?rs"
      proof -
        obtain run where "run \<in> set (open_runs s2)" "260 \<le> length run" using \<open>roomy ?rs\<close> inv2(3) unfolding roomy_def by metis
        then obtain run' where "run' \<in> set (open_runs s3)" "length run \<le> length run' + 4" using 3(3) unfolding runs_within_def by blast
        then show ?thesis using \<open>260 \<le> length run\<close> same4(3) by (intro bexI [of _ run']) simp_all
      qed
      ultimately show ?thesis using out(3) by blast
    qed
  qed
qed

end
