(* ===== verification/Kernel_Start.thy ===== *)
theory Kernel_Start
  imports Kernel_Bringup
begin

text \<open>
  From \<open>_start\<close> to the point where interrupts come on: the composition of every component of the
  kernel, from the statics as the image is loaded with them to a state the wait can run from.
\<close>

section \<open>Painting any screen\<close>

text \<open>
  \<open>fill_screen\<close> runs before the console has looked at the framebuffer. It returns for every
  description whose pixels can be counted in bytes, whatever size and format it claims.
\<close>

definition countable_surface :: "frame_buffer_info \<Rightarrow> bool" where
  "countable_surface fb \<longleftrightarrow> unat (fb_height fb) * unat (fb_stride fb) + unat (fb_width fb) < 2 ^ 61"

lemma unat_u32_product: "unat (a :: u32) * unat (b :: u32) < 2 ^ 64"
proof -
  have "unat c \<le> 2 ^ 32 - 1" for c :: u32
  proof -
    have "unat c < 4294967296" using unsigned_less [of c] by simp
    then show ?thesis by simp
  qed
  then have "unat a * unat b \<le> (2 ^ 32 - 1) * (2 ^ 32 - 1)" by (intro mult_le_mono)
  then show ?thesis by simp
qed

lemma fill_pixel_returns:
  assumes fb: "countable_surface fb" and bpp: "bpp \<le> 4" and y: "y < unat (fb_height fb)" and x: "x < unat (fb_width fb)"
    and k: "k + 1 < 2 ^ 64"
  shows "\<exists>k' m'. fill_pixel fb pixel bpp y x (k, m) = Some (k', m') \<and> k' \<le> k + 1"
proof -
  let ?i = "y * unat (fb_stride fb) + x"
  have "y * unat (fb_stride fb) \<le> unat (fb_height fb) * unat (fb_stride fb)" using y by (intro mult_le_mono1) simp
  then have i: "?i < 2 ^ 61" using fb x unfolding countable_surface_def by linarith
  then have "?i * bpp + bpp < 2 ^ 64" using mult_le_mono [of "?i + 1" "2 ^ 61" bpp 4] bpp by simp
  then show ?thesis using i k by (auto simp: fill_pixel_def usize_val_def)
qed

lemma fill_line_returns:
  assumes fb: "countable_surface fb" and bpp: "bpp \<le> 4" and y: "y < unat (fb_height fb)"
    and "\<forall>x \<in> set xs. x < unat (fb_width fb)" and "k + length xs < 2 ^ 64"
  shows "\<exists>k' m'. fill_line fb pixel bpp y xs (k, m) = Some (k', m') \<and> k' \<le> k + length xs"
  using assms(4,5)
proof (induction xs arbitrary: k m)
  case (Cons x xs)
  obtain k1 m1 where 1: "fill_pixel fb pixel bpp y x (k, m) = Some (k1, m1)" "k1 \<le> k + 1"
    using fill_pixel_returns [OF fb bpp y, of x k pixel m] Cons.prems by auto
  have "\<forall>x \<in> set xs. x < unat (fb_width fb)" "k1 + length xs < 2 ^ 64" using Cons.prems 1(2) by simp_all
  from Cons.IH [OF this, of m1] show ?case using 1 by auto
qed simp

lemma fill_lines_returns:
  assumes fb: "countable_surface fb" and bpp: "bpp \<le> 4" and "\<forall>y \<in> set ys. y < unat (fb_height fb)"
    and "k + length ys * unat (fb_width fb) < 2 ^ 64"
  shows "\<exists>r. fill_lines fb pixel bpp ys (k, m) = Some r"
  using assms(3,4)
proof (induction ys arbitrary: k m)
  case (Cons y ys)
  obtain k1 m1 where 1: "fill_line fb pixel bpp y [0..<unat (fb_width fb)] (k, m) = Some (k1, m1)"
    "k1 \<le> k + unat (fb_width fb)"
    using fill_line_returns [OF fb bpp, of y "[0..<unat (fb_width fb)]" k pixel m] Cons.prems by auto
  have "\<forall>y \<in> set ys. y < unat (fb_height fb)" "k1 + length ys * unat (fb_width fb) < 2 ^ 64"
    using Cons.prems 1(2) by simp_all
  from Cons.IH [OF this, of m1] show ?case using 1(1) by simp
qed simp

lemma fill_screen_returns:
  assumes "countable_surface (bi_framebuffer info)"
  shows "\<exists>skipped m'. fill_screen info r g b m = Some ((skipped, fb_pixel_format (bi_framebuffer info) = None), m')"
proof -
  let ?fb = "bi_framebuffer info"
  have "\<exists>q. fill_lines ?fb pixel (min (unat (fb_bytes_per_pixel ?fb)) (length pixel)) [0..<unat (fb_height ?fb)] (0, m) = Some q"
    if "length pixel = 4" for pixel
    by (rule fill_lines_returns [OF assms]) (use that unat_u32_product in simp_all)
  moreover let ?pixel = "case (case fb_pixel_format ?fb of Some f \<Rightarrow> f | None \<Rightarrow> Bgr) of
    Rgb \<Rightarrow> [r, g, b, 0] | Bgr \<Rightarrow> [b, g, r, 0]"
  have "length ?pixel = 4" by (simp split: pixel_format_kind.split)
  ultimately obtain k m' where "fill_lines ?fb ?pixel (min (unat (fb_bytes_per_pixel ?fb)) (length ?pixel))
      [0..<unat (fb_height ?fb)] (0, m) = Some (k, m')"
    by fastforce
  then show ?thesis unfolding fill_screen_def Let_def by (simp only: Option.bind_lunit prod.case) blast
qed

lemma kprintln_maybe:
  assumes "machine_ok p uart pics" and "io_ok uart s"
  obtains s' where "(if b then kprintln p msg s else Some s) = Some s'" and "quiet uart pics s s'"
proof (cases b)
  case True
  obtain s' where "kprintln p msg s = Some s'" "quiet uart pics s s'" by (rule kprintln_quiet [OF assms])
  then show thesis using that True by simp
next
  case False
  show thesis by (rule that [OF _ quiet_refl [OF assms(2)]]) (simp add: False)
qed

lemma paint_steady:
  fixes s :: "('d, 'a) kernel_scheme"
  assumes m: "machine_ok p uart pics" and io: "io_ok uart s" and fb: "countable_surface (bi_framebuffer info)"
  obtains s' where "paint p info s = Some s'" and "quiet uart pics s s'"
proof -
  let ?none = "fb_pixel_format (bi_framebuffer info) = None"
  obtain skipped px where px: "fill_screen info 0x00 0x33 0x99 (sc_pixels (ki_screen s)) = Some ((skipped, ?none), px)"
    using fill_screen_returns [OF fb] by blast
  let ?s = "s\<lparr>ki_screen := console_init (bi_framebuffer info) ((ki_screen s)\<lparr>sc_pixels := px\<rparr>)\<rparr>"
  have "io_ok uart ?s" using io console_new_Some(1)
    by (auto simp: io_ok_def screen_ok_def console_init_def split: option.splits)
  then have q0: "quiet uart pics s ?s"
    by (auto simp: quiet_def intro!: only_ioI [where d = "ki_dev s"])
  obtain s1 where 1: "kprintln p (ascii ''framebuffer painted'') ?s = Some s1" "quiet uart pics ?s s1"
    by (rule kprintln_quiet [OF m quiet_ok [OF q0]])
  obtain s2 where 2: "(if ?none then kprintln p (ascii ''  note: pixel format was not recognised; assumed BGR'') s1
      else Some s1) = Some s2" "quiet uart pics s1 s2"
    by (rule kprintln_maybe [OF m quiet_ok [OF 1(2)]])
  obtain s3 where 3: "(if 0 < skipped then
        kprintln p (ascii ''  note: '' @ show_dec (of_nat skipped) @ ascii '' pixels skipped as out of bounds'') s2
      else Some s2) = Some s3" "quiet uart pics s2 s3"
    by (rule kprintln_maybe [OF m quiet_ok [OF 2(2)]])
  have "paint p info s = Some s3" by (simp only: paint_def px Let_def Option.bind_lunit prod.case 1(1) 2(1) 3(1))
  moreover have "quiet uart pics s s3"
    using q0 1(2) 2(2) 3(2) quiet_trans by metis
  ultimately show thesis by (rule that)
qed

section \<open>Before and after\<close>

text \<open>The statics as the image is loaded, whatever the devices, the flags and the memory hold.\<close>

definition fresh :: "('d, 'a) kernel_scheme \<Rightarrow> bool" where
  "fresh s \<longleftrightarrow> sc_CONSOLE (ki_screen s) = None \<and> ks_IDT s = idt_new \<and> ks_TICKS s = 0 \<and> ks_KEY_EVENTS_SEEN s = 0"

definition brought_up ::
    "('d \<Rightarrow> uart) \<Rightarrow> ('d \<Rightarrow> pic_chip \<times> pic_chip) \<Rightarrow> environment \<Rightarrow>
     ('d, 'a) kernel_scheme \<Rightarrow> ('d, 'a) kernel_scheme \<Rightarrow> bool" where
  "brought_up uart pics env s s' \<longleftrightarrow>
     running uart (en_handlers env) s' \<and> pics (ki_dev s') = pics_ready \<and> memory_ready (en_regions env) s' \<and>
     ks_TICKS s' = 0 \<and> ks_KEY_EVENTS_SEEN s' = 0 \<and>
     (\<exists>t. gdt_init (en_statics env) (ks_tables s) = Some t \<and> ks_tables s' = idt_load (en_statics env) t)"

lemma kernel_main_spec:
  fixes s :: "('d, 'a) kernel_scheme"
  assumes m: "machine_ok p uart pics" and io: "io_ok uart s" and new: "ks_IDT s = idt_new"
    and zero: "ks_TICKS s = 0" "ks_KEY_EVENTS_SEEN s = 0"
    and h: "distinct_handlers (en_handlers env)" and stack: "unat (sa_FAULT_STACK (en_statics env)) + 16384 < 2 ^ 64"
    and map: "map_ok (en_regions env)" "\<forall>f \<in> set (map_frames (en_regions env)). f + 4096 \<le> 2 ^ 52"
    and fb: "countable_surface (bi_framebuffer info)"
  shows "\<exists>out s'. kernel_main p env info s = Some (out, s') \<and>
    (case out of Inl code \<Rightarrow> code = Failed | Inr _ \<Rightarrow> brought_up uart pics env s s') \<and>
    (roomy (en_regions env) \<longrightarrow> out = Inr ())"
proof -
  let ?fb = "bi_framebuffer info"
  obtain s1 where 1: "kprintln p (ascii ''framebuffer: '' @ show_dec (ucast (fb_width ?fb)) @ ascii ''x''
       @ show_dec (ucast (fb_height ?fb)) @ ascii '' stride='' @ show_dec (ucast (fb_stride ?fb))
       @ ascii '' @ '' @ show_hex (fb_addr ?fb)) s = Some s1" "quiet uart pics s s1"
    by (rule kprintln_quiet [OF m io])
  obtain s2 where 2: "kprintln p (ascii ''kernel image: base='' @ show_hex (bi_kernel_base info)
       @ ascii '' size='' @ show_hex (bi_kernel_size info)) s1 = Some s2" "quiet uart pics s1 s2"
    by (rule kprintln_quiet [OF m quiet_ok [OF 1(2)]])
  have st2: "steady uart pics s s2" by (rule steady_quiet [OF quiet_trans [OF 1(2) 2(2)]])
  then have new2: "ks_IDT s2 = idt_new" "ks_tables s2 = ks_tables s" using new by (simp_all add: steady_def)
  obtain s3 t where 3: "kernel_init p (en_handlers env) (en_statics env) s2 = Some s3" "io_ok uart s3"
    "gates (ks_IDT s3) = vector_table (en_handlers env)" "gdt_init (en_statics env) (ks_tables s2) = Some t"
    "ks_tables s3 = idt_load (en_statics env) t" "pics (ki_dev s3) = pics_ready"
    "only_io (s2\<lparr>ks_IDT := ks_IDT s3, ks_tables := ks_tables s3\<rparr>) s3"
    by (rule kernel_init_spec [OF m steady_ok [OF st2] new2(1) stack])
  have zero3: "ks_TICKS s3 = 0" "ks_KEY_EVENTS_SEEN s3 = 0"
    using only_io_kernel(1,2) [OF 3(7)] st2 zero by (simp_all add: steady_def)
  obtain s4 where 4: "kernel_selftest p (en_handlers env) (en_frame env) s3 = Some s4" "quiet uart pics s3 s4"
    by (rule kernel_selftest_spec [OF m 3(2,3) h])
  obtain s5 where 5: "paint p info s4 = Some s5" "quiet uart pics s4 s5"
    by (rule paint_steady [OF m quiet_ok [OF 4(2)] fb])
  have st5: "steady uart pics s3 s5" by (rule steady_quiet [OF quiet_trans [OF 4(2) 5(2)]])
  obtain out s6 where 6: "memory_up p env s5 = Some (out, s6)" "memory_outcome uart pics (en_regions env) s5 (out, s6)"
    "roomy (en_regions env) \<longrightarrow> out = Inr ()"
    using memory_up_spec [OF m steady_ok [OF st5] map] by (metis prod.collapse fst_conv)
  note run = kernel_main_def Let_def 1(1) 2(1) 3(1) 4(1) 5(1) 6(1) Option.bind_lunit prod.case
  show ?thesis
  proof (cases out)
    case (Inl code)
    then have "kernel_main p env info s = Some (Inl code, s6)" by (simp only: run sum.case)
    then show ?thesis using 6(2,3) Inl by (simp add: memory_outcome_def)
  next
    case (Inr u)
    then have st6: "steady uart pics s3 s6" and ready: "memory_ready (en_regions env) s6"
      using 6(2) steady_trans [OF st5] by (simp_all add: memory_outcome_def)
    obtain s7 where 7: "kprintln p (ascii ''enabling interrupts'') s6 = Some s7" "quiet uart pics s6 s7"
      by (rule kprintln_quiet [OF m steady_ok [OF st6]])
    have st7: "steady uart pics s3 s7" by (rule steady_trans [OF st6 steady_quiet [OF 7(2)]])
    have "memory_ready (en_regions env) s7" using ready memory_ready_cong [OF quiet_memory [OF 7(2)]] by simp
    then have "memory_ready (en_regions env) (interrupts_enable s7)"
      using memory_ready_cong [of "interrupts_enable s7" s7] by (simp add: kernel_memory_def interrupts_enable_def sti_def)
    then have "brought_up uart pics env s (interrupts_enable s7)"
      using st7 3(3-6) new2(2) zero3
      by (simp add: brought_up_def running_def steady_def io_ok_def interrupts_enable_def) (simp add: sti_def)
    moreover have "kernel_main p env info s = Some (Inr (), interrupts_enable s7)"
      using Inr by (simp only: run sum.case 7(1))
    ultimately show ?thesis by simp
  qed
qed

lemma kernel_start_runs:
  fixes s :: "('d, 'a) kernel_scheme"
  assumes "machine_ok p uart pics" and "fresh s"
    and "distinct_handlers (en_handlers env)" and "unat (sa_FAULT_STACK (en_statics env)) + 16384 < 2 ^ 64"
    and "map_ok (en_regions env)" and "\<forall>f \<in> set (map_frames (en_regions env)). f + 4096 \<le> 2 ^ 52"
    and "\<And>info. boot = Some info \<Longrightarrow> boot_info_is_valid info \<Longrightarrow> countable_surface (bi_framebuffer info)"
  shows "\<exists>out s'. kernel_start p env boot s = Some (out, s') \<and>
    (case out of Inl code \<Rightarrow> code = Failed | Inr _ \<Rightarrow> brought_up uart pics env s s') \<and>
    (case boot of None \<Rightarrow> out = Inl Failed
     | Some info \<Rightarrow> if boot_info_is_valid info then roomy (en_regions env) \<longrightarrow> out = Inr () else out = Inl Failed)"
proof -
  let ?s1 = "s\<lparr>ki_dev := serial_init p (ki_dev s)\<rparr>"
  have "\<not> ua_dlab (uart (serial_init p (ki_dev s)))"
    by (rule serial_init_closes) (use assms(1) in \<open>simp add: machine_ok_def\<close>)
  then have "io_ok uart ?s1" using assms(2) by (simp add: io_ok_def screen_ok_def fresh_def)
  from print_lines_quiet [OF assms(1) this] obtain s2 where
    2: "print_lines p [[], ascii ''=== Rust_BL kernel ===''] ?s1 = Some s2" "quiet uart pics ?s1 s2" by blast
  note start = kernel_start_def Let_def 2(1) Option.bind_lunit
  have "steady uart pics ?s1 s2" by (rule steady_quiet [OF 2(2)])
  then have s2: "ks_IDT s2 = idt_new" "ks_TICKS s2 = 0" "ks_KEY_EVENTS_SEEN s2 = 0" "ks_tables s2 = ks_tables s"
    using assms(2) by (simp_all add: steady_def fresh_def)
  have fails: "\<exists>s'. fatal p msg s2 = Some (Inl Failed, s')" for msg by (rule fatal_fails [OF assms(1) quiet_ok [OF 2(2)]])
  show ?thesis
  proof (cases boot)
    case None
    then show ?thesis using fails [of "ascii ''boot_info pointer is null''"] by (simp add: start del: print_lines.simps)
  next
    case (Some info)
    show ?thesis
    proof (cases "boot_info_is_valid info")
      case False
      then show ?thesis
        using fails [of "ascii ''boot_info failed validation (magic/version/format)''"] Some by (simp add: start del: print_lines.simps)
    next
      case True
      then have fb: "countable_surface (bi_framebuffer info)" by (rule assms(7) [OF Some])
      have same: "brought_up uart pics env s2 = brought_up uart pics env s"
        by (rule ext) (simp add: brought_up_def s2(4))
      from kernel_main_spec [OF assms(1) quiet_ok [OF 2(2)] s2(1-3) assms(3-6) fb] show ?thesis
        unfolding same using Some True by (simp add: start del: print_lines.simps)
    qed
  qed
qed

section \<open>Property\<close>

text \<open>
  C4. Bring-up. From the statics the image is loaded with, whatever the firmware left in the devices
  and in memory, \<open>_start\<close> never panics and never hangs: it rejects a missing or malformed
  \<open>BootInfo\<close> with the failure code, and otherwise either reports failure or arrives with
  interrupts enabled, the vector table and the descriptor tables installed, the controllers
  remapped with the timer and the keyboard unmasked, every frame of the memory map accounted
  for, and a balanced 1 MiB heap in frames of its own. It does arrive whenever the map has a run of 260 frames.
\<close>

theorem kernel_start_brings_up:
  fixes s :: "('d, 'a) kernel_scheme"
  assumes "machine_ok p uart pics" and "fresh s"
    and "distinct_handlers (en_handlers env)" and "unat (sa_FAULT_STACK (en_statics env)) + 16384 < 2 ^ 64"
    and "map_ok (en_regions env)" and "\<forall>f \<in> set (map_frames (en_regions env)). f + 4096 \<le> 2 ^ 52"
    and "\<And>info. boot = Some info \<Longrightarrow> boot_info_is_valid info \<Longrightarrow> countable_surface (bi_framebuffer info)"
  shows "\<exists>out s'. kernel_start p env boot s = Some (out, s') \<and>
    (case out of Inl code \<Rightarrow> code = Failed | Inr _ \<Rightarrow> brought_up uart pics env s s') \<and>
    (case boot of None \<Rightarrow> out = Inl Failed
     | Some info \<Rightarrow> if boot_info_is_valid info then roomy (en_regions env) \<longrightarrow> out = Inr () else out = Inl Failed)"
  using kernel_start_runs [OF assms(1-6)] assms(7) by blast

text \<open>A machine, a map and a boot for which every hypothesis holds.\<close>

definition cold_kernel :: "(uart \<times> pic_chip \<times> pic_chip) kernel" where
  "cold_kernel = waiting_kernel\<lparr>rflags := 0x2, ki_dev := (uart_junk, pic_junk, pic_junk), ks_TICKS := 0,
     ks_KEY_EVENTS_SEEN := 0, ks_IDT := idt_new\<rparr>"

definition demo_env :: "environment" where
  "demo_env = \<lparr>en_handlers = demo_handlers, en_statics = demo_statics, en_frame = demo_frame,
     en_regions = heap_map\<rparr>"

lemma demo_env_simps:
  "en_handlers demo_env = demo_handlers" "en_statics demo_env = demo_statics"
  "en_regions demo_env = heap_map"
  by (simp_all add: demo_env_def)

lemma heap_map_roomy: "roomy heap_map"
proof -
  have "\<exists>run \<in> set (map frames_of_run (runs_of heap_map)). 260 \<le> length run"
    unfolding heap_map_runs by (simp add: frames_of_run_def)
  then show ?thesis unfolding roomy_def .
qed

lemma cold_kernel_fresh: "fresh cold_kernel"
  by (simp add: fresh_def cold_kernel_def waiting_kernel_def)

lemma demo_env_facts:
  "distinct_handlers (en_handlers demo_env)" "unat (sa_FAULT_STACK (en_statics demo_env)) + 16384 < 2 ^ 64"
  unfolding demo_env_simps
  by (rule demo_handlers_distinct, simp add: demo_statics_def)

lemma demo_env_map:
  "map_ok (en_regions demo_env)" "\<forall>f \<in> set (map_frames (en_regions demo_env)). f + 4096 \<le> 2 ^ 52"
  "roomy (en_regions demo_env)"
  unfolding demo_env_simps by (rule heap_map_ok, rule heap_map_low, rule heap_map_roomy)

lemma demo_boot_ok:
  "boot_info_is_valid demo_boot"
  "Some demo_boot = Some info \<Longrightarrow> boot_info_is_valid info \<Longrightarrow> countable_surface (bi_framebuffer info)"
  by (auto simp: demo_boot_def demo_surface_def boot_info_is_valid_def boot_info_new_def frame_buffer_info_new_def
      fb_pixel_format_def pixel_format_from_u32_def pixel_format_as_u32_def countable_surface_def)

theorem kernel_start_brings_up_witness:
  "\<exists>s'. kernel_start demo_machine demo_env (Some demo_boot) cold_kernel = Some (Inr (), s') \<and>
     brought_up fst snd demo_env cold_kernel s'"
  using kernel_start_brings_up [where boot = "Some demo_boot", OF demo_machine_ok cold_kernel_fresh
      demo_env_facts(1,2) demo_env_map(1,2) demo_boot_ok(2)] demo_boot_ok(1) demo_env_map(3) by auto

end
