(* ===== verification/Boot_Abi.thy ===== *)
theory Boot_Abi
  imports Boot_Props
begin

text \<open>
  The handoff as the two binaries see it: bytes at an address. The \<open>#[repr(C)]\<close> structures of
  boot_info/src/lib.rs are laid out field by field, little-endian, in declaration order; the
  bootloader stores them (main.rs, handoff.rs) and the kernel reads them back through the pointer
  in \<open>rdi\<close> (\<open>BootInfo::memory_regions\<close>). The interface of a structure with its bytes is the locale
  \<open>record_layout\<close>: a fixed width, and reading what was written.
\<close>

section \<open>Bytes in memory\<close>

definition store_bytes :: "u64 \<Rightarrow> u8 list \<Rightarrow> byte_memory \<Rightarrow> byte_memory" where
  "store_bytes p bs m = (\<lambda>a. if unat (a - p) < length bs then bs ! unat (a - p) else m a)"

definition load_bytes :: "u64 \<Rightarrow> nat \<Rightarrow> byte_memory \<Rightarrow> u8 list" where
  "load_bytes p n m = map (\<lambda>i. m (p + of_nat i)) [0..<n]"

lemma length_load_bytes [simp]: "length (load_bytes p n m) = n"
  by (simp add: load_bytes_def)

lemma unat_in_range:
  assumes "unat p + n \<le> 2 ^ 64"
  shows "unat ((a :: u64) - p) < n \<longleftrightarrow> unat p \<le> unat a \<and> unat a < unat p + n"
proof (cases "n < 2 ^ 64")
  case True
  then have "unat (of_nat n :: u64) = n" by (simp add: unat_of_nat take_bit_eq_mod)
  then show ?thesis using word_in_range [of p "of_nat n" a] assms by (simp add: word_less_nat_alt)
next
  case False
  then have "n = 2 ^ 64" "unat p = 0" using assms by simp_all
  then show ?thesis by simp
qed

lemma unat_offset:
  assumes "unat (p :: u64) + n \<le> 2 ^ 64" and "i < n"
  shows "unat (p + of_nat i) = unat p + i"
proof -
  have "unat (of_nat i :: u64) = i" using assms by (simp add: unat_of_nat take_bit_eq_mod)
  then show ?thesis using assms unat_add_small [of p "of_nat i"] by simp
qed

lemma store_bytes_outside:
  "unat p + length bs \<le> 2 ^ 64 \<Longrightarrow> \<not> (unat p \<le> unat a \<and> unat a < unat p + length bs) \<Longrightarrow>
    store_bytes p bs m a = m a"
  by (auto simp: store_bytes_def unat_in_range)

lemma load_store_same:
  assumes "unat p + length bs \<le> 2 ^ 64"
  shows "load_bytes p (length bs) (store_bytes p bs m) = bs"
proof (rule nth_equalityI)
  fix i assume "i < length (load_bytes p (length bs) (store_bytes p bs m))"
  then have i: "i < length bs" by simp
  then have "unat (of_nat i :: u64) = i" using assms by (simp add: unat_of_nat take_bit_eq_mod)
  then show "load_bytes p (length bs) (store_bytes p bs m) ! i = bs ! i"
    using i by (simp add: load_bytes_def store_bytes_def)
qed simp

lemma load_store_apart:
  assumes "unat p + length bs \<le> 2 ^ 64" and "unat q + n \<le> 2 ^ 64"
    and "unat p + length bs \<le> unat q \<or> unat q + n \<le> unat p"
  shows "load_bytes q n (store_bytes p bs m) = load_bytes q n m"
  using assms by (auto simp: load_bytes_def unat_offset [OF assms(2)] intro!: store_bytes_outside)

lemma load_bytes_cong:
  assumes "unat q + n \<le> 2 ^ 64" and "\<And>a. unat q \<le> unat a \<Longrightarrow> unat a < unat q + n \<Longrightarrow> m a = m' a"
  shows "load_bytes q n m = load_bytes q n m'"
  using assms by (auto simp: load_bytes_def unat_offset [OF assms(1)])

section \<open>Structures\<close>

locale record_layout =
  fixes enc :: "'r \<Rightarrow> u8 list" and dec :: "u8 list \<Rightarrow> 'r" and width :: nat
  assumes enc_length: "length (enc r) = width"
    and dec_enc: "dec (enc r) = r"
begin

lemma read_back: "unat p + width \<le> 2 ^ 64 \<Longrightarrow> dec (load_bytes p width (store_bytes p (enc r) m)) = r"
  using load_store_same [of p "enc r" m] by (simp add: enc_length dec_enc)

lemma enc_injective: "enc r = enc r' \<Longrightarrow> r = r'"
  by (metis dec_enc)

end

definition frame_buffer_bytes :: "frame_buffer_info \<Rightarrow> u8 list" where
  "frame_buffer_bytes fb = to_le_bytes 8 (fb_addr fb) @ to_le_bytes 8 (fb_size fb) @ to_le_bytes 4 (fb_width fb) @
     to_le_bytes 4 (fb_height fb) @ to_le_bytes 4 (fb_stride fb) @ to_le_bytes 4 (fb_bytes_per_pixel fb) @
     to_le_bytes 4 (fb_pixel_format_raw fb) @ to_le_bytes 4 (fb_pad fb)"

definition frame_buffer_at :: "u8 list \<Rightarrow> frame_buffer_info" where
  "frame_buffer_at bs = \<lparr>fb_addr = le_at bs 0 8, fb_size = le_at bs 8 8, fb_width = le_at bs 16 4,
     fb_height = le_at bs 20 4, fb_stride = le_at bs 24 4, fb_bytes_per_pixel = le_at bs 28 4,
     fb_pixel_format_raw = le_at bs 32 4, fb_pad = le_at bs 36 4\<rparr>"

definition memory_region_bytes :: "memory_region \<Rightarrow> u8 list" where
  "memory_region_bytes r = to_le_bytes 8 (mr_start r) @ to_le_bytes 8 (mr_pages r) @
     to_le_bytes 4 (mr_kind r) @ to_le_bytes 4 (mr_pad r)"

definition memory_region_at :: "u8 list \<Rightarrow> memory_region" where
  "memory_region_at bs = \<lparr>mr_start = le_at bs 0 8, mr_pages = le_at bs 8 8, mr_kind = le_at bs 16 4,
     mr_pad = le_at bs 20 4\<rparr>"

definition boot_info_bytes :: "boot_info \<Rightarrow> u8 list" where
  "boot_info_bytes b = to_le_bytes 8 (bi_magic b) @ to_le_bytes 4 (bi_version b) @ to_le_bytes 4 (bi_pad b) @
     frame_buffer_bytes (bi_framebuffer b) @ to_le_bytes 8 (bi_memory_regions_ptr b) @
     to_le_bytes 8 (bi_memory_regions_len b) @ to_le_bytes 8 (bi_kernel_base b) @ to_le_bytes 8 (bi_kernel_size b)"

definition boot_info_at :: "u8 list \<Rightarrow> boot_info" where
  "boot_info_at bs = \<lparr>bi_magic = le_at bs 0 8, bi_version = le_at bs 8 4, bi_pad = le_at bs 12 4,
     bi_framebuffer = frame_buffer_at (take 40 (drop 16 bs)), bi_memory_regions_ptr = le_at bs 56 8,
     bi_memory_regions_len = le_at bs 64 8, bi_kernel_base = le_at bs 72 8, bi_kernel_size = le_at bs 80 8\<rparr>"

definition MEMORY_REGIONS_LEN_OFFSET :: u64 where "MEMORY_REGIONS_LEN_OFFSET = 64"

interpretation fb_layout: record_layout frame_buffer_bytes frame_buffer_at 40
  by unfold_locales (simp_all add: frame_buffer_bytes_def frame_buffer_at_def le_at_def)

interpretation region_layout: record_layout memory_region_bytes memory_region_at 24
  by unfold_locales (simp_all add: memory_region_bytes_def memory_region_at_def le_at_def)

interpretation boot_info_layout: record_layout boot_info_bytes boot_info_at 88
  by unfold_locales
    (simp_all add: boot_info_bytes_def boot_info_at_def le_at_def fb_layout.enc_length fb_layout.dec_enc)

section \<open>Writing and reading the handoff\<close>

text \<open>The loop of \<open>exit_and_jump\<close> on memory: \<open>regions_ptr.add(count).write(..)\<close>.\<close>

fun write_regions ::
    "u64 \<Rightarrow> usize \<Rightarrow> usize \<Rightarrow> memory_descriptor list \<Rightarrow> byte_memory \<Rightarrow> (byte_memory \<times> usize) run" where
  "write_regions q capacity count [] m = Some (m, count)"
| "write_regions q capacity count (d # ds) m =
     (if capacity \<le> count then Some (m, count)
      else do {
        let m' = store_bytes (q + count * MEMORY_REGION_SIZE)
          (memory_region_bytes (memory_region_new (md_phys_start d) (md_page_count d) (md_ty d))) m;
        count' \<leftarrow> checked_add count 1;
        write_regions q capacity count' ds m'
      })"

text \<open>\<open>main\<close> writes the \<open>BootInfo\<close>; \<open>exit_and_jump\<close> the regions, then \<open>memory_regions_len\<close>.\<close>

definition write_boot_info :: "u64 \<Rightarrow> boot_info \<Rightarrow> byte_memory \<Rightarrow> byte_memory" where
  "write_boot_info p info m = store_bytes p (boot_info_bytes info) m"

definition write_map ::
    "u64 \<Rightarrow> u64 \<Rightarrow> usize \<Rightarrow> memory_descriptor list \<Rightarrow> byte_memory \<Rightarrow> byte_memory run" where
  "write_map p q capacity ds m = do {
     (m, count) \<leftarrow> write_regions q capacity 0 ds m;
     Some (store_bytes (p + MEMORY_REGIONS_LEN_OFFSET) (to_le_bytes 8 count) m)
   }"

text \<open>What the kernel sees: \<open>*boot_info\<close> and \<open>BootInfo::memory_regions\<close>.\<close>

definition read_boot_info :: "u64 \<Rightarrow> byte_memory \<Rightarrow> boot_info" where
  "read_boot_info p m = boot_info_at (load_bytes p 88 m)"

definition memory_regions :: "boot_info \<Rightarrow> byte_memory \<Rightarrow> memory_region list" where
  "memory_regions info m = map (\<lambda>i. memory_region_at (load_bytes (bi_memory_regions_ptr info + of_nat (i * 24)) 24 m))
     [0..<unat (bi_memory_regions_len info)]"

definition region_slot :: "u64 \<Rightarrow> nat \<Rightarrow> byte_memory \<Rightarrow> memory_region" where
  "region_slot q i m = memory_region_at (load_bytes (q + of_nat (i * 24)) 24 m)"

lemma slot_addr:
  assumes "unat (q :: u64) + 24 * capacity \<le> 2 ^ 64" and "i < capacity"
  shows "unat (q + of_nat (i * 24)) = unat q + i * 24"
  by (rule unat_offset [OF assms(1)]) (use assms(2) in simp)

lemma slot_store:
  assumes q: "unat (q :: u64) + 24 * capacity \<le> 2 ^ 64" and "i < capacity" and "j < capacity"
  shows "region_slot q j (store_bytes (q + of_nat (i * 24)) (memory_region_bytes r) m) =
    (if i = j then r else region_slot q j m)"
proof (cases "i = j")
  case True
  have "unat (q + of_nat (i * 24)) + 24 \<le> 2 ^ 64"
    unfolding slot_addr [OF assms(1,2)] using assms(1,2) by simp
  then show ?thesis using True by (simp add: region_slot_def region_layout.read_back)
next
  case False
  then have "i * 24 + 24 \<le> j * 24 \<or> j * 24 + 24 \<le> i * 24" by arith
  moreover have "unat q + (i * 24 + 24) \<le> 2 ^ 64" "unat q + (j * 24 + 24) \<le> 2 ^ 64" using assms by simp_all
  ultimately have "load_bytes (q + of_nat (j * 24)) 24
      (store_bytes (q + of_nat (i * 24)) (memory_region_bytes r) m) = load_bytes (q + of_nat (j * 24)) 24 m"
    by (intro load_store_apart)
      (auto simp only: slot_addr [OF q assms(2)] slot_addr [OF q assms(3)] region_layout.enc_length)
  then show ?thesis using False by (simp add: region_slot_def)
qed

lemma next_count:
  assumes "\<not> capacity \<le> (count :: usize)"
  shows "checked_add count 1 = Some (count + 1)" and "unat (count + 1) = unat count + 1"
    and "unat count < unat capacity"
proof -
  show "unat count < unat capacity" using assms by (simp add: word_le_nat_alt)
  then have "unat count < 18446744073709551615" using unat_u64_bound [of capacity] by linarith
  then show "checked_add count 1 = Some (count + 1)" "unat (count + 1) = unat count + 1"
    using unat_add_small [of count 1] by (simp_all add: checked_add_def)
qed

lemma copy_regions_size:
  "copy_regions capacity count ds = Some (rs, n) \<Longrightarrow> unat n = unat count + length rs \<and>
    (count \<le> capacity \<longrightarrow> unat n \<le> unat capacity)"
proof (induction ds arbitrary: count rs)
  case (Cons d ds)
  show ?case
  proof (cases "capacity \<le> count")
    case False
    then obtain rs' where rs: "copy_regions capacity (count + 1) ds = Some (rs', n)"
      "rs = memory_region_new (md_phys_start d) (md_page_count d) (md_ty d) # rs'"
      using Cons.prems next_count(1) [OF False] by (auto simp: bind_eq_Some_conv simp del: checked_add_Some_iff)
    then show ?thesis using Cons.IH [OF rs(1)] next_count(2,3) [OF False] by (simp add: word_le_nat_alt)
  qed (use Cons.prems in \<open>auto simp: word_le_nat_alt\<close>)
qed (auto simp: word_le_nat_alt)

lemma write_regions_spec:
  assumes "copy_regions capacity count ds = Some (rs, n)" and "count \<le> capacity"
    and q: "unat q + 24 * unat capacity \<le> 2 ^ 64"
  shows "\<exists>m'. write_regions q capacity count ds m = Some (m', n) \<and>
    (\<forall>j < unat capacity. region_slot q j m' =
       (if unat count \<le> j \<and> j < unat count + length rs then rs ! (j - unat count) else region_slot q j m)) \<and>
    (\<forall>a. \<not> (unat q \<le> unat a \<and> unat a < unat q + 24 * unat capacity) \<longrightarrow> m' a = m a)"
  using assms(1,2)
proof (induction ds arbitrary: count rs m)
  case Nil
  then show ?case by auto
next
  case (Cons d ds)
  show ?case
  proof (cases "capacity \<le> count")
    case True
    then show ?thesis using Cons.prems(1) by auto
  next
    case False
    let ?r = "memory_region_new (md_phys_start d) (md_page_count d) (md_ty d)"
    let ?i = "unat count" and ?p = "q + of_nat (unat count * 24)"
    let ?m = "store_bytes ?p (memory_region_bytes ?r) m"
    note i = next_count(3) [OF False]
    note c1 = next_count(1,2) [OF False]
    obtain rs' where rs: "copy_regions capacity (count + 1) ds = Some (rs', n)" "rs = ?r # rs'"
      using Cons.prems(1) False c1(1) by (auto simp: bind_eq_Some_conv simp del: checked_add_Some_iff)
    have "count + 1 \<le> capacity" using i c1(2) by (simp add: word_le_nat_alt)
    from Cons.IH [OF rs(1) this, of ?m] obtain m' where m': "write_regions q capacity (count + 1) ds ?m = Some (m', n)"
      "\<forall>j < unat capacity. region_slot q j m' =
         (if ?i + 1 \<le> j \<and> j < ?i + 1 + length rs' then rs' ! (j - (?i + 1)) else region_slot q j ?m)"
      "\<forall>a. \<not> (unat q \<le> unat a \<and> unat a < unat q + 24 * unat capacity) \<longrightarrow> m' a = ?m a"
      unfolding c1(2) by blast
    have "q + count * MEMORY_REGION_SIZE = ?p" by (simp add: MEMORY_REGION_SIZE_def)
    then have "write_regions q capacity count (d # ds) m = Some (m', n)"
      using False c1(1) m'(1) by (simp del: checked_add_Some_iff)
    moreover have "region_slot q j m' =
        (if ?i \<le> j \<and> j < ?i + length rs then rs ! (j - ?i) else region_slot q j m)" if "j < unat capacity" for j
      using m'(2) that slot_store [OF q i that, of ?r m] rs(2) by (auto simp: nth_Cons' not_less le_Suc_eq)
    moreover have "m' a = m a" if "\<not> (unat q \<le> unat a \<and> unat a < unat q + 24 * unat capacity)" for a
    proof -
      have "unat ?p = unat q + ?i * 24" by (rule slot_addr [OF q i])
      then have "?m a = m a"
        using that i q by (intro store_bytes_outside) (auto simp: region_layout.enc_length)
      then show ?thesis using m'(3) that by simp
    qed
    ultimately show ?thesis by blast
  qed
qed

text \<open>The field \<open>memory_regions_len\<close> alone, and what surrounds it.\<close>

lemma set_len_field:
  assumes p: "unat p + 88 \<le> 2 ^ 64"
  shows "read_boot_info p (store_bytes (p + MEMORY_REGIONS_LEN_OFFSET) (to_le_bytes 8 n) m) =
    (read_boot_info p m)\<lparr>bi_memory_regions_len := n\<rparr>"
proof -
  let ?q = "p + MEMORY_REGIONS_LEN_OFFSET"
  let ?m = "store_bytes ?q (to_le_bytes 8 n) m"
  have q: "unat ?q = unat p + 64" using unat_offset [OF p, of 64] by (simp add: MEMORY_REGIONS_LEN_OFFSET_def)
  have byte: "?m (p + of_nat i) = (if 64 \<le> i \<and> i < 72 then to_le_bytes 8 n ! (i - 64) else m (p + of_nat i))"
    if "i < 88" for i
  proof -
    have a: "unat (p + of_nat i) = unat p + i" by (rule unat_offset [OF p that])
    show ?thesis
    proof (cases "64 \<le> i \<and> i < 72")
      case True
      then have "p + of_nat i - ?q = of_nat (i - 64)" by (simp add: MEMORY_REGIONS_LEN_OFFSET_def of_nat_diff)
      moreover have "unat (of_nat (i - 64) :: u64) = i - 64" using that by (simp add: unat_of_nat take_bit_eq_mod)
      moreover have "i - 64 < 8" using True by arith
      ultimately show ?thesis using True by (simp add: store_bytes_def)
    next
      case False
      then show ?thesis using a q p by (auto intro!: store_bytes_outside)
    qed
  qed
  have all: "load_bytes p 88 ?m = take 64 (load_bytes p 88 m) @ to_le_bytes 8 n @ drop 72 (load_bytes p 88 m)"
  proof (rule nth_equalityI)
    fix i assume "i < length (load_bytes p 88 ?m)"
    then show "load_bytes p 88 ?m ! i = (take 64 (load_bytes p 88 m) @ to_le_bytes 8 n @ drop 72 (load_bytes p 88 m)) ! i"
      using byte [of i] by (auto simp: load_bytes_def nth_append)
  qed simp
  have field: "le_at (take 64 bs @ ys @ drop 72 bs) off k = (le_at bs off k :: 'w::len word)"
    if "length bs = 88" "length ys = 8" "off + k \<le> 64 \<or> 72 \<le> off" for bs ys :: "u8 list" and off k
  proof (cases "72 \<le> off")
    case True
    then have "drop off (take 64 bs @ ys @ drop 72 bs) = drop off bs" using that(1,2) by simp
    then show ?thesis by (simp add: le_at_def)
  next
    case False
    then have off: "off \<le> 64" "k \<le> 64 - off" using that(3) by arith+
    then have "drop off (take 64 bs @ ys @ drop 72 bs) = take (64 - off) (drop off bs) @ ys @ drop 72 bs"
      using that(1) by (simp add: drop_take)
    then have "take k (drop off (take 64 bs @ ys @ drop 72 bs)) = take k (drop off bs)"
      using off that(1) by simp
    then show ?thesis by (simp add: le_at_def)
  qed
  have fb: "take 40 (drop 16 (take 64 bs)) = take 40 (drop 16 bs)" for bs :: "u8 list"
    by (simp add: drop_take)
  have len: "le_at (take 64 bs @ to_le_bytes 8 n @ ys) 64 8 = n" if "length bs = 88" for bs ys
    using that by (simp add: le_at_def)
  show ?thesis
    unfolding read_boot_info_def all by (simp add: boot_info_at_def field fb len)
qed

section \<open>Storing and reading the handoff\<close>

lemma handoff_memory:
  assumes "unat p + 88 \<le> 2 ^ 64" and "unat q + 8184 \<le> 2 ^ 64"
    and "unat p + 88 \<le> unat q \<or> unat q + 8184 \<le> unat p"
    and "exit_and_jump u p info 341 entry rsp w = Some h" and "bi_memory_regions_ptr info = q"
  shows "\<exists>m'. write_map p q 341 (uf_exit_boot_services u w) (write_boot_info p info m) = Some m' \<and>
    read_boot_info (ho_rdi h) m' = ho_boot_info h \<and> memory_regions (ho_boot_info h) m' = ho_regions h \<and>
    (\<forall>a. \<not> (unat p \<le> unat a \<and> unat a < unat p + 88) \<and> \<not> (unat q \<le> unat a \<and> unat a < unat q + 8184) \<longrightarrow>
       m' a = m a)"
proof -
  let ?ds = "uf_exit_boot_services u w"
  obtain rs n where c: "copy_regions 341 0 ?ds = Some (rs, n)"
    and h: "ho_rdi h = p" "ho_boot_info h = info\<lparr>bi_memory_regions_len := n\<rparr>" "ho_regions h = rs"
    using assms(4) by (auto simp: exit_and_jump_def bind_eq_Some_conv)
  let ?m0 = "store_bytes p (boot_info_bytes info) m"
  have cap: "unat q + 24 * unat (341 :: usize) \<le> 2 ^ 64" using assms(2) by simp
  obtain m1 where m1: "write_regions q 341 0 ?ds ?m0 = Some (m1, n)"
    "\<forall>j < 341. region_slot q j m1 = (if j < length rs then rs ! j else region_slot q j ?m0)"
    "\<forall>a. \<not> (unat q \<le> unat a \<and> unat a < unat q + 8184) \<longrightarrow> m1 a = ?m0 a"
    using write_regions_spec [OF c _ cap, of ?m0] by auto
  have size: "unat n = length rs" "length rs \<le> 341" using copy_regions_size [OF c] by simp_all
  let ?m2 = "store_bytes (p + MEMORY_REGIONS_LEN_OFFSET) (to_le_bytes 8 n) m1"
  have run: "write_map p q 341 ?ds (write_boot_info p info m) = Some ?m2"
    by (simp add: write_map_def write_boot_info_def m1(1))
  have pq: "unat (p + MEMORY_REGIONS_LEN_OFFSET) = unat p + 64"
    using unat_offset [OF assms(1), of 64] by (simp add: MEMORY_REGIONS_LEN_OFFSET_def)
  have "load_bytes p 88 m1 = load_bytes p 88 ?m0"
    by (rule load_bytes_cong [OF assms(1)]) (use m1(3) assms(3) in auto)
  then have "read_boot_info p m1 = info"
    using boot_info_layout.read_back [OF assms(1), of info m] by (simp add: read_boot_info_def)
  then have info: "read_boot_info p ?m2 = info\<lparr>bi_memory_regions_len := n\<rparr>"
    by (simp add: set_len_field [OF assms(1)])
  have slot: "region_slot q j ?m2 = rs ! j" if "j < length rs" for j
  proof -
    have j: "j < unat (341 :: usize)" using that size(2) by simp
    have "load_bytes (q + of_nat (j * 24)) 24 ?m2 = load_bytes (q + of_nat (j * 24)) 24 m1"
      by (rule load_store_apart) (use slot_addr [OF cap j] j assms(1-3) pq in auto)
    then show ?thesis using m1(2) j that by (simp add: region_slot_def)
  qed
  have "memory_regions (ho_boot_info h) ?m2 = map (\<lambda>j. region_slot q j ?m2) [0..<length rs]"
    by (simp add: memory_regions_def region_slot_def h(2) size(1) assms(5))
  also have "\<dots> = rs" by (rule nth_equalityI) (simp_all add: slot)
  finally have regions: "memory_regions (ho_boot_info h) ?m2 = ho_regions h" using h(3) by simp
  have "?m2 a = m a" if "\<not> (unat p \<le> unat a \<and> unat a < unat p + 88)"
    and "\<not> (unat q \<le> unat a \<and> unat a < unat q + 8184)" for a
  proof -
    have "?m2 a = m1 a" using that(1) pq assms(1) by (intro store_bytes_outside) auto
    also have "\<dots> = ?m0 a" using m1(3) that(2) by blast
    also have "\<dots> = m a"
      using that(1) assms(1) by (intro store_bytes_outside) (simp_all add: boot_info_layout.enc_length)
    finally show ?thesis .
  qed
  then show ?thesis using run info regions h(1,2) by auto
qed

section \<open>Property\<close>

text \<open>
  C17. The handoff through memory: with a page for the \<open>BootInfo\<close> and two apart from it for the
  regions, the stores of the bootloader leave, for the kernel reading through \<open>rdi\<close>, exactly the
  \<open>BootInfo\<close> and the regions \<open>exit_and_jump\<close> describes, at the 88 and 24 bytes the crate asserts;
  no byte outside the structure and the array changes, so neither the loaded image nor the stack
  is touched.
\<close>

theorem handoff_through_memory:
  assumes "unat p + 88 \<le> 2 ^ 64" and "unat q + 8184 \<le> 2 ^ 64"
    and "unat p + 88 \<le> unat q \<or> unat q + 8184 \<le> unat p"
    and "exit_and_jump u p info 341 entry rsp w = Some h" and "bi_memory_regions_ptr info = q"
  shows "\<exists>m'. write_map p q 341 (uf_exit_boot_services u w) (write_boot_info p info m) = Some m' \<and>
    read_boot_info (ho_rdi h) m' = ho_boot_info h \<and> memory_regions (ho_boot_info h) m' = ho_regions h \<and>
    (\<forall>a. \<not> (unat p \<le> unat a \<and> unat a < unat p + 88) \<and> \<not> (unat q \<le> unat a \<and> unat a < unat q + 8184) \<longrightarrow>
       m' a = m a)"
  by (rule handoff_memory [OF assms])

definition handed_info :: boot_info where
  "handed_info = boot_info_new (frame_buffer_info_new 0x80000000 0x300000 1024 768 1024 4 Bgr) 0x401000 0 0x200000 0x8000"

theorem handoff_through_memory_witness:
  "\<exists>h m'. exit_and_jump demo_uefi 0x400000 handed_info 341 0x200000 0x50fff8 ([], 0) = Some h \<and>
     write_map 0x400000 0x401000 341 (uf_exit_boot_services demo_uefi ([], 0)) (write_boot_info 0x400000 handed_info (\<lambda>_. 0)) = Some m' \<and>
     read_boot_info 0x400000 m' = handed_info\<lparr>bi_memory_regions_len := 1\<rparr> \<and>
     memory_regions (handed_info\<lparr>bi_memory_regions_len := 1\<rparr>) m' = [memory_region_new 0x100000 300 7]"
proof -
  obtain h where h: "exit_and_jump demo_uefi 0x400000 handed_info 341 0x200000 0x50fff8 ([], 0) = Some h"
    "ho_rdi h = 0x400000" "ho_boot_info h = handed_info\<lparr>bi_memory_regions_len := 1\<rparr>"
    "ho_regions h = [memory_region_new 0x100000 300 7]"
    by (simp add: exit_and_jump_def demo_uefi_def checked_add_def)
  have "bi_memory_regions_ptr handed_info = 0x401000" by (simp add: handed_info_def boot_info_new_def)
  from handoff_through_memory [OF _ _ _ h(1) this, of "\<lambda>_. 0"] show ?thesis
    using h unfolding h(2-4) by fastforce
qed

end
