(* ===== verification/Boot_Chain.thy ===== *)
theory Boot_Chain
  imports Kernel_Start Boot_Abi
begin

text \<open>
  The whole chain: what \<open>boot_main\<close> hands over is what \<open>kernel_start\<close> needs, and from the state
  the bring-up ends in the wait runs on under every schedule of interrupts.
\<close>

section \<open>What the kernel needs of the firmware's map and mode\<close>

definition region_of :: "memory_descriptor \<Rightarrow> memory_region" where
  "region_of d = memory_region_new (md_phys_start d) (md_page_count d) (md_ty d)"

text \<open>
  The UEFI memory map does not list a page twice and stays below the 52 bits of a physical
  address, and the pixels of a graphics mode can be counted in bytes.
\<close>

definition map_sound :: "'w uefi \<Rightarrow> bool" where
  "map_sound u \<longleftrightarrow> (\<forall>w. let rs = map region_of (uf_exit_boot_services u w) in
     map_ok rs \<and> (\<forall>f \<in> set (map_frames rs). f + 4096 \<le> 2 ^ 52))"

definition modes_sound :: "'w uefi \<Rightarrow> bool" where
  "modes_sound u \<longleftrightarrow> (\<forall>w mode w'. uf_gop_open u w = (Inr mode, w') \<longrightarrow>
     unat (gop_height mode) * unat (gop_stride mode) + unat (gop_width mode) < 2 ^ 61)"

lemma runs_of_append: "runs_of (rs @ rs') = runs_of rs @ runs_of rs'"
  by (induction rs) (simp_all add: runs_of_Cons split: option.split)

lemma map_frames_append: "map_frames (rs @ rs') = map_frames rs @ map_frames rs'"
  by (simp add: map_frames_def runs_of_append)

lemma map_sound_take:
  assumes "map_sound u"
  shows "map_ok (map region_of (take n (uf_exit_boot_services u w)))"
    and "\<forall>f \<in> set (map_frames (map region_of (take n (uf_exit_boot_services u w)))). f + 4096 \<le> 2 ^ 52"
proof -
  let ?ds = "uf_exit_boot_services u w"
  have "map region_of ?ds = map region_of (take n ?ds) @ map region_of (drop n ?ds)"
    by (simp flip: map_append)
  then have eq: "map_frames (map region_of ?ds) =
      map_frames (map region_of (take n ?ds)) @ map_frames (map region_of (drop n ?ds))"
    by (simp only: map_frames_append)
  have all: "map_ok (map region_of ?ds)" "\<forall>f \<in> set (map_frames (map region_of ?ds)). f + 4096 \<le> 2 ^ 52"
    using assms [unfolded map_sound_def Let_def, rule_format, of w] by blast+
  show "map_ok (map region_of (take n ?ds))"
    using all(1) unfolding map_ok_def eq by simp
  show "\<forall>f \<in> set (map_frames (map region_of (take n ?ds))). f + 4096 \<le> 2 ^ 52"
    using all(2) unfolding eq by simp
qed

lemma unat_ucast_le: "unat (ucast (x :: u64) :: u32) \<le> unat x"
  by (simp add: unsigned_ucast_eq take_bit_eq_mod)

lemma framebuffer_countable:
  assumes "modes_sound u" and "open_framebuffer u w = (Inr fb, w')"
  shows "countable_surface fb"
proof -
  obtain r1 v1 where 1: "uf_gop_handle u w = (r1, v1)" by fastforce
  obtain r2 v2 where 2: "uf_gop_open u v1 = (r2, v2)" by fastforce
  obtain x where "r1 = Inr x" using assms(2) 1 by (cases r1) (auto simp: open_framebuffer_def try_fw_def)
  moreover obtain mode where mode: "r2 = Inr mode"
    using assms(2) 1 2 calculation by (cases r2) (auto simp: open_framebuffer_def try_fw_def)
  ultimately have "unat (fb_height fb) \<le> unat (gop_height mode) \<and> unat (fb_stride fb) \<le> unat (gop_stride mode) \<and>
      unat (fb_width fb) \<le> unat (gop_width mode)"
    using assms(2) 1 2
    by (cases "gop_format mode") (auto simp: open_framebuffer_def try_fw_def frame_buffer_info_new_def unat_ucast_le)
  then have "unat (fb_height fb) * unat (fb_stride fb) + unat (fb_width fb) \<le>
      unat (gop_height mode) * unat (gop_stride mode) + unat (gop_width mode)"
    by (intro add_mono mult_le_mono) simp_all
  then show ?thesis using assms(1) 2 mode unfolding modes_sound_def countable_surface_def by fastforce
qed

section \<open>What the kernel finds in memory\<close>

text \<open>
  The firmware grants pages it has not granted before, and never the null page (the pointer is a
  \<open>NonNull\<close>).
\<close>

definition pages_apart :: "'w uefi \<Rightarrow> bool" where
  "pages_apart u \<longleftrightarrow> (\<forall>w q w1 b w2 p w3. uf_any_pages u 2 w = (Inr q, w1) \<longrightarrow>
     uf_any_pages u KERNEL_STACK_PAGES w1 = (Inr b, w2) \<longrightarrow> uf_any_pages u 1 w2 = (Inr p, w3) \<longrightarrow>
     p \<noteq> 0 \<and> (unat p + 4096 \<le> unat q \<or> unat q + 8192 \<le> unat p))"

text \<open>
  \<open>m'\<close> is what the bootloader's stores leave of the memory \<open>m\<close>, and \<open>boot_argument\<close> is the argument
  of the kernel's \<open>_start\<close>: the structure behind the pointer in \<open>rdi\<close>.
\<close>

definition handoff_memory_of :: "'w uefi \<Rightarrow> handoff \<Rightarrow> byte_memory \<Rightarrow> byte_memory \<Rightarrow> bool" where
  "handoff_memory_of u h m m' \<longleftrightarrow> (\<exists>w.
     write_map (ho_rdi h) (bi_memory_regions_ptr (ho_boot_info h)) 341 (uf_exit_boot_services u w)
       (write_boot_info (ho_rdi h) ((ho_boot_info h)\<lparr>bi_memory_regions_len := 0\<rparr>) m) = Some m')"

definition boot_argument :: "u64 \<Rightarrow> byte_memory \<Rightarrow> boot_info option" where
  "boot_argument rdi m = (if rdi = 0 then None else Some (read_boot_info rdi m))"

lemma region_array_grant:
  assumes "allocate_region_array u REGION_CAPACITY w = Some (Inr (q, c), w')"
  shows "c = 341 \<and> uf_any_pages u 2 w = (Inr q, w')"
  using region_array [of u w] assms by (auto split: prod.splits sum.splits)

lemma kernel_stack_grant:
  assumes "allocate_kernel_stack u w = Some (Inr rsp, w')"
  shows "\<exists>b. uf_any_pages u KERNEL_STACK_PAGES w = (Inr b, w')"
  using assms by (auto simp: allocate_kernel_stack_def bind_eq_Some_conv split: prod.splits sum.splits)

text \<open>What a boot that reaches the kernel took from the firmware.\<close>

lemma boot_main_jump:
  assumes "boot_main u grants w st = Some (Jump h, st')"
  obtains fb and k :: loaded_kernel and w0 q w1 b w2 p w3 rsp where "uf_any_pages u 2 w0 = (Inr q, w1)"
    and "uf_any_pages u KERNEL_STACK_PAGES w1 = (Inr b, w2)" and "uf_any_pages u 1 w2 = (Inr p, w3)"
    and "exit_and_jump u p (boot_info_new fb q 0 (lk_base k) (lk_size k)) 341 (lk_entry k) rsp w3 = Some h"
proof -
  obtain ok v1 where init: "uf_init u w = (ok, v1)" by fastforce
  obtain f v2 where fil: "read_file u v1 = (f, v2)" by fastforce
  obtain img where img: "ok" "f = Inr img" using assms init fil by (cases ok; cases f) (auto simp: boot_main_def)
  obtain r st1 where lk: "load_kernel grants img st = Some (r, st1)"
    using assms init fil img by (cases "load_kernel grants img st") (auto simp: boot_main_def)
  obtain k where k: "r = Inr k" using assms init fil img lk by (cases r) (auto simp: boot_main_def)
  obtain g v3 where fb: "open_framebuffer u v2 = (g, v3)" by fastforce
  obtain fbi where g: "g = Inr fbi" using assms init fil img lk k fb by (cases g) (auto simp: boot_main_def)
  obtain ra v4 where ra: "allocate_region_array u REGION_CAPACITY v3 = Some (ra, v4)"
    using assms init fil img lk k fb g by (cases "allocate_region_array u REGION_CAPACITY v3") (auto simp: boot_main_def)
  obtain q c where q: "ra = Inr (q, c)" using assms init fil img lk k fb g ra by (cases ra) (auto simp: boot_main_def)
  obtain sk v5 where sk: "allocate_kernel_stack u v4 = Some (sk, v5)"
    using assms init fil img lk k fb g ra q by (cases "allocate_kernel_stack u v4") (auto simp: boot_main_def)
  obtain rsp where rsp: "sk = Inr rsp" using assms init fil img lk k fb g ra q sk by (cases sk) (auto simp: boot_main_def)
  obtain pg v6 where pg: "uf_any_pages u 1 v5 = (pg, v6)" by fastforce
  obtain p where p: "pg = Inr p" using assms init fil img lk k fb g ra q sk rsp pg by (cases pg) (auto simp: boot_main_def)
  have "exit_and_jump u p (boot_info_new fbi q 0 (lk_base k) (lk_size k)) c (lk_entry k) rsp v6 = Some h"
    using assms init fil img lk k fb g ra q sk rsp pg p by (auto simp: boot_main_def bind_eq_Some_conv)
  moreover obtain b where "uf_any_pages u KERNEL_STACK_PAGES v4 = (Inr b, v5)"
    using kernel_stack_grant [OF sk [unfolded rsp]] by blast
  moreover have "c = 341" "uf_any_pages u 2 v3 = (Inr q, v4)" using region_array_grant [OF ra [unfolded q]] by simp_all
  ultimately show thesis using that [of v3 q v4 b v5 p v6 fbi k rsp] pg p by simp
qed

lemma boot_main_memory:
  assumes "pages_ok u" and "pages_apart u" and "boot_main u grants w st = Some (Jump h, st')"
  shows "\<exists>m'. handoff_memory_of u h m m' \<and> boot_argument (ho_rdi h) m' = Some (ho_boot_info h) \<and>
    memory_regions (ho_boot_info h) m' = ho_regions h"
proof -
  obtain fb and k :: loaded_kernel and w0 q w1 b w2 p w3 rsp where g: "uf_any_pages u 2 w0 = (Inr q, w1)"
    "uf_any_pages u KERNEL_STACK_PAGES w1 = (Inr b, w2)" "uf_any_pages u 1 w2 = (Inr p, w3)"
    and h: "exit_and_jump u p (boot_info_new fb q 0 (lk_base k) (lk_size k)) 341 (lk_entry k) rsp w3 = Some h"
    by (rule boot_main_jump [OF assms(3)])
  have apart: "p \<noteq> 0" "unat p + 4096 \<le> unat q \<or> unat q + 8192 \<le> unat p"
    using assms(2) g unfolding pages_apart_def by blast+
  have "unat q + 4096 * unat (2 :: usize) < 2 ^ 64" "unat p + 4096 * unat (1 :: usize) < 2 ^ 64"
    using assms(1) g(1,3) unfolding pages_ok_def by blast+
  then have bounds: "unat p + 88 \<le> 2 ^ 64" "unat q + 8184 \<le> 2 ^ 64" "unat p + 88 \<le> unat q \<or> unat q + 8184 \<le> unat p"
    using apart(2) by auto
  have ptr: "bi_memory_regions_ptr (boot_info_new fb q 0 (lk_base k) (lk_size k)) = q"
    by (simp add: boot_info_new_def)
  have to: "ho_rdi h = p" "bi_memory_regions_ptr (ho_boot_info h) = q"
    "(ho_boot_info h)\<lparr>bi_memory_regions_len := 0\<rparr> = boot_info_new fb q 0 (lk_base k) (lk_size k)"
    using h ptr by (auto simp: exit_and_jump_def bind_eq_Some_conv boot_info_new_def)
  obtain m' where m': "write_map p q 341 (uf_exit_boot_services u w3) (write_boot_info p (boot_info_new fb q 0 (lk_base k) (lk_size k)) m) = Some m'"
    "read_boot_info (ho_rdi h) m' = ho_boot_info h" "memory_regions (ho_boot_info h) m' = ho_regions h"
    using handoff_memory [OF bounds h ptr, of m] by blast
  have "handoff_memory_of u h m m'"
    unfolding handoff_memory_of_def to using m'(1) by blast
  then show ?thesis using m'(2,3) apart(1) to(1) unfolding boot_argument_def by auto
qed

section \<open>The kernel on what it finds\<close>

lemma kernel_takes_handoff:
  fixes s :: "('d, 'a) kernel_scheme"
  assumes "map_sound u" and "modes_sound u" and "machine_ok p uart pics" and "fresh s"
    and "distinct_handlers (en_handlers env)" and "unat (sa_FAULT_STACK (en_statics env)) + 16384 < 2 ^ 64"
    and "handoff_ok u k h"
  shows "\<exists>out s'. kernel_start p (env\<lparr>en_regions := ho_regions h\<rparr>) (Some (ho_boot_info h)) s = Some (out, s') \<and>
    (case out of Inl code \<Rightarrow> code = exit_code.Failed \<and> \<not> roomy (ho_regions h)
     | Inr _ \<Rightarrow> brought_up uart pics (env\<lparr>en_regions := ho_regions h\<rparr>) s s')"
proof -
  obtain v where regions: "ho_regions h = map region_of (take 341 (uf_exit_boot_services u v))"
    using assms(7) by (auto simp: handoff_ok_def region_of_def [abs_def])
  have valid: "boot_info_is_valid (ho_boot_info h)" using assms(7) by (simp add: handoff_ok_def)
  have fb: "countable_surface (bi_framebuffer (ho_boot_info h))"
    using assms(7) framebuffer_countable [OF assms(2)] by (auto simp: handoff_ok_def)
  let ?env = "env\<lparr>en_regions := ho_regions h\<rparr>"
  have map: "map_ok (en_regions ?env)" "\<forall>f \<in> set (map_frames (en_regions ?env)). f + 4096 \<le> 2 ^ 52"
    using map_sound_take [OF assms(1)] by (simp_all add: regions)
  obtain out s' where "kernel_start p ?env (Some (ho_boot_info h)) s = Some (out, s')"
    "case out of Inl code \<Rightarrow> code = exit_code.Failed | Inr _ \<Rightarrow> brought_up uart pics ?env s s'"
    "roomy (en_regions ?env) \<longrightarrow> out = Inr ()"
    using kernel_start_runs [where boot = "Some (ho_boot_info h)" and env = ?env, OF assms(3,4) _ _ map]
      assms(5,6) fb valid by auto
  then show ?thesis by (auto split: sum.splits)
qed

lemma wait_verdicts:
  assumes "machine_ok p uart pics" and "distinct_handlers (en_handlers env)"
    and "brought_up uart pics env' s s'" and "en_handlers env' = en_handlers env" and es: "length es + 1000 < 2 ^ 64"
  shows "\<exists>pc s''. run_schedule p (en_handlers env) es (Loop_Ticks, s') = Some (pc, s'') \<and>
    (pc = Done exit_code.Success \<longrightarrow> 100 \<le> unat (ks_TICKS s'') \<and> 0 < unat (ks_KEY_EVENTS_SEEN s'')) \<and>
    (pc = Done exit_code.Failed \<longrightarrow> 1100 < unat (ks_TICKS s''))"
proof -
  have s': "running uart (en_handlers env) s'" "ks_TICKS s' = 0" "ks_KEY_EVENTS_SEEN s' = 0"
    using assms(3,4) by (simp_all add: brought_up_def)
  obtain pc s'' where run: "run_schedule p (en_handlers env) es (Loop_Ticks, s') = Some (pc, s'')"
    using run_schedule_total [OF assms(1,2) s'(1), of es Loop_Ticks] s'(2,3) es by auto
  have "if_set s'" using s'(1) by (simp add: running_def)
  from run_schedule_reach [OF run reach.start this] have "wait_ok (pc, s'')" using reach_inv by fastforce
  then show ?thesis using run by auto
qed

section \<open>Property\<close>

text \<open>
  C3. The boot chain from power-on to the wait: the bootloader exits with the failure code or
  enters the kernel, and the \<open>BootInfo\<close> and memory map the kernel finds behind the pointer it is
  given are such that it never rejects them: it fails only when the map has no run of 260 frames, and
  otherwise arrives at the wait, where no schedule of program steps and interrupts makes it panic,
  fault or hang in a print, and where it reports success only after 100 ticks and a key, failure only
  after 1100 ticks.
\<close>

theorem boot_chain_sound:
  fixes s :: "('d, 'a) kernel_scheme"
  assumes "fw_ok grants" and "pages_ok u" and "pages_apart u" and "map_sound u" and "modes_sound u"
    and "\<forall>img w'. read_file u (snd (uf_init u w)) = (Inr img, w') \<longrightarrow> length img < 2 ^ 63"
    and "\<forall>w. length (uf_exit_boot_services u w) < 2 ^ 63"
    and "machine_ok p uart pics" and "fresh s" and "distinct_handlers (en_handlers env)"
    and "unat (sa_FAULT_STACK (en_statics env)) + 16384 < 2 ^ 64"
  shows "\<exists>r st'. boot_main u grants w st = Some (r, st') \<and>
    (r = Exit qemu_exit_code.Failed \<or>
     (\<exists>h m' out s'. r = Jump h \<and> handoff_memory_of u h m m' \<and>
        (let rs = memory_regions (read_boot_info (ho_rdi h) m') m'; env' = env\<lparr>en_regions := rs\<rparr> in
         rs = ho_regions h \<and> kernel_start p env' (boot_argument (ho_rdi h) m') s = Some (out, s') \<and>
         (case out of
            Inl code \<Rightarrow> code = exit_code.Failed \<and> \<not> roomy rs
          | Inr _ \<Rightarrow> brought_up uart pics env' s s' \<and>
              (\<forall>es. length es + 1000 < 2 ^ 64 \<longrightarrow>
                (\<exists>pc s''. run_schedule p (en_handlers env) es (Loop_Ticks, s') = Some (pc, s'') \<and>
                   (pc = Done exit_code.Success \<longrightarrow> 100 \<le> unat (ks_TICKS s'') \<and> 0 < unat (ks_KEY_EVENTS_SEEN s'')) \<and>
                   (pc = Done exit_code.Failed \<longrightarrow> 1100 < unat (ks_TICKS s''))))))))"
proof -
  obtain r st' where bl: "boot_main u grants w st = Some (r, st')"
    "r = Exit qemu_exit_code.Failed \<or> (\<exists>h k. r = Jump h \<and> handoff_ok u k h)"
    using boot_main_ok [OF assms(1,2,6,7)] by blast
  show ?thesis
  proof (cases "r = Exit qemu_exit_code.Failed")
    case False
    then obtain h k where h: "r = Jump h" "handoff_ok u k h" using bl(2) by blast
    obtain m' where m': "handoff_memory_of u h m m'" "boot_argument (ho_rdi h) m' = Some (ho_boot_info h)"
      "memory_regions (ho_boot_info h) m' = ho_regions h"
      using boot_main_memory [OF assms(2,3) bl(1) [unfolded h(1)]] by blast
    have read: "read_boot_info (ho_rdi h) m' = ho_boot_info h"
      using m'(2) by (simp add: boot_argument_def split: if_splits)
    let ?env = "env\<lparr>en_regions := ho_regions h\<rparr>"
    obtain out s' where k: "kernel_start p ?env (Some (ho_boot_info h)) s = Some (out, s')"
      "case out of Inl code \<Rightarrow> code = exit_code.Failed \<and> \<not> roomy (ho_regions h)
       | Inr _ \<Rightarrow> brought_up uart pics ?env s s'"
      using kernel_takes_handoff [OF assms(4,5,8-11) h(2)] by blast
    have "case out of Inl _ \<Rightarrow> True | Inr _ \<Rightarrow> \<forall>es. length es + 1000 < 2 ^ 64 \<longrightarrow>
        (\<exists>pc s''. run_schedule p (en_handlers env) es (Loop_Ticks, s') = Some (pc, s'') \<and>
          (pc = Done exit_code.Success \<longrightarrow> 100 \<le> unat (ks_TICKS s'') \<and> 0 < unat (ks_KEY_EVENTS_SEEN s'')) \<and>
          (pc = Done exit_code.Failed \<longrightarrow> 1100 < unat (ks_TICKS s'')))"
      using wait_verdicts [OF assms(8,10)] k(2) by (fastforce split: sum.splits)
    then show ?thesis
      unfolding Let_def using bl(1) h(1) m' k read
      by (intro exI [of _ r] exI [of _ st'] conjI disjI2 exI [of _ h] exI [of _ m'] exI [of _ out] exI [of _ s'])
        (simp_all split: sum.splits)
  qed (use bl(1) in blast)
qed

lemma demo_apart: "pages_apart demo_uefi"
  by (auto simp: pages_apart_def demo_uefi_def)

lemma demo_boots:
  "read_file demo_uefi (snd (uf_init demo_uefi (demo_image, 0x300000))) = (Inr img, w') \<Longrightarrow> length img < 2 ^ 63"
  "length (uf_exit_boot_services demo_uefi w) < 2 ^ 63" "map_sound demo_uefi" "modes_sound demo_uefi"
  "\<exists>h st'. boot_main demo_uefi demo_fw (demo_image, 0x300000) demo_load = Some (Jump h, st') \<and> ho_regions h = heap_map"
proof -
  have "fst (read_file demo_uefi (demo_image, 0x300000)) = Inr demo_image" by code_simp
  then show "read_file demo_uefi (snd (uf_init demo_uefi (demo_image, 0x300000))) = (Inr img, w') \<Longrightarrow> length img < 2 ^ 63"
    using demo_image_short by (auto simp: demo_uefi_def)
  show "length (uf_exit_boot_services demo_uefi w) < 2 ^ 63" by (simp add: demo_uefi_def)
  have "map region_of (uf_exit_boot_services demo_uefi w) = heap_map" for w
    by (simp add: demo_uefi_def region_of_def heap_map_def CONVENTIONAL_def)
  then show "map_sound demo_uefi" using heap_map_ok heap_map_low by (simp add: map_sound_def Let_def)
  show "modes_sound demo_uefi" by (auto simp: modes_sound_def demo_uefi_def)
  have "case boot_main demo_uefi demo_fw (demo_image, 0x300000) demo_load of
      Some (Jump h, _) \<Rightarrow> ho_regions h = heap_map | _ \<Rightarrow> False" by code_simp
  then show "\<exists>h st'. boot_main demo_uefi demo_fw (demo_image, 0x300000) demo_load = Some (Jump h, st') \<and> ho_regions h = heap_map"
    by (auto split: option.splits boot_outcome.splits)
qed

theorem boot_chain_sound_witness:
  "\<exists>h st' m' s' pc s''. boot_main demo_uefi demo_fw (demo_image, 0x300000) demo_load = Some (Jump h, st') \<and>
     kernel_start demo_machine (demo_env\<lparr>en_regions := memory_regions (read_boot_info (ho_rdi h) m') m'\<rparr>)
       (boot_argument (ho_rdi h) m') cold_kernel = Some (Inr (), s') \<and> ks_TICKS s' = 0 \<and>
     run_schedule demo_machine demo_handlers [Timer_irq demo_frame, Program, Key_irq demo_frame] (Loop_Ticks, s') =
       Some (pc, s'')"
proof -
  have vec: "\<forall>img w'. read_file demo_uefi (snd (uf_init demo_uefi (demo_image, 0x300000))) = (Inr img, w') \<longrightarrow> length img < 2 ^ 63"
    using demo_boots(1) by blast
  have descs: "\<forall>w. length (uf_exit_boot_services demo_uefi w) < 2 ^ 63" using demo_boots(2) by blast
  note chain = boot_chain_sound [where st = demo_load and m = "\<lambda>_. 0", OF demo_fw_ok demo_pages demo_apart demo_boots(3,4)
      vec descs demo_machine_ok cold_kernel_fresh demo_env_facts]
  obtain h st' where h: "boot_main demo_uefi demo_fw (demo_image, 0x300000) demo_load = Some (Jump h, st')"
    "ho_regions h = heap_map" using demo_boots(5) by blast
  let ?out = "\<lambda>m' out s'. kernel_start demo_machine (demo_env\<lparr>en_regions := memory_regions (read_boot_info (ho_rdi h) m') m'\<rparr>)
      (boot_argument (ho_rdi h) m') cold_kernel = Some (out, s')"
  obtain m' out s' where k: "?out m' out s'"
      "case out of Inl code \<Rightarrow> code = exit_code.Failed \<and> \<not> roomy (memory_regions (read_boot_info (ho_rdi h) m') m')
       | Inr _ \<Rightarrow> brought_up fst snd (demo_env\<lparr>en_regions := memory_regions (read_boot_info (ho_rdi h) m') m'\<rparr>) cold_kernel s' \<and>
           (\<forall>es. length es + 1000 < 2 ^ 64 \<longrightarrow>
             (\<exists>pc s''. run_schedule demo_machine (en_handlers demo_env) es (Loop_Ticks, s') = Some (pc, s'') \<and>
                (pc = Done exit_code.Success \<longrightarrow> 100 \<le> unat (ks_TICKS s'') \<and> 0 < unat (ks_KEY_EVENTS_SEEN s'')) \<and>
                (pc = Done exit_code.Failed \<longrightarrow> 1100 < unat (ks_TICKS s''))))"
    and regions: "memory_regions (read_boot_info (ho_rdi h) m') m' = ho_regions h"
    using chain h(1) unfolding Let_def by auto
  have out: "out = Inr ()" using k(2) heap_map_roomy h(2) regions by (cases out) auto
  let ?es = "[Timer_irq demo_frame, Program, Key_irq demo_frame]"
  have all: "\<forall>es. length es + 1000 < 2 ^ 64 \<longrightarrow>
      (\<exists>pc s''. run_schedule demo_machine (en_handlers demo_env) es (Loop_Ticks, s') = Some (pc, s''))"
    using k(2) unfolding out sum.case by blast
  have "length ?es + 1000 < 2 ^ 64" by simp
  from all [rule_format, OF this] obtain pc s'' where
    "run_schedule demo_machine demo_handlers ?es (Loop_Ticks, s') = Some (pc, s'')"
    unfolding demo_env_simps by blast
  moreover have "ks_TICKS s' = 0" using k(2) out by (simp add: brought_up_def)
  ultimately show ?thesis using h(1) k(1) out by blast
qed

end
