(* ===== verification/Kernel_Faults.thy ===== *)
theory Kernel_Faults
  imports Kernel_Start
begin

text \<open>
  What the kernel does when it cannot go on: the five exceptions with fatal handlers (kernel/src/idt.rs)
  and the panic handler (kernel/src/main.rs), after the bring-up.
\<close>

section \<open>The reports\<close>

definition screen_text :: "u8 list list \<Rightarrow> u8 list" where
  "screen_text ls = concat (map (\<lambda>l. l @ [0x0a]) ls)"

lemma screen_text_append: "screen_text (xs @ ys) = screen_text xs @ screen_text ys"
  by (simp add: screen_text_def)

definition fault_report :: "u8 list \<Rightarrow> stack_frame \<Rightarrow> u64 option \<Rightarrow> u64 option \<Rightarrow> u8 list list" where
  "fault_report name frame error_code cr2 =
     [[], ascii ''EXCEPTION: '' @ name]
     @ (case cr2 of None \<Rightarrow> [] | Some addr \<Rightarrow> [ascii ''  faulting address (CR2): '' @ show_hex addr])
     @ [ascii ''  instruction pointer: '' @ show_hex (sf_instruction_pointer frame),
        ascii ''  code segment:        '' @ show_hex (sf_code_segment frame),
        ascii ''  cpu flags:           '' @ show_hex (sf_cpu_flags frame),
        ascii ''  stack pointer:       '' @ show_hex (sf_stack_pointer frame)]
     @ (case error_code of None \<Rightarrow> [] | Some code \<Rightarrow> [ascii ''  error code:          '' @ show_hex code])
     @ [ascii ''  unrecoverable - halting'']"

definition double_fault_report :: "statics \<Rightarrow> u64 \<Rightarrow> stack_frame \<Rightarrow> u8 list list" where
  "double_fault_report a rsp frame =
     [ascii ''EXCEPTION: double fault'',
      ascii ''  faulting instruction: '' @ show_hex (sf_instruction_pointer frame),
      ascii ''  interrupted stack:    '' @ show_hex (sf_stack_pointer frame),
      ascii ''  handler stack:        '' @ show_hex rsp,
      ascii ''  fault stack spans:    '' @ show_hex (sa_FAULT_STACK a) @ ascii ''..'' @ show_hex (sa_FAULT_STACK a + 16384),
      ascii ''  handler ran on the IST stack - the machine did not reset'']"

lemma print_lines_append:
  "print_lines p (xs @ ys) s = do { s \<leftarrow> print_lines p xs s; print_lines p ys s }"
  by (induction xs arbitrary: s) (auto split: Option.bind_split)

lemma print_lines_one [simp]: "print_lines p [l] s = kprintln p l s"
  by (simp split: Option.bind_split)

lemma print_lines_option:
  "(case x of Some y \<Rightarrow> kprintln p (f y) s | None \<Rightarrow> Some s) =
   print_lines p (case x of None \<Rightarrow> [] | Some y \<Rightarrow> [f y]) s"
  by (cases x) (simp_all split: Option.bind_split)

lemma print_lines_talks:
  assumes "machine_ok p uart pics" and "io_ok uart s"
  shows "\<exists>s'. print_lines p ls s = Some s' \<and> talks uart pics (screen_text ls) s s'"
  using assms(2)
proof (induction ls arbitrary: s)
  case Nil
  then show ?case by (simp add: screen_text_def talks_refl)
next
  case (Cons l ls)
  obtain s1 where 1: "kprintln p l s = Some s1" "talks uart pics (l @ [0x0a]) s s1"
    using kprintln_talks [OF assms(1) Cons.prems] by blast
  obtain s2 where 2: "print_lines p ls s1 = Some s2" "talks uart pics (screen_text ls) s1 s2"
    using Cons.IH [of s1] 1(2) unfolding talks_def by blast
  then show ?case using 1 talks_trans [OF 1(2) 2(2)] by (simp add: screen_text_def)
qed

lemma report_fault_prints:
  "report_fault p name frame error_code cr2 s =
     map_option (exit_kernel p Failed) (print_lines p (fault_report name frame error_code cr2) s)"
  unfolding report_fault_def fault_report_def print_lines_append print_lines_option
  by (simp add: map_conv_bind_option split: Option.bind_split del: print_lines.simps)

lemma report_fault_talks:
  assumes "machine_ok p uart pics" and "io_ok uart s"
  shows "\<exists>t. report_fault p name frame error_code cr2 s = Some (exit_kernel p Failed t) \<and>
    talks uart pics (screen_text (fault_report name frame error_code cr2)) s t"
  using print_lines_talks [OF assms, of "fault_report name frame error_code cr2"]
  unfolding report_fault_prints by auto

lemma double_fault_talks:
  assumes "machine_ok p uart pics" and "io_ok uart s" and "unat (sa_FAULT_STACK a) + 16384 < 2 ^ 64"
    and "sa_FAULT_STACK a \<le> rsp" and "unat rsp < unat (sa_FAULT_STACK a) + 16384"
  shows "\<exists>t. double_fault_handler p a rsp frame s = Some (exit_kernel p Failed t) \<and>
    talks uart pics (screen_text (double_fault_report a rsp frame)) s t"
proof -
  have top: "unat (sa_FAULT_STACK a + 16384) = unat (sa_FAULT_STACK a) + 16384"
    using assms(3) by (simp add: unat_add_small)
  have range: "fault_stack_range a = Some (sa_FAULT_STACK a, sa_FAULT_STACK a + 16384)"
    using assms(3) by (simp add: fault_stack_range_def FAULT_STACK_SIZE_def checked_add_def)
  have inside: "rsp < sa_FAULT_STACK a + 16384" using top assms(5) by (simp add: word_less_nat_alt)
  have split: "double_fault_report a rsp frame = butlast (double_fault_report a rsp frame)
      @ [ascii ''  handler ran on the IST stack - the machine did not reset'']"
    by (simp add: double_fault_report_def)
  have "double_fault_handler p a rsp frame s =
      map_option (exit_kernel p Failed) (print_lines p (double_fault_report a rsp frame) s)"
    using inside assms(4) print_lines_append [of p "butlast (double_fault_report a rsp frame)"
      "[ascii ''  handler ran on the IST stack - the machine did not reset'']" s, folded split]
    by (simp add: double_fault_handler_def range double_fault_report_def map_conv_bind_option
        split: Option.bind_split del: print_lines.simps)
  then show ?thesis using print_lines_talks [OF assms(1,2), of "double_fault_report a rsp frame"] by auto
qed

section \<open>Through the tables\<close>

definition fault_handlers_distinct :: "handlers \<Rightarrow> bool" where
  "fault_handlers_distinct h \<longleftrightarrow> distinct [ha_divide_error h, ha_invalid_opcode h, ha_general_protection h,
     ha_page_fault h, ha_double_fault h]"

text \<open>The run ends with the failure code, having printed exactly these lines.\<close>

definition dies_saying ::
    "'d ports \<Rightarrow> ('d \<Rightarrow> uart) \<Rightarrow> ('d \<Rightarrow> 'c) \<Rightarrow> u8 list list \<Rightarrow> ('d, 'a) kernel_scheme \<Rightarrow>
     ('d, 'a) kernel_scheme run \<Rightarrow> bool" where
  "dies_saying p uart pics ls s r \<longleftrightarrow>
     (\<exists>t. r = Some (exit_kernel p Failed t) \<and> talks uart pics (screen_text ls) (cli s) t)"

lemma ist_entry:
  assumes "gdt_init a t0 = Some t" and "length (ts_interrupt_stack_table (ds_TSS t0)) = 7"
    and "unat (sa_FAULT_STACK a) + 16384 < 2 ^ 64" and "16 dvd unat (sa_FAULT_STACK a)"
  shows "entry_top (wanted_gate f (Some 0)) (idt_load a t) frame = sa_FAULT_STACK a + 16384"
    and "entry_rsp (wanted_gate f (Some 0)) (idt_load a t) frame = sa_FAULT_STACK a + 16336"
proof -
  have top: "checked_add (sa_FAULT_STACK a) FAULT_STACK_SIZE = Some (sa_FAULT_STACK a + 16384)"
    using assms(3) by (simp add: FAULT_STACK_SIZE_def checked_add_def)
  have sum: "unat (sa_FAULT_STACK a + 16384) = unat (sa_FAULT_STACK a) + 16384"
    using assms(3) by (simp add: unat_add_small)
  have "ts_interrupt_stack_table (ds_TSS t) ! 0 = sa_FAULT_STACK a + 16384"
    using assms(1,2) by (auto simp: gdt_init_def top Let_def DOUBLE_FAULT_IST_INDEX_def simp del: checked_add_Some_iff)
  moreover have "(sa_FAULT_STACK a + 16384) AND NOT (mask 4) = sa_FAULT_STACK a + 16384"
    using assms(4) by (intro word_unat_eq_iff [THEN iffD2]) (auto simp: unat_and_not_mask sum)
  ultimately show "entry_top (wanted_gate f (Some 0)) (idt_load a t) frame = sa_FAULT_STACK a + 16384"
    by (simp add: entry_top_def idt_load_def wanted_gate_def)
  then show "entry_rsp (wanted_gate f (Some 0)) (idt_load a t) frame = sa_FAULT_STACK a + 16336"
    by (simp add: entry_rsp_def)
qed

lemma dies_double_fault:
  assumes "machine_ok p uart pics" and "io_ok uart (cli s)" and "unat (sa_FAULT_STACK a) + 16384 < 2 ^ 64"
    and "unat depth \<le> 16336"
  shows "dies_saying p uart pics (double_fault_report a (sa_FAULT_STACK a + 16336 - depth) frame) s
    (double_fault_handler p a (sa_FAULT_STACK a + 16336 - depth) frame (cli s))"
proof -
  have "unat (sa_FAULT_STACK a + 16336) = unat (sa_FAULT_STACK a) + 16336"
    using assms(3) by (simp add: unat_add_small)
  then have "unat (sa_FAULT_STACK a + 16336 - depth) = unat (sa_FAULT_STACK a) + 16336 - unat depth"
    using assms(4) by (simp add: unat_sub_le)
  then have "sa_FAULT_STACK a \<le> sa_FAULT_STACK a + 16336 - depth"
      "unat (sa_FAULT_STACK a + 16336 - depth) < unat (sa_FAULT_STACK a) + 16384"
    using assms(4) by (simp_all add: word_le_nat_alt)
  from double_fault_talks [OF assms(1-3) this] show ?thesis unfolding dies_saying_def .
qed

lemma raise_fault_handler:
  assumes "fault_handlers_distinct h"
  shows "raise_fault p h a cx e (wanted_gate (ha_divide_error h) None) s =
      divide_error_handler p (if ex_vector e = 8 then cx_abort_frame cx else cx_frame cx) (cli s)"
    and "raise_fault p h a cx e (wanted_gate (ha_invalid_opcode h) None) s =
      invalid_opcode_handler p (if ex_vector e = 8 then cx_abort_frame cx else cx_frame cx) (cli s)"
    and "raise_fault p h a cx e (wanted_gate (ha_general_protection h) None) s =
      general_protection_handler p (if ex_vector e = 8 then cx_abort_frame cx else cx_frame cx) (ex_code e) (cli s)"
    and "raise_fault p h a cx e (wanted_gate (ha_page_fault h) None) s =
      page_fault_handler p (ex_cr2 e) (if ex_vector e = 8 then cx_abort_frame cx else cx_frame cx) (ex_code e) (cli s)"
    and "raise_fault p h a cx e (wanted_gate (ha_double_fault h) (Some 0)) s =
      double_fault_handler p a (entry_rsp (wanted_gate (ha_double_fault h) (Some 0)) (ks_tables s) (cx_frame cx) - cx_depth cx)
        (if ex_vector e = 8 then cx_abort_frame cx else cx_frame cx) (cli s)"
  using assms by (auto simp: raise_fault_def fault_handlers_distinct_def wanted_gate_def Let_def)

section \<open>Delivery through the table\<close>

lemma table_absent: "(v :: u8) < 32 \<Longrightarrow> v \<notin> {0, 3, 6, 8, 13, 14} \<Longrightarrow> vector_table h v = None"
proof -
  assume v: "v < 32" "v \<notin> {0, 3, 6, 8, 13, 14}"
  then have "\<not> 34 \<le> v" "v \<noteq> 32" "v \<noteq> 33" by (auto simp: word_less_nat_alt word_le_nat_alt)
  then show ?thesis using v(2) by (simp add: vector_table_def)
qed

lemma table_interrupted_stack:
  "vector_table h v = Some g \<Longrightarrow> v \<noteq> 8 \<Longrightarrow> gt_ist g = None"
  by (auto simp: vector_table_def wanted_gate_def split: if_splits)

text \<open>The stack that the interrupted code left, and the double fault's, as the processor meets them.\<close>

abbreviation bad_stack :: "cpu_context \<Rightarrow> bool" where
  "bad_stack cx \<equiv> cx_push cx (sf_stack_pointer (cx_frame cx) AND NOT (mask 4)) \<noteq> None"

lemma gates_at: "gates idt = vector_table h \<Longrightarrow> read_gate (idt ! unat v) = vector_table h v"
  by (simp add: gates_def fun_eq_iff)

lemma try_gate_taken:
  assumes "gates idt = vector_table h" and "vector_table h (ex_vector e) = Some g"
    and "cx_push cx (entry_top g t (cx_frame cx)) = None"
  shows "try_gate idt t cx e = Inr g"
  using assms(2,3) by (simp add: try_gate_def gates_at [OF assms(1)])

lemma try_gate_absent:
  assumes "gates idt = vector_table h" and "vector_table h (ex_vector e) = None"
  shows "try_gate idt t cx e = Inl \<lparr>ex_vector = 13, ex_code = 8 * ucast (ex_vector e) + 3, ex_cr2 = ex_cr2 e\<rparr>"
  using assms(2) by (simp add: try_gate_def gates_at [OF assms(1)])

lemma enter_taken: "try_gate idt t cx e = Inr g \<Longrightarrow> enter_gate idt t cx e = Some (e, g)"
  by (simp add: enter_gate.simps)

lemma enter_second:
  "try_gate idt t cx e = Inl e2 \<Longrightarrow> second_fault e e2 = Some e3 \<Longrightarrow> enter_gate idt t cx e = enter_gate idt t cx e3"
  by (subst enter_gate.simps) simp

lemma table_double_fault: "vector_table h 8 = Some (wanted_gate (ha_double_fault h) (Some 0))"
  by (simp add: vector_table_def)

text \<open>On a stack that takes no frame, every exception ends as a double fault, on the other stack.\<close>

lemma bad_stack_double_fault:
  assumes "gates idt = vector_table h" and "bad_stack cx"
    and "cx_push cx (entry_top (wanted_gate (ha_double_fault h) (Some 0)) t (cx_frame cx)) = None"
  shows "\<exists>e'. enter_gate idt t cx e = Some (e', wanted_gate (ha_double_fault h) (Some 0)) \<and> ex_vector e' = 8"
  using assms
proof (induction idt t cx e rule: enter_gate.induct)
  case (1 idt t cx e)
  show ?case
  proof (cases "ex_vector e = 8")
    case True
    then show ?thesis
      using enter_taken [OF try_gate_taken [OF 1(2) _ 1(4)]] table_double_fault [of h] by auto
  next
    case False
    obtain e2 where e2: "try_gate idt t cx e = Inl e2"
    proof (cases "vector_table h (ex_vector e)")
      case None
      then show ?thesis using try_gate_absent [OF 1(2)] that by blast
    next
      case (Some g)
      then obtain f where "cx_push cx (entry_top g t (cx_frame cx)) = Some f"
        using 1(3) table_interrupted_stack [OF Some False] by (auto simp: entry_top_def)
      then show ?thesis
        using that Some by (cases f) (simp_all add: try_gate_def gates_at [OF 1(2)])
    qed
    have "second_fault e e2 \<noteq> None" using False by (simp add: second_fault_def)
    then obtain e3 where e3: "second_fault e e2 = Some e3" by blast
    show ?thesis using 1(1) [OF e2 e3 1(2-4)] enter_second [OF e2 e3] by simp
  qed
qed

text \<open>On a good one a gate that is there is entered, and an absent one is a #GP or a double fault.\<close>

lemma good_stack_entered:
  assumes "gates idt = vector_table h" and "\<not> bad_stack cx" and "vector_table h (ex_vector e) = Some g"
    and "ex_vector e \<noteq> 8"
  shows "enter_gate idt t cx e = Some (e, g)"
  using enter_taken [OF try_gate_taken [OF assms(1,3)]] assms(2) table_interrupted_stack [OF assms(3,4)]
  by (simp add: entry_top_def)

lemma good_stack_absent:
  assumes "gates idt = vector_table h" and "\<not> bad_stack cx" and "vector_table h (ex_vector e) = None"
    and "cx_push cx (entry_top (wanted_gate (ha_double_fault h) (Some 0)) t (cx_frame cx)) = None"
  shows "enter_gate idt t cx e =
    (if contributory (ex_vector e) \<or> page_class (ex_vector e)
     then Some (\<lparr>ex_vector = 8, ex_code = 0, ex_cr2 = ex_cr2 e\<rparr>, wanted_gate (ha_double_fault h) (Some 0))
     else Some (\<lparr>ex_vector = 13, ex_code = 8 * ucast (ex_vector e) + 3, ex_cr2 = ex_cr2 e\<rparr>,
       wanted_gate (ha_general_protection h) None))"
proof -
  let ?gp = "\<lparr>ex_vector = 13, ex_code = 8 * ucast (ex_vector e) + 3, ex_cr2 = ex_cr2 e\<rparr>"
  let ?df = "\<lparr>ex_vector = 8, ex_code = 0, ex_cr2 = ex_cr2 e\<rparr>"
  have "ex_vector e \<noteq> 8" using assms(3) table_double_fault [of h] by auto
  then have second: "second_fault e ?gp = Some (if contributory (ex_vector e) \<or> page_class (ex_vector e) then ?df else ?gp)"
    by (auto simp: second_fault_def)
  have "enter_gate idt t cx ?gp = Some (?gp, wanted_gate (ha_general_protection h) None)"
    by (rule good_stack_entered [OF assms(1,2)]) (simp_all add: vector_table_def)
  moreover have "enter_gate idt t cx ?df = Some (?df, wanted_gate (ha_double_fault h) (Some 0))"
    by (rule enter_taken, rule try_gate_taken [OF assms(1) _ assms(4)]) (simp add: table_double_fault)
  ultimately show ?thesis
    using enter_second [OF try_gate_absent [OF assms(1,3)] second] by simp
qed

text \<open>
  C5. A fault is never silent. In any state whose devices are up and whose table is the kernel's,
  with a fault stack that takes the frame, whatever was interrupted: where the interrupted stack
  takes the frame too, each of the five exceptions with a fatal handler enters that handler, prints
  exactly its report on the serial line and on the screen, and ends the run with the failure code,
  and an exception without a handler ends as a #GP that names it or as a double fault; where the
  interrupted stack does not take it, every exception ends in the double fault's handler, on its
  own stack, which says so. None resets the machine. A Rust panic likewise prints its message and
  ends with the failure code.
\<close>

theorem faults_reported:
  assumes "machine_ok p uart pics" and "io_ok uart s" and "gates (ks_IDT s) = vector_table h"
    and "fault_handlers_distinct h" and "gdt_init a t0 = Some t" and "ks_tables s = idt_load a t"
    and "length (ts_interrupt_stack_table (ds_TSS t0)) = 7"
    and "unat (sa_FAULT_STACK a) + 16384 < 2 ^ 64" and "16 dvd unat (sa_FAULT_STACK a)"
    and "cx_push cx (sa_FAULT_STACK a + 16384) = None" and "unat (cx_depth cx) \<le> 16336"
  shows "(let frame = cx_frame cx;
      fault = (\<lambda>v. cpu_exception p h a cx \<lparr>ex_vector = v, ex_code = code, ex_cr2 = cr2\<rparr> s);
      gp = (\<lambda>code. fault_report (ascii ''general protection fault (#GP)'') frame (Some code) None);
      df = double_fault_report a (sa_FAULT_STACK a + 16336 - cx_depth cx) (cx_abort_frame cx) in
    dies_saying p uart pics df s (fault 8) \<and>
    (\<not> bad_stack cx \<longrightarrow>
      dies_saying p uart pics (fault_report (ascii ''divide error (#DE)'') frame None None) s (fault 0) \<and>
      dies_saying p uart pics (fault_report (ascii ''invalid opcode (#UD)'') frame None None) s (fault 6) \<and>
      dies_saying p uart pics (gp code) s (fault 13) \<and>
      dies_saying p uart pics (fault_report (ascii ''page fault (#PF)'') frame (Some code) (Some cr2)) s (fault 14) \<and>
      (\<forall>v < 32. v \<notin> {0, 3, 6, 8, 13, 14} \<longrightarrow>
        dies_saying p uart pics (if contributory v \<or> page_class v then df else gp (8 * ucast v + 3)) s (fault v))) \<and>
    (bad_stack cx \<longrightarrow> (\<forall>v. dies_saying p uart pics df s (fault v)))) \<and>
    (\<exists>t. kernel_panic p info s = Some (Inl Failed, exit_kernel p Failed t) \<and>
      talks uart pics (screen_text [ascii ''KERNEL PANIC: '' @ info]) s t)"
proof -
  let ?e = "\<lambda>v. \<lparr>ex_vector = v, ex_code = code, ex_cr2 = cr2\<rparr>"
  let ?fault = "\<lambda>v. cpu_exception p h a cx (?e v) s"
  let ?gp = "\<lambda>code. fault_report (ascii ''general protection fault (#GP)'') (cx_frame cx) (Some code) None"
  let ?df = "double_fault_report a (sa_FAULT_STACK a + 16336 - cx_depth cx) (cx_abort_frame cx)"
  have io: "io_ok uart (cli s)" using assms(2) by (simp add: io_ok_def cli_def)
  note report = report_fault_talks [OF assms(1) io, folded dies_saying_def]
  note handler = raise_fault_handler [OF assms(4), of p a cx]
  note ist = ist_entry [OF assms(5,7-9), of "ha_double_fault h" "cx_frame cx", folded assms(6)]
  have push: "cx_push cx (entry_top (wanted_gate (ha_double_fault h) (Some 0)) (ks_tables s) (cx_frame cx)) = None"
    using assms(10) ist(1) by simp
  have double: "dies_saying p uart pics ?df s (raise_fault p h a cx e (wanted_gate (ha_double_fault h) (Some 0)) s)"
    if "ex_vector e = 8" for e
    using dies_double_fault [OF assms(1) io assms(8,11)] that by (simp add: handler(5) ist(2))
  have eight: "dies_saying p uart pics ?df s (?fault 8)"
    using double [of "?e 8"] enter_taken [OF try_gate_taken [OF assms(3) _ push, of "?e 8"]]
    by (simp add: cpu_exception_def table_double_fault)
  have bad: "dies_saying p uart pics ?df s (?fault v)" if "bad_stack cx" for v
    using bad_stack_double_fault [OF assms(3) that push, of "?e v"] double by (auto simp: cpu_exception_def)
  have entered: "?fault v = raise_fault p h a cx (?e v) g s"
    if "\<not> bad_stack cx" "vector_table h v = Some g" "v \<noteq> 8" for v g
    using good_stack_entered [OF assms(3) that(1), of "?e v"] that(2,3) by (simp add: cpu_exception_def)
  have absent: "dies_saying p uart pics (if contributory v \<or> page_class v then ?df else ?gp (8 * ucast v + 3)) s (?fault v)"
    if "\<not> bad_stack cx" "v < 32" "v \<notin> {0, 3, 6, 8, 13, 14}" for v
    using good_stack_absent [OF assms(3) that(1) _ push, of "?e v"] table_absent [OF that(2,3), of h]
      double report [of "ascii ''general protection fault (#GP)''" "cx_frame cx" "Some (8 * ucast v + 3)" None]
    by (simp add: cpu_exception_def handler(3) general_protection_handler_def)
  have panic: "\<exists>t. kernel_panic p info s = Some (Inl Failed, exit_kernel p Failed t) \<and>
      talks uart pics (screen_text [ascii ''KERNEL PANIC: '' @ info]) s t"
    using kprintln_talks [OF assms(1,2), of "ascii ''KERNEL PANIC: '' @ info"]
    by (auto simp: kernel_panic_def screen_text_def)
  have present: "dies_saying p uart pics (fault_report (ascii ''divide error (#DE)'') (cx_frame cx) None None) s (?fault 0)"
    "dies_saying p uart pics (fault_report (ascii ''invalid opcode (#UD)'') (cx_frame cx) None None) s (?fault 6)"
    "dies_saying p uart pics (?gp code) s (?fault 13)"
    "dies_saying p uart pics (fault_report (ascii ''page fault (#PF)'') (cx_frame cx) (Some code) (Some cr2)) s (?fault 14)"
    if "\<not> bad_stack cx"
    using entered [OF that] report
    by (simp_all add: vector_table_def handler(1-4) divide_error_handler_def invalid_opcode_handler_def
        general_protection_handler_def page_fault_handler_def)
  show ?thesis
    unfolding Let_def using eight bad absent panic present by blast
qed

text \<open>Two interrupted stacks of the started kernel: one that takes the frame, and a page that is not there.\<close>

definition demo_context :: "push_fault option \<Rightarrow> cpu_context" where
  "demo_context r = \<lparr>cx_frame = demo_frame, cx_abort_frame = demo_frame, cx_depth = 0x100,
     cx_push = (\<lambda>top. if top = sa_FAULT_STACK demo_statics + 16384 then None else r)\<rparr>"

theorem faults_reported_witness:
  "\<exists>s. kernel_start demo_machine demo_env (Some demo_boot) cold_kernel = Some (Inr (), s) \<and>
    dies_saying demo_machine fst snd (fault_report (ascii ''page fault (#PF)'') demo_frame (Some 2) (Some 0xdead000)) s
      (cpu_exception demo_machine demo_handlers demo_statics (demo_context None)
        \<lparr>ex_vector = 14, ex_code = 2, ex_cr2 = 0xdead000\<rparr> s) \<and>
    dies_saying demo_machine fst snd (double_fault_report demo_statics (sa_FAULT_STACK demo_statics + 16336 - 0x100) demo_frame) s
      (cpu_exception demo_machine demo_handlers demo_statics (demo_context (Some (Stack_Page 2 0xdeac000)))
        \<lparr>ex_vector = 14, ex_code = 2, ex_cr2 = 0xdead000\<rparr> s)"
proof -
  obtain s where s: "kernel_start demo_machine demo_env (Some demo_boot) cold_kernel = Some (Inr (), s)"
    "brought_up fst snd demo_env cold_kernel s"
    using kernel_start_runs [where boot = "Some demo_boot", OF demo_machine_ok cold_kernel_fresh
        demo_env_facts(1,2) demo_env_map(1,2) demo_boot_ok(2)] demo_boot_ok(1) demo_env_map(3) by auto
  then obtain t where t: "running fst demo_handlers s" "gdt_init demo_statics (ks_tables cold_kernel) = Some t"
    "ks_tables s = idt_load demo_statics t"
    by (auto simp: brought_up_def demo_env_simps)
  then have up: "io_ok fst s" "gates (ks_IDT s) = vector_table demo_handlers" by (simp_all add: running_def)
  have h: "fault_handlers_distinct demo_handlers" "length (ts_interrupt_stack_table (ds_TSS (ks_tables cold_kernel))) = 7"
    "unat (sa_FAULT_STACK demo_statics) + 16384 < 2 ^ 64" "16 dvd unat (sa_FAULT_STACK demo_statics)"
    by (simp_all add: fault_handlers_distinct_def demo_handlers_def demo_statics_def cold_kernel_def waiting_kernel_def
        boot_descriptors_def tss_new_def)
  have c: "cx_push (demo_context r) (sa_FAULT_STACK demo_statics + 16384) = None"
      "unat (cx_depth (demo_context r)) \<le> 16336" "cx_push (demo_context r) (sf_stack_pointer demo_frame AND NOT (mask 4)) = r"
      "cx_frame (demo_context r) = demo_frame" "cx_abort_frame (demo_context r) = demo_frame" "cx_depth (demo_context r) = 0x100" for r
    by (auto simp: demo_context_def demo_frame_def demo_statics_def mask_eq_exp_minus_1)
  note F = faults_reported [where code = 2 and ?cr2.0 = "0xdead000", OF demo_machine_ok up h(1) t(2,3) h(2-4) c(1,2), unfolded Let_def c(4-6)]
  show ?thesis using s(1) F [of None, unfolded c(3)] F [of "Some (Stack_Page 2 0xdeac000)", unfolded c(3)] by blast
qed

end
