(* ===== verification/Source_Tests.thy ===== *)
theory Source_Tests
  imports Boot_Info Screen_Check Irq
begin

text \<open>
  The repository's unit tests, run on the model: those of boot_info/src/lib.rs by evaluation, those
  of xtask/src/main.rs by proof. They check the translation against the behaviour the authors pinned
  down. A test is a run that returns, or panics at an assertion; the temporary file a test of xtask
  writes and \<open>check_screen_has_text\<close> reads back is the list of its bytes.
\<close>

definition assert_that :: "bool \<Rightarrow> unit run" where
  "assert_that b = (if b then Some () else None)"

section \<open>boot_info\<close>

definition LOADER_DATA :: u32 where "LOADER_DATA = 2"

definition skips_regions_that_are_not_conventional :: "unit run" where
  "skips_regions_that_are_not_conventional =
     (let runs = usable_regions_new [memory_region_new 0x1000 4 LOADER_DATA, memory_region_new 0x5000 4 CONVENTIONAL];
          (r1, runs) = usable_next runs; (r2, runs) = usable_next runs
      in assert_that (r1 = Some \<lparr>fr_start = 0x5000, fr_frames = 4\<rparr> \<and> r2 = None))"

definition never_yields_the_frame_at_physical_zero :: "unit run" where
  "never_yields_the_frame_at_physical_zero =
     (let runs = usable_regions_new [memory_region_new 0 2 CONVENTIONAL];
          (r1, runs) = usable_next runs; (r2, runs) = usable_next runs
      in assert_that (r1 = Some \<lparr>fr_start = 0x1000, fr_frames = 1\<rparr> \<and> r2 = None))"

definition clamps_an_unaligned_span_inward :: "unit run" where
  "clamps_an_unaligned_span_inward =
     (let runs = usable_regions_new [memory_region_new 0x1800 2 CONVENTIONAL];
          (r1, runs) = usable_next runs; (r2, runs) = usable_next runs
      in assert_that (r1 = Some \<lparr>fr_start = 0x2000, fr_frames = 1\<rparr> \<and> r2 = None))"

definition drops_a_span_that_rounds_away_to_nothing :: "unit run" where
  "drops_a_span_that_rounds_away_to_nothing =
     assert_that (fst (usable_next (usable_regions_new [memory_region_new 0x1800 1 CONVENTIONAL])) = None)"

definition yields_every_usable_region_in_order :: "unit run" where
  "yields_every_usable_region_in_order =
     (let runs = usable_regions_new [memory_region_new 0x2000 3 CONVENTIONAL, memory_region_new 0x9000 1 LOADER_DATA,
            memory_region_new 0xa000 2 CONVENTIONAL];
          (r1, runs) = usable_next runs; (r2, runs) = usable_next runs; (r3, runs) = usable_next runs
      in assert_that (r1 = Some \<lparr>fr_start = 0x2000, fr_frames = 3\<rparr> \<and>
           r2 = Some \<lparr>fr_start = 0xa000, fr_frames = 2\<rparr> \<and> r3 = None))"

definition an_empty_map_yields_nothing :: "unit run" where
  "an_empty_map_yields_nothing = assert_that (fst (usable_next (usable_regions_new [])) = None)"

definition skips_a_descriptor_whose_span_overflows :: "unit run" where
  "skips_a_descriptor_whose_span_overflows =
     assert_that (fst (usable_next (usable_regions_new [memory_region_new (- 1 - 0xfff) (- 1) CONVENTIONAL])) = None)"

lemma boot_info_tests_pass:
  "skips_regions_that_are_not_conventional = Some ()" "never_yields_the_frame_at_physical_zero = Some ()"
  "clamps_an_unaligned_span_inward = Some ()" "drops_a_span_that_rounds_away_to_nothing = Some ()"
  "yields_every_usable_region_in_order = Some ()" "an_empty_map_yields_nothing = Some ()"
  "skips_a_descriptor_whose_span_overflows = Some ()"
  by code_simp+

section \<open>xtask\<close>

definition SCREEN_WIDTH :: nat where "SCREEN_WIDTH = 1280"
definition SCREEN_HEIGHT :: nat where "SCREEN_HEIGHT = 800"

definition EXPECTED_FIRST_GLYPH :: "u8 list" where
  "EXPECTED_FIRST_GLYPH =
     [0x00, 0x00, 0x38, 0x6c, 0x64, 0x60, 0xf0, 0x60, 0x60, 0x60, 0x60, 0xf0, 0x00, 0x00, 0x00, 0x00]"

definition kernel_text_pixels :: "u8 list" where
  "kernel_text_pixels = fold (\<lambda>(y, scanline) pixels.
       fold (\<lambda>x pixels.
           if scanline AND drop_bit x 0x80 \<noteq> 0
           then let offset = (y * SCREEN_WIDTH + x) * 3
                in pixels[offset := 0xe0, offset + 1 := 0xe0, offset + 2 := 0xe0]
           else pixels)
         [0..<8] pixels)
     (enumerate 0 EXPECTED_FIRST_GLYPH)
     (concat (replicate (SCREEN_WIDTH * SCREEN_HEIGHT) [0x00, 0x33, 0x99]))"

definition write_ppm :: "u16 \<Rightarrow> u8 list \<Rightarrow> u8 list" where
  "write_ppm maxval pixels = ascii ''P6'' @ [0x0a] @ ascii ''1280 800'' @ [0x0a] @
     show_dec (ucast maxval) @ [0x0a] @ pixels"

definition is_err :: "'e + 'a \<Rightarrow> bool" where
  "is_err r = (case r of Inl _ \<Rightarrow> True | Inr _ \<Rightarrow> False)"

definition rejects_coloured_firmware_frame_without_kernel_text :: "unit run" where
  "rejects_coloured_firmware_frame_without_kernel_text =
     (let pixels = (replicate (SCREEN_WIDTH * SCREEN_HEIGHT * 3) 0)[3 := 0xff, 4 := 0xff, 5 := 0xff]
      in assert_that (is_err (check_capture (write_ppm 255 pixels))))"

definition rejects_ppm_with_nonstandard_maxval :: "unit run" where
  "rejects_ppm_with_nonstandard_maxval =
     assert_that (is_err (check_capture (write_ppm 42 kernel_text_pixels)))"

definition rejects_truncated_ppm_payload :: "unit run" where
  "rejects_truncated_ppm_payload =
     (let pixels = take (SCREEN_WIDTH * 16 * 3) kernel_text_pixels
      in assert_that (is_err (check_capture (write_ppm 255 pixels))))"

lemma write_ppm_file:
  assumes "show_dec (ucast maxval) = v"
  shows "write_ppm maxval pixels = ppm_file [0x50, 0x36] KERNEL_SCREENSHOT_DIMENSIONS v pixels"
proof -
  have "ascii ''P6'' = [0x50, 0x36]" "ascii ''1280 800'' = KERNEL_SCREENSHOT_DIMENSIONS" by code_simp+
  then show ?thesis using assms by (simp add: write_ppm_def ppm_file_def)
qed

lemma write_ppm_255: "write_ppm 255 pixels = kernel_capture pixels"
proof -
  have "show_dec (ucast (255 :: u16)) = [0x32, 0x35, 0x35]" by code_simp
  from write_ppm_file [OF this] show ?thesis by (simp add: kernel_capture_def)
qed

lemma length_kernel_text_pixels: "length kernel_text_pixels = 3072000"
proof -
  have keep: "(\<And>x (p :: u8 list). length (f x p) = length p) \<Longrightarrow> length (fold f xs p) = length p"
    for f :: "'b \<Rightarrow> u8 list \<Rightarrow> u8 list" and xs p
    by (induction xs arbitrary: p) simp_all
  have "length (concat (replicate n [0x00, 0x33, 0x99 :: u8])) = n * 3" for n
    by (induction n) simp_all
  then show ?thesis
    unfolding kernel_text_pixels_def
    by (subst keep) (auto simp: Let_def SCREEN_WIDTH_def SCREEN_HEIGHT_def
        simp del: concat_replicate_trivial intro!: keep split: prod.splits)
qed

lemma firmware_corner:
  "3 \<le> n \<Longrightarrow> capture_pixel ((replicate n 0)[3 := a, 4 := b, 5 := c]) 0 0 = [0, 0, 0]"
proof -
  assume "3 \<le> n"
  then have "capture_pixel ((replicate n 0)[3 := a, 4 := b, 5 := c]) 0 0 = replicate 3 0"
    by (simp add: capture_pixel_def min_def)
  also have "\<dots> = [0, 0, 0]" by (simp add: numeral_eq_Suc)
  finally show ?thesis .
qed

lemma rejects_coloured_frame:
  assumes "n = 3072000"
  shows "check_capture (write_ppm 255 ((replicate n 0)[3 := 0xff, 4 := 0xff, 5 := 0xff])) = Inl Glyph_Missing"
proof -
  let ?px = "(replicate n 0)[3 := 0xff, 4 := 0xff, 5 := 0xff] :: u8 list"
  have "expected_pixel (KERNEL_FIRST_GLYPH ! 0) 0 = [0x00, 0x33, 0x99]" by code_simp
  moreover have "capture_pixel ?px 0 0 = [0, 0, 0]" by (rule firmware_corner) (simp add: assms)
  ultimately have "\<not> shows_first_glyph ?px" unfolding shows_first_glyph_def by force
  moreover have "length ?px = 3072000" using assms by simp
  ultimately show ?thesis unfolding write_ppm_255 check_kernel_capture by (simp only: if_False not_True_eq_False simp_thms)
qed

lemma nonstandard_maxval: "check_capture (write_ppm 42 kernel_text_pixels) = Inl Bad_Maxval"
proof -
  have v: "show_dec (ucast (42 :: u16)) = [0x34, 0x32]" by code_simp
  have "splitn 4 0x0a (write_ppm 42 kernel_text_pixels) =
      [[0x50, 0x36], KERNEL_SCREENSHOT_DIMENSIONS, [0x34, 0x32], kernel_text_pixels]"
    unfolding write_ppm_file [OF v] by (rule splitn_ppm) (simp_all add: KERNEL_SCREENSHOT_DIMENSIONS_def)
  then show ?thesis by (simp add: check_capture_def next_part_def ensure_def try_with_def)
qed

lemma xtask_tests_pass:
  "rejects_coloured_firmware_frame_without_kernel_text = Some ()" "rejects_ppm_with_nonstandard_maxval = Some ()"
  "rejects_truncated_ppm_payload = Some ()"
proof -
  show "rejects_coloured_firmware_frame_without_kernel_text = Some ()"
    unfolding rejects_coloured_firmware_frame_without_kernel_text_def Let_def
    by (subst rejects_coloured_frame) (simp_all add: SCREEN_WIDTH_def SCREEN_HEIGHT_def assert_that_def is_err_def)
  show "rejects_ppm_with_nonstandard_maxval = Some ()"
    by (simp add: rejects_ppm_with_nonstandard_maxval_def nonstandard_maxval assert_that_def is_err_def)
  show "rejects_truncated_ppm_payload = Some ()"
    by (simp add: rejects_truncated_ppm_payload_def write_ppm_255 check_kernel_capture length_kernel_text_pixels
        SCREEN_WIDTH_def assert_that_def is_err_def)
qed

end
