(* ===== verification/Spec2Isabelle.thy ===== *)
theory Spec2Isabelle
  imports Xtask_Props Boot_Chain Kernel_Faults Source_Tests
begin

text \<open>
  Verification library of a bare-metal x86-64 boot chain in Rust: a UEFI bootloader, the kernel it
  loads, the handoff crate the two share, and the harness that boots both in QEMU and judges the
  result.

  \<^bold>\<open>The program and its parts.\<close> The bootloader (bootloader/src) reads kernel.elf from the boot
  volume, checks and loads it (\<open>elf.rs\<close>), describes the framebuffer (\<open>graphics.rs\<close>), allocates
  the memory-map array, a stack and a page for \<open>BootInfo\<close> (\<open>memory.rs\<close>, \<open>handoff.rs\<close>, \<open>main.rs\<close>),
  leaves boot services and jumps. The kernel (kernel/src) initialises the UART, validates the
  \<open>BootInfo\<close>, loads its descriptor tables and gates, programs the 8259, the 8254 and the 8042,
  paints the screen and starts a text console, hands the memory map to a frame allocator, takes a
  1 MiB heap from it, enables interrupts, and reports success once 100 timer ticks and a key event
  have arrived. The harness (xtask/src) stages both images, runs QEMU with a deadline, checks a
  screen capture, types keys, and compares QEMU's exit code; its negative test corrupts the image.
  Components interact by call, through the kernel's statics (shared between the main path and the
  interrupt handlers), through the bytes of the handoff, and through the exit device.

  \<^bold>\<open>Conventions.\<close> Machine integers are words of their width. The images are built with overflow
  checks, so every \<open>+\<close>, \<open>-\<close> and \<open>*\<close> of the source that can overflow is \<open>checked_add\<close>,
  \<open>checked_sub\<close> or \<open>checked_mul\<close> in the option monad \<open>run\<close>; \<open>None\<close> is a panic, a failed
  assertion, an index out of range, an unsafe copy past its buffer, or a wait that never ends. Errors the source returns are
  values: \<open>Inl\<close> of its error type, or \<open>None\<close> of an inner option. A loop is a \<open>fun\<close> on what is
  left of it, or a \<open>function\<close> with a measure; the loops no counter bounds (the UART's wait, the
  harness' two polling loops) are \<open>partial_function\<close>s, and that they return is proved, on a UART
  that gets ready and on a clock that runs forward; the 8042's waits have the source's own bound
  \<open>SPIN_BUDGET\<close>, so no fuel is added anywhere. State is a record per module, extended as
  modules are added (\<open>cpu\<close>, \<open>frame_state\<close>, \<open>heap_state\<close>, \<open>kernel_io\<close>, \<open>kernel\<close>).

  \<^bold>\<open>Theories and sources.\<close>

  \<^item> \<open>Prelude\<close>: words, checked arithmetic, the monad, rounding, shared by all.
  \<^item> \<open>Boot_Info\<close>: boot_info/src/lib.rs, with the iterator over usable regions (whose runs are the
    whole frames of the conventional regions, in order).
  \<^item> \<open>Alloc_Contract\<close>: the interface of an allocator as the locales \<open>resource_allocator\<close> and
    \<open>coalescing_allocator\<close>, and what any client of one can rely on.
  \<^item> \<open>Interrupts\<close>, \<open>Frame_Alloc\<close>, \<open>Frame_Refine\<close>, \<open>Frame_Props\<close>: interrupts.rs and frame.rs.
    The allocator refines a stack of frames and a list of runs; it interprets the contract.
  \<^item> \<open>Kernel_Heap\<close>, \<open>Heap_Refine\<close>, \<open>Heap_Props\<close>, \<open>Heap_Theorems\<close>: heap.rs. The free list in
    memory refines a sorted list of spans; it interprets the contract a second time.
  \<^item> \<open>Heap_Work\<close>, \<open>Heap_Bytes\<close>, \<open>Heap_Live\<close>, \<open>Heap_Work_Props\<close>: the heap self-test of heap.rs with
    the \<open>Box\<close>, \<open>Vec\<close> and \<open>String\<close> operations it performs, whose data lies in the same memory as
    the free list; a heap with one live block, and the four scopes on it.
  \<^item> \<open>Elf_Loader\<close>, \<open>Elf_Props\<close>: bootloader elf.rs, on byte-addressed memory.
  \<^item> \<open>Boot_Handoff\<close>, \<open>Boot_Props\<close>: the rest of the bootloader, with UEFI as the record \<open>uefi\<close>.
  \<^item> \<open>Boot_Abi\<close>: the handoff as bytes in memory; the layouts are instances of the locale
    \<open>record_layout\<close>.
  \<^item> \<open>Font\<close>, \<open>Console_Text\<close>, \<open>Console_Props\<close>: font.rs and console.rs, against a terminal of
    character cells.
  \<^item> \<open>Ports\<close>, \<open>Serial\<close>, \<open>Pic\<close>, \<open>Pit\<close>, \<open>Keyboard\<close>, \<open>Ps2\<close>: the drivers. Devices are the record
    \<open>ports\<close>; what a driver relies on of its chip is a predicate taken from the chip's data sheet
    (\<open>is_16550\<close>, \<open>is_8259\<close>, \<open>is_8042\<close>).
  \<^item> \<open>Gdt\<close>, \<open>Idt\<close>, \<open>Irq\<close>: gdt.rs and idt.rs, the handlers, and delivery through a gate, with what the
    processor makes of a gate that is absent or a stack that takes no frame.
  \<^item> \<open>Kernel_Main\<close>: kernel main.rs: \<open>kernel_start\<close> and \<open>kernel_main\<close> up to the point where
    interrupts come on, and the wait as a step relation in which interrupts interleave.
  \<^item> \<open>Kernel_Props\<close>, \<open>Kernel_Boot\<close>, \<open>Kernel_Bringup\<close>, \<open>Kernel_Start\<close>: the wait under every
    interleaving; the painted screen; each bring-up step and what it leaves alone; the bring-up.
  \<^item> \<open>Screen_Check\<close>, \<open>Screen_Props\<close>, \<open>Xtask\<close>, \<open>Xtask_Props\<close>: the harness, with the operating
    system as the record \<open>host\<close>.
  \<^item> \<open>Boot_Chain\<close>: the bootloader's outcome, read back from memory by the kernel, up to the verdict.
  \<^item> \<open>Kernel_Faults\<close>: the exceptions the kernel does not survive, and the panic handler.
  \<^item> \<open>Source_Tests\<close>: the repository's unit tests, proved of the model.

  \<^bold>\<open>What the theorems show.\<close> The whole chain (\<open>boot_chain_sound\<close>, \<open>kernel_start_brings_up\<close>,
  \<open>kernel_verdict_sound\<close>, \<open>kernel_decides\<close>): the kernel never rejects what the bootloader hands
  over, arrives at the wait whenever the map has a run of 260 frames (4 for the allocator's
  self-test, 256 for the heap), and its verdict is right under every schedule of interrupts. A
  fault or a panic is reported on the serial line and the screen and ends with the failure code, a
  fault on an unusable stack by the double fault's handler on its own (\<open>faults_reported\<close>). The allocators: live blocks never overlap, nothing leaks, frees coalesce,
  first fit and exhaustion are exact, and the heap's self-test passes on every heap with 64 KiB in
  one block (the kernel's has 1 MiB). The loader: what is loaded is what the headers say, nothing
  else is written, bad images are errors. The handoff: the bytes the kernel reads are those the
  bootloader meant. The console: it draws exactly the terminal's cells and neither writes nor reads
  outside the framebuffer. The drivers and tables: the state each leaves the hardware in, from any state the
  firmware left. The harness: it returns, leaves no process behind, restores the image it corrupts,
  and its screen check accepts what the kernel paints.

  \<^bold>\<open>Hypotheses.\<close> \<open>fw_ok\<close>, \<open>pages_ok\<close>: page grants are aligned and do not wrap. \<open>pages_apart\<close>: nor
  do they overlap. \<open>map_sound\<close>, \<open>map_ok\<close>: the memory map lists no page twice and stays below 2^52.
  \<open>modes_sound\<close>: the pixels of a mode can be counted in bytes. \<open>machine_ok\<close>: the UART and the 8259
  pair follow their data sheets and devices do not answer to each other's ports.
  \<open>distinct_handlers\<close>, \<open>fault_handlers_distinct\<close>: handlers have distinct addresses. \<open>clock_ok\<close>,
  \<open>children_ok\<close>, \<open>files_ok\<close>: the host's clock does not run backwards, a killed child exits and is gone
  once waited for, a written file holds what was written. Each is met by
  a concrete instance in a witness.

  \<^bold>\<open>Not modelled.\<close> kernel/build.rs and kernel.ld only steer the linker; tools/generate_font.py is
  not Rust, and the table it produced is modelled as it stands. Assembly is modelled by its effect
  on the registers, flags and ports it names; paging, caches and the time between instructions are
  not. The bootloader's log output is left out, the kernel's is modelled byte for byte. UEFI, QEMU
  and cargo are parameters. Of the \<open>alloc\<close> crate the operations of the heap self-test are modelled;
  the bootloader's \<open>Vec\<close> and the harness' are lists. A panic is the value \<open>None\<close>; what the panic
  handler then does is \<open>kernel_panic\<close>. Exceptions during the delivery of an exception are
  followed to the handler that runs in the end; exceptions inside a handler are not, so the stack that
  takes a frame is taken to hold what the handler needs below it.
\<close>

end
